(* ===== verification/Tellstone_Prelude.thy ===== *)
theory Tellstone_Prelude
  imports Main "HOL-Library.Word"
begin

unbundle bit_operations_syntax

text \<open>
  The shared vocabulary of the development: Go byte strings and time values, run-time panics as
  values, the fixed-width integer codecs of \<^verbatim>\<open>encoding/binary\<close>, the decimal
  conversions of \<^verbatim>\<open>strconv\<close>, and the generic lemmas on lists, maps and words the
  components use. The locale \<open>step_system\<close> is the invariant rule every component with a
  step relation instantiates.
\<close>

named_theorems codec_simps \<open>round trips of the byte codecs\<close>

section \<open>Types\<close>

text \<open>
  A Go \<^verbatim>\<open>string\<close> and a \<^verbatim>\<open>[]byte\<close> are both sequences of bytes
  (the code aliases one as the other); both are HOL strings, one \<open>char\<close> per byte.
  A \<^verbatim>\<open>time.Time\<close> is a number of nanoseconds since the epoch, or \<open>None\<close>
  for the zero value; a \<^verbatim>\<open>time.Duration\<close> is an integer of nanoseconds that
  arithmetic of the code wraps with \<open>int64\<close>.
\<close>

type_synonym bytes = string
type_synonym gotime = "int option"
type_synonym duration = int
type_synonym uint64 = "64 word"
type_synonym uint32 = "32 word"

datatype 'a go = Returns 'a | Panics

definition go_bind :: "'a go \<Rightarrow> ('a \<Rightarrow> 'b go) \<Rightarrow> 'b go" where
  "go_bind m f = (case m of Returns a \<Rightarrow> f a | Panics \<Rightarrow> Panics)"

lemma go_bind_simps [simp]: "go_bind (Returns a) f = f a" "go_bind Panics f = Panics"
  by (simp_all add: go_bind_def)

lemma go_bind_eq_Returns [simp]:
  "go_bind m f = Returns b \<longleftrightarrow> (\<exists>a. m = Returns a \<and> f a = Returns b)"
  by (cases m) auto

text \<open>Conversion to \<^verbatim>\<open>int64\<close>: two's complement wrap-around.\<close>

definition int64 :: "int \<Rightarrow> int" where
  "int64 x = (x + 2 ^ 63) mod 2 ^ 64 - 2 ^ 63"

lemma int64_range: "- (2 ^ 63) \<le> int64 x \<and> int64 x < 2 ^ 63"
proof -
  have "0 \<le> (x + 2 ^ 63) mod 2 ^ 64" and "(x + 2 ^ 63) mod 2 ^ 64 < 2 ^ 64"
    by simp_all
  then show ?thesis unfolding int64_def by simp
qed

lemma int64_id [simp]: "- (2 ^ 63) \<le> x \<Longrightarrow> x < 2 ^ 63 \<Longrightarrow> int64 x = x"
  by (simp add: int64_def)

text \<open>\<^verbatim>\<open>time.Time.Sub\<close> saturates at the ends of the duration range.\<close>

definition sat64 :: "int \<Rightarrow> int" where
  "sat64 x = max (- (2 ^ 63)) (min (2 ^ 63 - 1) x)"

lemma sat64_pos_iff [simp]: "0 < sat64 x \<longleftrightarrow> 0 < x"
  by (simp add: sat64_def less_max_iff_disj)

definition second :: duration where "second = 1000000000"

definition millisecond :: duration where "millisecond = 1000000"

text \<open>\<^verbatim>\<open>!t.IsZero() && now.After(t)\<close>.\<close>

definition past :: "int \<Rightarrow> gotime \<Rightarrow> bool" where
  "past now t = (case t of None \<Rightarrow> False | Some e \<Rightarrow> e < now)"

lemma past_simps [simp]: "\<not> past now None" "past now (Some e) = (e < now)"
  by (simp_all add: past_def)

text \<open>The expiration of an entry: \<^verbatim>\<open>now.Add(ttl)\<close> when \<open>ttl > 0\<close>, else the zero time.\<close>

definition deadline :: "int \<Rightarrow> duration \<Rightarrow> gotime" where
  "deadline now ttl = (if ttl > 0 then Some (now + ttl) else None)"

section \<open>Fixed-width unsigned integers\<close>

fun le_bytes :: "nat \<Rightarrow> nat \<Rightarrow> bytes" where
  "le_bytes 0 n = []"
| "le_bytes (Suc w) n = char_of (n mod 256) # le_bytes w (n div 256)"

fun le_nat :: "bytes \<Rightarrow> nat" where
  "le_nat [] = 0"
| "le_nat (c # cs) = of_char c + 256 * le_nat cs"

definition be_bytes :: "nat \<Rightarrow> nat \<Rightarrow> bytes" where
  "be_bytes w n = rev (le_bytes w n)"

definition be_nat :: "bytes \<Rightarrow> nat" where
  "be_nat b = le_nat (rev b)"

lemma length_le_bytes [simp]: "length (le_bytes w n) = w"
  by (induction w arbitrary: n) auto

lemma length_be_bytes [simp]: "length (be_bytes w n) = w"
  by (simp add: be_bytes_def)

lemma le_nat_le_bytes [codec_simps]: "le_nat (le_bytes w n) = n mod 256 ^ w"
proof (induction w arbitrary: n)
  case (Suc w)
  have "n mod 256 ^ Suc w = n mod 256 + 256 * (n div 256 mod 256 ^ w)"
    by (simp add: mod_mult2_eq mult.commute)
  with Suc.IH [of "n div 256"] show ?case by simp
qed simp

lemma be_nat_be_bytes [codec_simps]: "be_nat (be_bytes w n) = n mod 256 ^ w"
  by (simp add: be_nat_def be_bytes_def le_nat_le_bytes)

lemma le_nat_bound: "le_nat b < 256 ^ length b"
proof (induction b)
  case (Cons c cs)
  have "of_char c < (256::nat)" by simp
  with Cons show ?case unfolding le_nat.simps length_Cons power_Suc by linarith
qed simp

lemma be_nat_bound: "be_nat b < 256 ^ length b"
  using le_nat_bound [of "rev b"] by (simp add: be_nat_def)

lemma le_bytes_le_nat [codec_simps]: "le_bytes (length b) (le_nat b) = b"
  by (induction b) (simp_all add: div_mult_self4 del: of_char_of)

lemma be_bytes_be_nat [codec_simps]: "be_bytes (length b) (be_nat b) = b"
  using le_bytes_le_nat [of "rev b"] by (simp add: be_bytes_def be_nat_def)

lemma be_nat_id [codec_simps]: "n < 256 ^ w \<Longrightarrow> be_nat (be_bytes w n) = n"
  by (simp add: be_nat_be_bytes)

lemma le_nat_id [codec_simps]: "n < 256 ^ w \<Longrightarrow> le_nat (le_bytes w n) = n"
  by (simp add: le_nat_le_bytes)

lemma unat_of_nat_less: "n < 2 ^ LENGTH('a) \<Longrightarrow> unat (of_nat n :: 'a::len word) = n"
  by (simp add: unat_of_nat take_bit_nat_eq_self)

lemma unat64_less: "unat (x :: uint64) < 256 ^ 8"
proof -
  have "unat x < 2 ^ LENGTH(64)" by (rule unsigned_less)
  then show ?thesis by simp
qed

lemma unat32_less: "unat (x :: uint32) < 256 ^ 4"
proof -
  have "unat x < 2 ^ LENGTH(32)" by (rule unsigned_less)
  then show ?thesis by simp
qed

section \<open>Decimal numbers\<close>

text \<open>\<^verbatim>\<open>strconv.AppendInt(dst, n, 10)\<close>.\<close>

fun dec_nat :: "nat \<Rightarrow> bytes" where
  "dec_nat n = (if n < 10 then [char_of (48 + n)] else dec_nat (n div 10) @ [char_of (48 + n mod 10)])"

declare dec_nat.simps [simp del]

definition itoa :: "int \<Rightarrow> bytes" where
  "itoa n = (if n < 0 then CHR ''-'' # dec_nat (nat (- n)) else dec_nat (nat n))"

definition is_digit :: "char \<Rightarrow> bool" where
  "is_digit c = (48 \<le> (of_char c :: nat) \<and> (of_char c :: nat) \<le> 57)"

definition digit_val :: "char \<Rightarrow> nat" where
  "digit_val c = of_char c - 48"

definition digits_val :: "bytes \<Rightarrow> nat" where
  "digits_val b = foldl (\<lambda>n c. 10 * n + digit_val c) 0 b"

text \<open>
  \<^verbatim>\<open>strconv.ParseUint(s, 10, 64)\<close> and \<^verbatim>\<open>strconv.Atoi\<close>: an empty string, a
  character that is no digit, and a value out of range are errors; \<^verbatim>\<open>Atoi\<close> takes
  one leading sign.
\<close>

definition ParseUint :: "bytes \<Rightarrow> nat option" where
  "ParseUint s = (if s \<noteq> [] \<and> list_all is_digit s \<and> digits_val s < 2 ^ 64 then Some (digits_val s) else None)"

definition Atoi :: "bytes \<Rightarrow> int option" where
  "Atoi s =
     (let neg = (s \<noteq> [] \<and> hd s = CHR ''-'');
          ds = (if s \<noteq> [] \<and> (hd s = CHR ''-'' \<or> hd s = CHR ''+'') then tl s else s);
          v = (if neg then - int (digits_val ds) else int (digits_val ds))
      in if ds \<noteq> [] \<and> list_all is_digit ds \<and> - (2 ^ 63) \<le> v \<and> v < 2 ^ 63 then Some v else None)"

lemma dec_nat_nonempty [simp]: "dec_nat n \<noteq> []"
  by (subst dec_nat.simps) simp

lemma is_digit_char_of: "d < (10::nat) \<Longrightarrow> is_digit (char_of (48 + d))"
  by (simp add: is_digit_def)

lemma dec_nat_digits [simp]: "list_all is_digit (dec_nat n)"
proof (induction n rule: dec_nat.induct)
  case (1 n)
  then show ?case by (subst dec_nat.simps) (simp add: is_digit_char_of)
qed

lemma digits_val_snoc: "digits_val (b @ [c]) = 10 * digits_val b + digit_val c"
  by (simp add: digits_val_def)

lemma digit_val_char_of: "d < (10::nat) \<Longrightarrow> digit_val (char_of (48 + d)) = d"
  by (simp add: digit_val_def)

lemma digits_val_dec_nat [simp]: "digits_val (dec_nat n) = n"
proof (induction n rule: dec_nat.induct)
  case (1 n)
  show ?case
  proof (cases "n < 10")
    case True
    then show ?thesis
      by (subst dec_nat.simps) (simp add: digits_val_def digit_val_char_of)
  next
    case False
    with 1 show ?thesis
      by (subst dec_nat.simps) (simp add: digits_val_snoc digit_val_char_of)
  qed
qed

lemma dec_nat_hd: "hd (dec_nat n) \<noteq> CHR ''-'' \<and> hd (dec_nat n) \<noteq> CHR ''+''"
proof -
  have "is_digit (hd (dec_nat n))"
    using dec_nat_digits [of n] by (metis dec_nat_nonempty hd_in_set list_all_iff)
  then show ?thesis by (auto simp: is_digit_def)
qed

lemma Atoi_itoa [codec_simps]: "- (2 ^ 63) \<le> n \<Longrightarrow> n < 2 ^ 63 \<Longrightarrow> Atoi (itoa n) = Some n"
  using dec_nat_hd [of "nat n"] by (auto simp: Atoi_def itoa_def Let_def)

lemma itoa_no_CR: "CHR 0x0D \<notin> set (itoa n)"
proof -
  have "CHR 0x0D \<notin> set (dec_nat k)" for k
    using dec_nat_digits [of k] by (auto simp: list_all_iff is_digit_def)
  then show ?thesis by (simp add: itoa_def)
qed

lemma ParseUint_dec_nat [codec_simps]: "n < 2 ^ 64 \<Longrightarrow> ParseUint (dec_nat n) = Some n"
  by (simp add: ParseUint_def)

section \<open>Step relations\<close>

text \<open>
  The rule behind every safety property: an invariant of the initial states that each step keeps
  holds in all reachable states. A component interprets the locale on its own step relation.
\<close>

inductive reach :: "('s \<Rightarrow> bool) \<Rightarrow> ('s \<Rightarrow> 's \<Rightarrow> bool) \<Rightarrow> 's \<Rightarrow> bool" for init step where
  reach_init: "init s \<Longrightarrow> reach init step s"
| reach_step: "reach init step s \<Longrightarrow> step s t \<Longrightarrow> reach init step t"

locale step_system =
  fixes init :: "'s \<Rightarrow> bool" and step :: "'s \<Rightarrow> 's \<Rightarrow> bool" and inv :: "'s \<Rightarrow> bool"
  assumes inv_init: "init s \<Longrightarrow> inv s"
    and inv_step: "inv s \<Longrightarrow> step s t \<Longrightarrow> inv t"
begin

lemma reach_inv: "reach init step s \<Longrightarrow> inv s"
  by (induction rule: reach.induct) (auto intro: inv_init inv_step)

end

end
