(* ===== verification/Crypto_Engine.thy ===== *)
theory Crypto_Engine
  imports Tellstone_Prelude
begin

text \<open>
  \<^verbatim>\<open>src/internal/crypto/cipher.go\<close>: the at-rest encryption engine. The AEAD
  primitive (\<^verbatim>\<open>golang.org/x/crypto/chacha20poly1305\<close>) and SHA-256 are not code of the
  repository: they are the fields of the parameter \<open>prims\<close>, and what the engine relies on
  is the predicate \<open>aead_laws\<close>, the documented contract of \<^verbatim>\<open>cipher.AEAD\<close>. The bytes
  \<^verbatim>\<open>crypto/rand\<close> delivers are an argument too, \<open>None\<close> when the entropy source fails.
\<close>

record prims =
  Seal :: "bytes \<Rightarrow> bytes \<Rightarrow> bytes \<Rightarrow> bytes"
  Open :: "bytes \<Rightarrow> bytes \<Rightarrow> bytes \<Rightarrow> bytes option"
  Sha256 :: "bytes \<Rightarrow> bytes"

abbreviation NonceSize :: nat where "NonceSize \<equiv> 12"

abbreviation Overhead :: nat where "Overhead \<equiv> 16"

abbreviation keySize :: nat where "keySize \<equiv> 32"

definition aead_laws :: "prims \<Rightarrow> bool" where
  "aead_laws P \<longleftrightarrow>
     (\<forall>k n p. length k = keySize \<longrightarrow> length n = NonceSize \<longrightarrow>
        Open P k n (Seal P k n p) = Some p \<and> length (Seal P k n p) = length p + Overhead)"

lemma aead_Open_Seal:
  "aead_laws P \<Longrightarrow> length k = keySize \<Longrightarrow> length n = NonceSize \<Longrightarrow> Open P k n (Seal P k n p) = Some p"
  and aead_Seal_length:
  "aead_laws P \<Longrightarrow> length k = keySize \<Longrightarrow> length n = NonceSize \<Longrightarrow>
     length (Seal P k n p) = length p + Overhead"
  by (auto simp: aead_laws_def)

datatype crypto_error = KeyLength | EntropyFailure | ErrDecryptionFailed | NonceLength

record crypto_engine =
  aead_key :: bytes
  keyFingerprint :: bytes
  enabled :: bool

definition FingerprintBytes :: "prims \<Rightarrow> bytes \<Rightarrow> bytes" where
  "FingerprintBytes P key = take 16 (Sha256 P key)"

definition NewCryptoEngine :: "prims \<Rightarrow> bytes \<Rightarrow> crypto_error + crypto_engine" where
  "NewCryptoEngine P key =
     (if length key = 0 then
        Inr \<lparr>aead_key = [], keyFingerprint = replicate 16 (CHR 0x00), enabled = False\<rparr>
      else if length key \<noteq> keySize then Inl KeyLength
      else Inr \<lparr>aead_key = key, keyFingerprint = FingerprintBytes P key, enabled = True\<rparr>)"

definition EncryptInPlace :: "prims \<Rightarrow> crypto_engine \<Rightarrow> bytes option \<Rightarrow> bytes \<Rightarrow> crypto_error + bytes" where
  "EncryptInPlace P e rnd plaintext =
     (if \<not> enabled e then Inr plaintext
      else (case rnd of
              None \<Rightarrow> Inl EntropyFailure
            | Some nonce \<Rightarrow> Inr (nonce @ Seal P (aead_key e) nonce plaintext)))"

definition DecryptInPlace :: "prims \<Rightarrow> crypto_engine \<Rightarrow> bytes \<Rightarrow> crypto_error + bytes" where
  "DecryptInPlace P e ciphertext =
     (if \<not> enabled e then Inr ciphertext
      else if length ciphertext < NonceSize + Overhead then Inl ErrDecryptionFailed
      else (case Open P (aead_key e) (take NonceSize ciphertext) (drop NonceSize ciphertext) of
              None \<Rightarrow> Inl ErrDecryptionFailed
            | Some plaintext \<Rightarrow> Inr plaintext))"

text \<open>
  \<^verbatim>\<open>DecryptInPlaceWithDst\<close> appends the plaintext to \<^verbatim>\<open>dst[:0]\<close>; which array backs
  the result is the only difference from \<^verbatim>\<open>DecryptInPlace\<close>.
\<close>

definition DecryptInPlaceWithDst :: "prims \<Rightarrow> crypto_engine \<Rightarrow> bytes \<Rightarrow> crypto_error + bytes" where
  "DecryptInPlaceWithDst P e ciphertext =
     (if \<not> enabled e then Inr ciphertext
      else if length ciphertext < NonceSize + Overhead then Inl ErrDecryptionFailed
      else (case Open P (aead_key e) (take NonceSize ciphertext) (drop NonceSize ciphertext) of
              None \<Rightarrow> Inl ErrDecryptionFailed
            | Some plaintext \<Rightarrow> Inr plaintext))"

definition SealWithCounter :: "prims \<Rightarrow> crypto_engine \<Rightarrow> bytes \<Rightarrow> bytes \<Rightarrow> crypto_error + bytes" where
  "SealWithCounter P e nonce plaintext =
     (if \<not> enabled e then Inr plaintext
      else if length nonce \<noteq> NonceSize then Inl NonceLength
      else Inr (Seal P (aead_key e) nonce plaintext))"

definition OpenWithCounter :: "prims \<Rightarrow> crypto_engine \<Rightarrow> bytes \<Rightarrow> bytes \<Rightarrow> crypto_error + bytes" where
  "OpenWithCounter P e nonce ciphertext =
     (if \<not> enabled e then Inr ciphertext
      else if length nonce \<noteq> NonceSize then Inl NonceLength
      else if length ciphertext < Overhead then Inl ErrDecryptionFailed
      else (case Open P (aead_key e) nonce ciphertext of
              None \<Rightarrow> Inl ErrDecryptionFailed
            | Some plaintext \<Rightarrow> Inr plaintext))"

section \<open>Round trips\<close>

text \<open>An engine as \<^verbatim>\<open>NewEngine\<close> returns it: an enabled one has a key of 32 bytes.\<close>

definition crypto_wf :: "crypto_engine \<Rightarrow> bool" where
  "crypto_wf e \<longleftrightarrow> (enabled e \<longrightarrow> length (aead_key e) = keySize)"

lemma NewCryptoEngine_wf: "NewCryptoEngine P key = Inr e \<Longrightarrow> crypto_wf e"
  by (auto simp: NewCryptoEngine_def crypto_wf_def split: if_splits)

lemma EncryptInPlace_length:
  assumes "aead_laws P" "crypto_wf e" "\<forall>n. rnd = Some n \<longrightarrow> length n = NonceSize"
    and "EncryptInPlace P e rnd v = Inr c"
  shows "length c = (if enabled e then 12 + length v + 16 else length v)"
  using assms by (auto simp: EncryptInPlace_def crypto_wf_def aead_Seal_length split: if_splits option.splits)

lemma DecryptInPlaceWithDst_EncryptInPlace:
  assumes "aead_laws P" "crypto_wf e" "\<forall>n. rnd = Some n \<longrightarrow> length n = NonceSize"
    and "EncryptInPlace P e rnd v = Inr c"
  shows "DecryptInPlaceWithDst P e c = Inr v"
  using assms
  by (auto simp: EncryptInPlace_def DecryptInPlaceWithDst_def crypto_wf_def aead_Open_Seal aead_Seal_length
      split: if_splits option.splits)

lemma DecryptInPlace_eq_WithDst: "DecryptInPlace = DecryptInPlaceWithDst"
  by (intro ext) (simp add: DecryptInPlace_def DecryptInPlaceWithDst_def)

lemma OpenWithCounter_SealWithCounter:
  assumes "aead_laws P" "crypto_wf e" "SealWithCounter P e nonce v = Inr c"
  shows "OpenWithCounter P e nonce c = Inr v"
  using assms
  by (auto simp: SealWithCounter_def OpenWithCounter_def crypto_wf_def aead_Open_Seal aead_Seal_length
      split: if_splits)

lemma SealWithCounter_length:
  assumes "aead_laws P" "crypto_wf e" "SealWithCounter P e nonce v = Inr c"
  shows "length c = (if enabled e then length v + Overhead else length v)"
  using assms by (auto simp: SealWithCounter_def crypto_wf_def aead_Seal_length split: if_splits)

section \<open>A concrete instance\<close>

text \<open>
  A primitive that satisfies the contract, for the witnesses: the tag is sixteen zero bytes and
  the digest is the key padded to 32 bytes.
\<close>

definition plain_prims :: prims where
  "plain_prims =
     \<lparr>Seal = (\<lambda>k n p. p @ replicate 16 (CHR 0x00)),
      Open = (\<lambda>k n c. if drop (length c - 16) c = replicate 16 (CHR 0x00) \<and> 16 \<le> length c
                      then Some (take (length c - 16) c) else None),
      Sha256 = (\<lambda>k. take 32 (k @ replicate 32 (CHR 0x00)))\<rparr>"

lemma plain_prims_laws [simp]: "aead_laws plain_prims"
  by (simp add: aead_laws_def plain_prims_def)

end
