(* ===== verification/Envelope.thy ===== *)
theory Envelope
  imports Crypto_Engine "HOL-Library.AList" "HOL-Library.List_Lexorder" "HOL-Library.Char_ord"
begin

text \<open>
  \<^verbatim>\<open>src/internal/crypto/envelope.go\<close>, \<^verbatim>\<open>rewrap.go\<close> and the key
  providers: data keys wrapped by a key encryption key, and the offline rotation of that key.
  A data directory is an association list from file names to contents. Every system call may
  fail: \<open>io_env\<close> says which calls fail and how many bytes of a failing write reach the
  file, so a theorem over all \<open>io_env\<close> covers every fault of the run.
\<close>

section \<open>Files\<close>

type_synonym dir = "(string \<times> bytes) list"

datatype io_call =
    MkdirAll | OpenTmp | WriteTmp | SyncTmp | CloseTmp | RemoveTmp | RenameTmp
  | OpenDir | SyncDir | CloseDir | ReadFile | CopyRead | CopyWrite

record io_env =
  fails :: "io_call \<Rightarrow> bool"
  partial :: nat

definition no_faults :: io_env where
  "no_faults = \<lparr>fails = (\<lambda>c. False), partial = 0\<rparr>"

definition tmp_name :: "string \<Rightarrow> string" where
  "tmp_name path = path @ ''.tmp''"

definition bak_name :: "string \<Rightarrow> string" where
  "bak_name path = path @ ''.bak''"

text \<open>
  The error branches of \<^verbatim>\<open>atomicWrite\<close> assign the outcome of the clean-up to the same
  variable \<^verbatim>\<open>err\<close> they return: \<open>None\<close> is Go's nil error.
\<close>

definition remove_tmp :: "io_env \<Rightarrow> string \<Rightarrow> dir \<Rightarrow> io_call option \<times> dir" where
  "remove_tmp io tmp d = (if fails io RemoveTmp then (Some RemoveTmp, d) else (None, AList.delete tmp d))"

definition close_remove_tmp :: "io_env \<Rightarrow> string \<Rightarrow> dir \<Rightarrow> io_call option \<times> dir" where
  "close_remove_tmp io tmp d = (if fails io CloseTmp then (Some CloseTmp, d) else remove_tmp io tmp d)"

definition sync_dir :: "io_env \<Rightarrow> dir \<Rightarrow> io_call option \<times> dir" where
  "sync_dir io d =
     (if fails io OpenDir then (Some OpenDir, d)
      else if fails io SyncDir then (Some (if fails io CloseDir then CloseDir else SyncDir), d)
      else if fails io CloseDir then (Some CloseDir, d)
      else (None, d))"

definition atomicWrite :: "io_env \<Rightarrow> string \<Rightarrow> bytes \<Rightarrow> dir \<Rightarrow> io_call option \<times> dir" where
  "atomicWrite io path data d =
     (let tmp = tmp_name path in
      if fails io OpenTmp then (Some OpenTmp, d)
      else if fails io WriteTmp then close_remove_tmp io tmp (AList.update tmp (take (partial io) data) d)
      else let d1 = AList.update tmp data d in
        if fails io SyncTmp then close_remove_tmp io tmp d1
        else if fails io CloseTmp then remove_tmp io tmp d1
        else if fails io RenameTmp then remove_tmp io tmp d1
        else sync_dir io (AList.update path data (AList.delete tmp d1)))"

definition copyFile :: "io_env \<Rightarrow> string \<Rightarrow> string \<Rightarrow> dir \<Rightarrow> io_call option \<times> dir" where
  "copyFile io src dst d =
     (case (if fails io CopyRead then None else map_of d src) of
        None \<Rightarrow> (Some CopyRead, d)
      | Some data \<Rightarrow>
          if fails io CopyWrite then (Some CopyWrite, AList.update dst (take (partial io) data) d)
          else (None, AList.update dst data d))"

section \<open>The envelope\<close>

datatype env_error =
    EnvCrypto crypto_error | EnvIO io_call | EnvNotExist | EnvFormat | EnvFingerprint | EnvKEKLength

record envelope =
  kek :: bytes
  dek :: bytes
  cryptoEngine :: crypto_engine
  env_enabled :: bool

definition envVersion :: char where "envVersion = CHR 0x01"

abbreviation envFingerprintLen :: nat where "envFingerprintLen \<equiv> 16"

definition NewEnvelope :: "prims \<Rightarrow> bytes \<Rightarrow> env_error + envelope" where
  "NewEnvelope P key =
     (case NewCryptoEngine P key of
        Inl err \<Rightarrow> Inl (EnvCrypto err)
      | Inr engine \<Rightarrow>
          if length key = 0
          then Inr \<lparr>kek = key, dek = [], cryptoEngine = engine, env_enabled = False\<rparr>
          else if length key \<noteq> keySize then Inl EnvKEKLength
          else Inr \<lparr>kek = key, dek = [], cryptoEngine = engine, env_enabled = True\<rparr>)"

definition GenerateDEK :: "bytes option \<Rightarrow> envelope \<Rightarrow> env_error + envelope" where
  "GenerateDEK rnd e =
     (if \<not> env_enabled e then Inr e
      else (case rnd of None \<Rightarrow> Inl (EnvCrypto EntropyFailure) | Some data \<Rightarrow> Inr (e\<lparr>dek := data\<rparr>)))"

definition DEK :: "envelope \<Rightarrow> bytes" where
  "DEK e = (if env_enabled e then dek e else kek e)"

definition env_encrypt :: "prims \<Rightarrow> bytes option \<Rightarrow> envelope \<Rightarrow> crypto_error + bytes" where
  "env_encrypt P rnd e =
     (if \<not> env_enabled e then Inr (kek e) else EncryptInPlace P (cryptoEngine e) rnd (dek e))"

definition env_decrypt :: "prims \<Rightarrow> envelope \<Rightarrow> bytes \<Rightarrow> crypto_error + bytes" where
  "env_decrypt P e encryptedDEK =
     (if \<not> env_enabled e then Inr (kek e) else DecryptInPlace P (cryptoEngine e) encryptedDEK)"

definition env_bytes :: "prims \<Rightarrow> bytes \<Rightarrow> bytes \<Rightarrow> bytes" where
  "env_bytes P key wrapped = envVersion # FingerprintBytes P key @ wrapped"

text \<open>
  \<^verbatim>\<open>Store\<close> wraps whatever \<^verbatim>\<open>err\<close> holds, so unlike
  \<^verbatim>\<open>atomicWrite\<close> each of its error branches returns an error.
\<close>

definition Store :: "prims \<Rightarrow> io_env \<Rightarrow> bytes option \<Rightarrow> string \<Rightarrow> envelope \<Rightarrow> dir \<Rightarrow> env_error option \<times> dir" where
  "Store P io rnd fileName e d =
     (if \<not> env_enabled e then (None, d)
      else if fails io MkdirAll then (Some (EnvIO MkdirAll), d)
      else case env_encrypt P rnd e of
        Inl err \<Rightarrow> (Some (EnvCrypto err), d)
      | Inr wrapped \<Rightarrow>
          (let buf = env_bytes P (kek e) wrapped; tmp = tmp_name fileName in
           if fails io OpenTmp then (Some (EnvIO OpenTmp), d)
           else if fails io WriteTmp
           then (Some (EnvIO WriteTmp), snd (close_remove_tmp io tmp (AList.update tmp (take (partial io) buf) d)))
           else let d1 = AList.update tmp buf d in
             if fails io SyncTmp then (Some (EnvIO SyncTmp), snd (close_remove_tmp io tmp d1))
             else if fails io CloseTmp then (Some (EnvIO CloseTmp), snd (remove_tmp io tmp d1))
             else if fails io RenameTmp then (Some (EnvIO RenameTmp), snd (remove_tmp io tmp d1))
             else let d2 = AList.update fileName buf (AList.delete tmp d1) in
               (map_option EnvIO (fst (sync_dir io d2)), d2)))"

definition Load :: "prims \<Rightarrow> io_env \<Rightarrow> string \<Rightarrow> envelope \<Rightarrow> dir \<Rightarrow> env_error + (bytes \<times> envelope)" where
  "Load P io fileName e d =
     (if \<not> env_enabled e then Inr ([], e)
      else case map_of d fileName of
        None \<Rightarrow> Inl EnvNotExist
      | Some raw \<Rightarrow>
          if fails io ReadFile then Inl (EnvIO ReadFile)
          else if length raw < 1 + envFingerprintLen \<or> raw ! 0 \<noteq> envVersion then Inl EnvFormat
          else if take envFingerprintLen (drop 1 raw) \<noteq> FingerprintBytes P (kek e) then Inl EnvFingerprint
          else (case env_decrypt P e (drop (1 + envFingerprintLen) raw) of
                  Inl err \<Rightarrow> Inl (EnvCrypto err)
                | Inr k \<Rightarrow> Inr (k, e\<lparr>dek := k\<rparr>)))"

section \<open>Key sources\<close>

text \<open>
  \<^verbatim>\<open>encoding/base64\<close> decoding is an argument: the two encodings the provider tries, in
  order, each returning the decoded bytes or an error.
\<close>

definition Base64Key :: "(string \<Rightarrow> bytes option) list \<Rightarrow> string \<Rightarrow> bytes option" where
  "Base64Key encodings encoded =
     (if encoded = [] then Some []
      else case find (\<lambda>dec. case dec encoded of Some key \<Rightarrow> length key = keySize | None \<Rightarrow> False) encodings of
        Some dec \<Rightarrow> dec encoded
      | None \<Rightarrow> if length encoded = keySize then Some encoded else None)"

abbreviation keyReadLimit :: nat where "keyReadLimit \<equiv> keySize + 1"

definition FileKey :: "bytes option \<Rightarrow> bytes option" where
  "FileKey contents = map_option (take keyReadLimit) contents"

section \<open>Rotation of the key encryption key\<close>

fun has_suffix :: "string \<Rightarrow> string \<Rightarrow> bool" where
  "has_suffix suf s = (length suf \<le> length s \<and> drop (length s - length suf) s = suf)"

definition shard_env_file :: "string \<Rightarrow> bool" where
  "shard_env_file n \<longleftrightarrow> take 6 n = ''shard-'' \<and> has_suffix ''.env'' (drop 6 n)"

definition findEnvelopeFiles :: "dir \<Rightarrow> string list" where
  "findEnvelopeFiles d = sort (filter shard_env_file (map fst d) @ filter (\<lambda>n. n = ''audit.env'') (map fst d))"

datatype rewrap_error =
    OldKEKLength | NewKEKLength | IdenticalKEK | NoEnvelopeFiles | RwRead string | RwFormat string
  | ErrOldKeyMismatch | ErrMixedKeys nat | RwEnvelope env_error | RwUnwrap string crypto_error
  | RwWrap string crypto_error | RwBackup string io_call | RwWrite string io_call

record rewrap_result =
  Rewrapped :: nat
  Skipped :: nat
  Total :: nat

datatype env_status = StatusOld | StatusNew | StatusUnknown

type_synonym rewrap_entry = "string \<times> env_status \<times> bytes"

fun rewrap_scan :: "prims \<Rightarrow> bytes \<Rightarrow> bytes \<Rightarrow> (string \<Rightarrow> io_env) \<Rightarrow> dir \<Rightarrow> string list \<Rightarrow>
    rewrap_error + rewrap_entry list" where
  "rewrap_scan P oldKEK newKEK io d [] = Inr []"
| "rewrap_scan P oldKEK newKEK io d (n # ns) =
     (case (if fails (io n) ReadFile then None else map_of d n) of
        None \<Rightarrow> Inl (RwRead n)
      | Some raw \<Rightarrow>
          if length raw < 1 + envFingerprintLen \<or> raw ! 0 \<noteq> envVersion then Inl (RwFormat n)
          else let fp = take envFingerprintLen (drop 1 raw);
                   st = (if fp = FingerprintBytes P oldKEK then StatusOld
                         else if fp = FingerprintBytes P newKEK then StatusNew else StatusUnknown)
            in case rewrap_scan P oldKEK newKEK io d ns of
                 Inl err \<Rightarrow> Inl err
               | Inr es \<Rightarrow> Inr ((n, st, drop (1 + envFingerprintLen) raw) # es))"

text \<open>Phase 1: all cryptographic work, before the directory is touched.\<close>

fun rewrap_prepare :: "prims \<Rightarrow> envelope \<Rightarrow> envelope \<Rightarrow> (string \<Rightarrow> bytes option) \<Rightarrow> rewrap_entry list \<Rightarrow>
    rewrap_error + ((string \<times> bytes) list \<times> nat)" where
  "rewrap_prepare P oldEnv newEnv rnd [] = Inr ([], 0)"
| "rewrap_prepare P oldEnv newEnv rnd ((n, st, wrapped) # es) =
     (if st = StatusNew
      then (case rewrap_prepare P oldEnv newEnv rnd es of
              Inl err \<Rightarrow> Inl err
            | Inr (ws, skipped) \<Rightarrow> Inr (ws, skipped + 1))
      else case env_decrypt P oldEnv wrapped of
        Inl err \<Rightarrow> Inl (RwUnwrap n err)
      | Inr k \<Rightarrow>
          (case env_encrypt P (rnd n) (newEnv\<lparr>dek := k\<rparr>) of
             Inl err \<Rightarrow> Inl (RwWrap n err)
           | Inr w \<Rightarrow>
               (case rewrap_prepare P oldEnv newEnv rnd es of
                  Inl err \<Rightarrow> Inl err
                | Inr (ws, skipped) \<Rightarrow> Inr ((n, env_bytes P (kek newEnv) w) # ws, skipped))))"

text \<open>Phase 2: the optional backup and the atomic write of each file.\<close>

fun rewrap_write :: "(string \<Rightarrow> io_env) \<Rightarrow> bool \<Rightarrow> (string \<times> bytes) list \<Rightarrow> nat \<Rightarrow> dir \<Rightarrow> (rewrap_error + nat) \<times> dir" where
  "rewrap_write io retainOld [] cnt d = (Inr cnt, d)"
| "rewrap_write io retainOld ((n, buf) # ws) cnt d =
     (case (if retainOld then copyFile (io n) n (bak_name n) d else (None, d)) of
        (Some c, d1) \<Rightarrow> (Inl (RwBackup n c), d1)
      | (None, d1) \<Rightarrow>
          (case atomicWrite (io n) n buf d1 of
             (Some c, d2) \<Rightarrow> (Inl (RwWrite n c), d2)
           | (None, d2) \<Rightarrow> rewrap_write io retainOld ws (cnt + 1) d2))"

definition status_count :: "env_status \<Rightarrow> rewrap_entry list \<Rightarrow> nat" where
  "status_count st es = length (filter (\<lambda>(n, s, w). s = st) es)"

definition RewrapEnvelopes :: "prims \<Rightarrow> (string \<Rightarrow> io_env) \<Rightarrow> (string \<Rightarrow> bytes option) \<Rightarrow> bytes \<Rightarrow> bytes \<Rightarrow> bool \<Rightarrow>
    dir \<Rightarrow> (rewrap_error + rewrap_result) \<times> dir" where
  "RewrapEnvelopes P io rnd oldKEK newKEK retainOld d =
     (if length oldKEK \<noteq> keySize then (Inl OldKEKLength, d)
      else if length newKEK \<noteq> keySize then (Inl NewKEKLength, d)
      else if oldKEK = newKEK then (Inl IdenticalKEK, d)
      else if findEnvelopeFiles d = [] then (Inl NoEnvelopeFiles, d)
      else case rewrap_scan P oldKEK newKEK io d (findEnvelopeFiles d) of
        Inl err \<Rightarrow> (Inl err, d)
      | Inr es \<Rightarrow>
          if status_count StatusOld es = 0 \<and> status_count StatusNew es > 0
          then (Inr \<lparr>Rewrapped = 0, Skipped = status_count StatusNew es, Total = length es\<rparr>, d)
          else if status_count StatusOld es = 0 then (Inl ErrOldKeyMismatch, d)
          else if status_count StatusUnknown es > 0 then (Inl (ErrMixedKeys (status_count StatusUnknown es)), d)
          else (case NewEnvelope P newKEK of
             Inl err \<Rightarrow> (Inl (RwEnvelope err), d)
           | Inr newEnv \<Rightarrow>
          (case NewEnvelope P oldKEK of
             Inl err \<Rightarrow> (Inl (RwEnvelope err), d)
           | Inr oldEnv \<Rightarrow>
          (case rewrap_prepare P oldEnv newEnv rnd es of
             Inl err \<Rightarrow> (Inl err, d)
           | Inr (ws, skipped) \<Rightarrow>
          (case rewrap_write io retainOld ws 0 d of
             (Inl err, d') \<Rightarrow> (Inl err, d')
           | (Inr n, d') \<Rightarrow> (Inr \<lparr>Rewrapped = n, Skipped = skipped, Total = length es\<rparr>, d'))))))"

section \<open>Wrapping and unwrapping\<close>

lemma NewEnvelope_key:
  "length key = keySize \<Longrightarrow> NewEnvelope P key = Inr e \<Longrightarrow>
     env_enabled e \<and> kek e = key \<and> crypto_wf (cryptoEngine e) \<and> enabled (cryptoEngine e)"
  by (auto simp: NewEnvelope_def NewCryptoEngine_def crypto_wf_def split: sum.splits if_splits)

lemma NewEnvelope_returns: "length key = keySize \<Longrightarrow> \<exists>e. NewEnvelope P key = Inr e"
  by (auto simp: NewEnvelope_def NewCryptoEngine_def)

definition sha_ok :: "prims \<Rightarrow> bool" where
  "sha_ok P \<longleftrightarrow> (\<forall>k. length (Sha256 P k) = 32)"

lemma length_FingerprintBytes: "sha_ok P \<Longrightarrow> length (FingerprintBytes P key) = envFingerprintLen"
  by (simp add: FingerprintBytes_def sha_ok_def)

definition nonces_ok :: "bytes option \<Rightarrow> bool" where
  "nonces_ok rnd \<longleftrightarrow> (\<forall>n. rnd = Some n \<longrightarrow> length n = NonceSize)"

text \<open>The contents of an envelope file that opens to a key under a given KEK.\<close>

definition opens :: "prims \<Rightarrow> envelope \<Rightarrow> bytes \<Rightarrow> bytes \<Rightarrow> bool" where
  "opens P e raw k \<longleftrightarrow>
     1 + envFingerprintLen \<le> length raw \<and> raw ! 0 = envVersion \<and>
     take envFingerprintLen (drop 1 raw) = FingerprintBytes P (kek e) \<and>
     env_decrypt P e (drop (1 + envFingerprintLen) raw) = Inr k"

lemma Load_opens:
  "env_enabled e \<Longrightarrow> Load P io fn e d = Inr (k, e') \<longleftrightarrow>
     (\<exists>raw. map_of d fn = Some raw \<and> \<not> fails io ReadFile \<and> opens P e raw k) \<and> e' = e\<lparr>dek := k\<rparr>"
  by (auto simp: Load_def opens_def not_less split: option.splits sum.splits if_splits)

lemma env_bytes_opens:
  assumes laws: "aead_laws P" "sha_ok P" and e: "env_enabled e" "crypto_wf (cryptoEngine e)"
    and rnd: "nonces_ok rnd" and enc: "env_encrypt P rnd (e\<lparr>dek := k\<rparr>) = Inr w"
  shows "opens P e (env_bytes P (kek e) w) k"
proof -
  have "DecryptInPlace P (cryptoEngine e) w = Inr k"
    using DecryptInPlaceWithDst_EncryptInPlace [OF laws(1) e(2), of rnd k w] rnd enc e(1)
    by (simp add: env_encrypt_def nonces_ok_def DecryptInPlace_eq_WithDst)
  then show ?thesis
    using e(1) length_FingerprintBytes [OF laws(2), of "kek e"]
    by (simp add: opens_def env_bytes_def env_decrypt_def)
qed

section \<open>Atomicity under faults\<close>

lemma map_of_delete [simp]: "map_of (AList.delete k al) = (map_of al)(k := None)"
  by (rule AList.delete_conv')

lemma map_of_update [simp]: "map_of (AList.update k v al) = (map_of al)(k \<mapsto> v)"
  by (rule AList.update_conv')

lemma tmp_neq [simp]: "tmp_name p \<noteq> p" "p \<noteq> tmp_name p"
  by (simp_all add: tmp_name_def)

lemma cleanup_frame:
  "p \<noteq> tmp \<Longrightarrow> map_of (snd (remove_tmp io tmp d)) p = map_of d p"
  "p \<noteq> tmp \<Longrightarrow> map_of (snd (close_remove_tmp io tmp d)) p = map_of d p"
  "snd (sync_dir io d) = d"
  by (auto simp: remove_tmp_def close_remove_tmp_def sync_dir_def)

lemma atomicWrite_atomic:
  assumes "p \<noteq> tmp_name path"
  shows "map_of (snd (atomicWrite io path data d)) p = map_of d p \<or>
      p = path \<and> map_of (snd (atomicWrite io path data d)) p = Some data"
  using assms by (auto simp: atomicWrite_def Let_def cleanup_frame)

lemma Store_atomic:
  assumes "p \<noteq> tmp_name fn"
  shows "map_of (snd (Store P io rnd fn e d)) p = map_of d p \<or>
      p = fn \<and> (\<exists>w. env_encrypt P rnd e = Inr w \<and>
        map_of (snd (Store P io rnd fn e d)) p = Some (env_bytes P (kek e) w))"
  using assms by (auto simp: Store_def Let_def cleanup_frame split: sum.splits)

lemma Store_nil:
  assumes "Store P io rnd fn e d = (None, d')" "env_enabled e"
  shows "\<exists>w. env_encrypt P rnd e = Inr w \<and> map_of d' fn = Some (env_bytes P (kek e) w)"
  using assms by (auto simp: Store_def Let_def sync_dir_def split: sum.splits if_splits)

lemma atomicWrite_no_faults:
  "atomicWrite no_faults path data d =
     (None, AList.update path data (AList.delete (tmp_name path) (AList.update (tmp_name path) data d)))"
  by (simp add: atomicWrite_def no_faults_def sync_dir_def Let_def)

lemma copyFile_frame: "p \<noteq> dst \<Longrightarrow> map_of (snd (copyFile io src dst d)) p = map_of d p"
  by (auto simp: copyFile_def split: option.splits)

text \<open>A file name of the rotation: its temporary and backup names are no envelope files.\<close>

definition env_file :: "string \<Rightarrow> bool" where
  "env_file n \<longleftrightarrow> has_suffix ''.env'' n"

lemma env_file_names: "env_file n \<Longrightarrow> n \<noteq> tmp_name p \<and> n \<noteq> bak_name p"
  by (auto simp: env_file_def tmp_name_def bak_name_def)

lemma findEnvelopeFiles_env:
  assumes "n \<in> set (findEnvelopeFiles d)"
  shows "env_file n \<and> n \<in> fst ` set d"
proof -
  have "n \<in> fst ` set d" "shard_env_file n \<or> n = ''audit.env''"
    using assms by (auto simp: findEnvelopeFiles_def)
  moreover have "has_suffix ''.env'' n" if "shard_env_file n"
  proof -
    have "length n \<ge> 10" and eq: "drop (length (drop 6 n) - 4) (drop 6 n) = ''.env''"
      using that by (auto simp: shard_env_file_def)
    then have "drop (length n - 4) n = ''.env''" by (simp add: add.commute)
    with \<open>length n \<ge> 10\<close> show ?thesis by (simp add: numeral_eq_Suc)
  qed
  ultimately show ?thesis by (auto simp: env_file_def)
qed

lemma rewrap_write_atomic:
  "env_file p \<Longrightarrow>
     map_of (snd (rewrap_write io r ws c d)) p = map_of d p \<or>
     (\<exists>buf. (p, buf) \<in> set ws \<and> map_of (snd (rewrap_write io r ws c d)) p = Some buf)"
proof (induction ws arbitrary: c d)
  case (Cons nb ws)
  obtain n buf where nb: "nb = (n, buf)" by fastforce
  let ?b = "if r then copyFile (io n) n (bak_name n) d else (None, d)"
  have b: "map_of (snd ?b) p = map_of d p"
    using Cons.prems env_file_names copyFile_frame by simp
  show ?case
  proof (cases "fst ?b")
    case (Some err)
    with b nb show ?thesis by (auto split: prod.splits if_splits)
  next
    case None
    let ?a = "atomicWrite (io n) n buf (snd ?b)"
    have a: "map_of (snd ?a) p = map_of d p \<or> p = n \<and> map_of (snd ?a) p = Some buf"
      using atomicWrite_atomic [of p n "io n" buf "snd ?b"] b env_file_names [OF Cons.prems, of n] by auto
    have "snd (rewrap_write io r (nb # ws) c d) =
        (if fst ?a = None then snd (rewrap_write io r ws (c + 1) (snd ?a)) else snd ?a)"
      using nb None by (auto split: prod.splits option.splits)
    with a Cons.IH [OF Cons.prems, of "c + 1" "snd ?a"] nb show ?thesis by auto
  qed
qed simp

section \<open>Correctness of the rotation\<close>

lemma rewrap_scan_names: "rewrap_scan P ok nk io d ns = Inr es \<Longrightarrow> map fst es = ns"
  by (induction ns arbitrary: es) (auto simp: Let_def split: option.splits sum.splits if_splits)

lemma rewrap_scan_entry:
  assumes "rewrap_scan P ok nk io d ns = Inr es" "(n, st, w) \<in> set es"
  shows "\<exists>raw. map_of d n = Some raw \<and> w = drop (1 + envFingerprintLen) raw \<and>
      (st = StatusOld \<longleftrightarrow> take envFingerprintLen (drop 1 raw) = FingerprintBytes P ok) \<and>
      (st = StatusNew \<longrightarrow> take envFingerprintLen (drop 1 raw) = FingerprintBytes P nk)"
  using assms
  by (induction ns arbitrary: es) (fastforce simp: Let_def split: option.splits sum.splits if_splits)+

lemma rewrap_scan_known:
  assumes "rewrap_scan P ok nk io d ns = Inr es" "(n, st, w) \<in> set es" "map_of d n = Some raw"
  shows "st \<noteq> StatusUnknown \<or> take envFingerprintLen (drop 1 raw) \<noteq> FingerprintBytes P nk"
  using assms
  by (induction ns arbitrary: es) (fastforce simp: Let_def split: option.splits sum.splits if_splits)+

lemma rewrap_prepare_entry:
  assumes "rewrap_prepare P oe ne rnd es = Inr (ws, sk)" "(n, buf) \<in> set ws"
  shows "\<exists>st w k w'. (n, st, w) \<in> set es \<and> env_decrypt P oe w = Inr k \<and>
      env_encrypt P (rnd n) (ne\<lparr>dek := k\<rparr>) = Inr w' \<and> buf = env_bytes P (kek ne) w'"
  using assms
proof (induction es arbitrary: ws sk)
  case (Cons x es)
  obtain n' st' w' where x: "x = (n', st', w')" by (cases x)
  show ?case
    using Cons.prems Cons.IH
    by (auto simp: x split: if_splits sum.splits prod.splits) blast+
qed simp

lemma rewrap_prepare_names:
  "rewrap_prepare P oe ne rnd es = Inr (ws, sk) \<Longrightarrow>
     map fst ws = map fst (filter (\<lambda>(n, st, w). st \<noteq> StatusNew) es) \<and> length ws + sk = length es"
  by (induction es arbitrary: ws sk) (auto split: if_splits sum.splits prod.splits)

lemma rewrap_write_no_faults:
  assumes "\<forall>n. io n = no_faults" "distinct (map fst ws)" "\<forall>n\<in>fst ` set ws. env_file n \<and> n \<in> dom (map_of d)"
  shows "\<exists>d'. rewrap_write io r ws c d = (Inr (c + length ws), d') \<and> (\<forall>(n, buf)\<in>set ws. map_of d' n = Some buf)"
  using assms(2,3)
proof (induction ws arbitrary: c d)
  case (Cons nb ws)
  obtain n buf where nb: "nb = (n, buf)" by fastforce
  let ?d1 = "if r then snd (copyFile no_faults n (bak_name n) d) else d"
  let ?d2 = "AList.update n buf (AList.delete (tmp_name n) (AList.update (tmp_name n) buf ?d1))"
  have cp: "fst (copyFile no_faults n (bak_name n) d) = None"
    using Cons.prems(2) nb by (auto simp: copyFile_def no_faults_def)
  have step: "rewrap_write io r (nb # ws) c d = rewrap_write io r ws (c + 1) ?d2"
    using cp assms(1) nb by (auto simp: atomicWrite_no_faults split: prod.splits)
  have env: "env_file m \<and> m \<in> dom (map_of ?d2)" if "m \<in> fst ` set ws" for m
    using Cons.prems(2) that env_file_names copyFile_frame [of m "bak_name n" no_faults n d] by auto
  obtain d' where d': "rewrap_write io r ws (c + 1) ?d2 = (Inr (c + 1 + length ws), d')"
    "\<forall>(n, buf)\<in>set ws. map_of d' n = Some buf"
  proof -
    have "distinct (map fst ws)" using Cons.prems(1) by simp
    moreover have "\<forall>m\<in>fst ` set ws. env_file m \<and> m \<in> dom (map_of ?d2)" using env by blast
    ultimately show ?thesis using Cons.IH [of ?d2 "c + 1"] that by blast
  qed
  have "map_of d' n = Some buf"
  proof -
    have "env_file n" "n \<notin> fst ` set ws" using Cons.prems nb by auto
    then have "map_of d' n = map_of ?d2 n"
      using rewrap_write_atomic [of n io r ws "c + 1" ?d2] d'(1) by (force simp: image_iff)
    then show ?thesis by simp
  qed
  with step d' nb show ?case by auto
qed simp

lemma findEnvelopeFiles_distinct: "distinct (map fst d) \<Longrightarrow> distinct (findEnvelopeFiles d)"
  by (auto simp: findEnvelopeFiles_def shard_env_file_def)

text \<open>
  The invariant of the rotation on one file: it is as it was, or opens to the same data key under
  the new KEK.
\<close>

lemma rewrapped_file:
  assumes laws: "aead_laws P" "sha_ok P" "\<And>n. nonces_ok (rnd n)"
    and ne: "env_enabled ne" "crypto_wf (cryptoEngine ne)"
    and scan: "rewrap_scan P ok nk io d ns = Inr es" and prep: "rewrap_prepare P oe ne rnd es = Inr (ws, sk)"
    and raw: "map_of d n = Some raw" "opens P oe raw k" and mem: "(n, buf) \<in> set ws"
  shows "opens P ne buf k"
proof -
  obtain st w k' w' where e: "(n, st, w) \<in> set es" "env_decrypt P oe w = Inr k'"
    "env_encrypt P (rnd n) (ne\<lparr>dek := k'\<rparr>) = Inr w'" "buf = env_bytes P (kek ne) w'"
    using rewrap_prepare_entry [OF prep mem] by blast
  have "w = drop (1 + envFingerprintLen) raw"
    using rewrap_scan_entry [OF scan e(1)] raw(1) by auto
  with e(2) raw(2) have "k' = k" by (simp add: opens_def)
  with env_bytes_opens [OF laws(1,2) ne laws(3) e(3)] e(4) show ?thesis by simp
qed

text \<open>
  C10. Whatever system calls fail during a key rotation, no data key is lost: every envelope file
  that opened to a key under the old KEK is afterwards either byte for byte what it was or opens
  to the same key under the new KEK; it is never missing, truncated or mixed.
\<close>

theorem rewrap_never_loses_key:
  assumes "aead_laws P" "sha_ok P" "\<forall>n. nonces_ok (rnd n)" "length newKEK = keySize"
    and "NewEnvelope P oldKEK = Inr oe" "NewEnvelope P newKEK = Inr ne"
    and "n \<in> set (findEnvelopeFiles d)" "map_of d n = Some raw" "opens P oe raw k"
  shows "\<exists>raw'. map_of (snd (RewrapEnvelopes P io rnd oldKEK newKEK retainOld d)) n = Some raw' \<and>
      (raw' = raw \<or> opens P ne raw' k)"
proof (cases "snd (RewrapEnvelopes P io rnd oldKEK newKEK retainOld d) = d")
  case False
  then obtain es ws sk where run: "rewrap_scan P oldKEK newKEK io d (findEnvelopeFiles d) = Inr es"
    "rewrap_prepare P oe ne rnd es = Inr (ws, sk)"
    "snd (RewrapEnvelopes P io rnd oldKEK newKEK retainOld d) = snd (rewrap_write io retainOld ws 0 d)"
    using assms(5,6) unfolding RewrapEnvelopes_def by (auto split: if_splits sum.splits prod.splits)
  have ne: "env_enabled ne" "crypto_wf (cryptoEngine ne)"
    using NewEnvelope_key [OF assms(4,6)] by auto
  have "env_file n" using findEnvelopeFiles_env [OF assms(7)] by simp
  from rewrap_write_atomic [OF this, of io retainOld ws 0 d] show ?thesis
    using run(3) assms(3,8) rewrapped_file [OF assms(1,2) _ ne run(1,2) assms(8,9)] by auto
qed (use assms(8) in auto)

lemma rewrap_scan_returns:
  "\<forall>n\<in>set ns. \<not> fails (io n) ReadFile \<and>
     (\<exists>raw. map_of d n = Some raw \<and> 1 + envFingerprintLen \<le> length raw \<and> raw ! 0 = envVersion) \<Longrightarrow>
   \<exists>es. rewrap_scan P ok nk io d ns = Inr es"
  by (induction ns) (auto simp: Let_def not_less split: sum.splits)

lemma rewrap_prepare_returns:
  assumes "\<forall>n. rnd n \<noteq> None" "env_enabled ne"
    and "\<forall>(n, st, w)\<in>set es. st \<noteq> StatusNew \<longrightarrow> (\<exists>k. env_decrypt P oe w = Inr k)"
  shows "\<exists>ws sk. rewrap_prepare P oe ne rnd es = Inr (ws, sk)"
  using assms(3)
proof (induction es)
  case (Cons x es)
  obtain n st w where x: "x = (n, st, w)" by (cases x)
  obtain r where "rnd n = Some r" using assms(1) by blast
  with Cons x assms(2) show ?case
    by (auto simp: env_encrypt_def EncryptInPlace_def split: sum.splits)
qed simp

lemma status_count_0: "status_count st es = 0 \<longleftrightarrow> (\<forall>(n, s, w)\<in>set es. s \<noteq> st)"
  by (auto simp: status_count_def filter_empty_conv)

text \<open>
  A directory ready for rotation: every envelope file opens under the old or the new KEK, the two
  fingerprints differ.
\<close>

definition rotatable :: "prims \<Rightarrow> envelope \<Rightarrow> envelope \<Rightarrow> dir \<Rightarrow> bool" where
  "rotatable P oe ne d \<longleftrightarrow>
     distinct (map fst d) \<and> findEnvelopeFiles d \<noteq> [] \<and> FingerprintBytes P (kek oe) \<noteq> FingerprintBytes P (kek ne) \<and>
     (\<forall>n\<in>set (findEnvelopeFiles d). \<exists>raw k. map_of d n = Some raw \<and> (opens P oe raw k \<or> opens P ne raw k))"

lemma rotatable_scan:
  assumes "rotatable P oe ne d" "\<forall>n. io n = no_faults"
  obtains es where "rewrap_scan P (kek oe) (kek ne) io d (findEnvelopeFiles d) = Inr es"
    "map fst es = findEnvelopeFiles d" "status_count StatusUnknown es = 0"
    "\<forall>(n, st, w)\<in>set es. st \<noteq> StatusNew \<longrightarrow> (\<exists>k. env_decrypt P oe w = Inr k)"
proof -
  let ?ns = "findEnvelopeFiles d"
  have ex: "\<exists>raw k. map_of d n = Some raw \<and> (opens P oe raw k \<or> opens P ne raw k)" if "n \<in> set ?ns" for n
    using assms(1) that by (auto simp: rotatable_def)
  have fp: "FingerprintBytes P (kek oe) \<noteq> FingerprintBytes P (kek ne)"
    using assms(1) by (simp add: rotatable_def)
  have "\<not> fails (io n) ReadFile \<and>
      (\<exists>raw. map_of d n = Some raw \<and> 1 + envFingerprintLen \<le> length raw \<and> raw ! 0 = envVersion)"
    if "n \<in> set ?ns" for n
    using ex [OF that] assms(2) by (auto simp: opens_def no_faults_def)
  then obtain es where es: "rewrap_scan P (kek oe) (kek ne) io d ?ns = Inr es"
    using rewrap_scan_returns [of ?ns io d] by blast
  have names: "map fst es = ?ns" by (rule rewrap_scan_names [OF es])
  have entry: "st \<noteq> StatusUnknown \<and> (st \<noteq> StatusNew \<longrightarrow> (\<exists>k. env_decrypt P oe w = Inr k))"
    if "(n, st, w) \<in> set es" for n st w
  proof -
    have "n \<in> fst ` set es" using that by force
    then have "n \<in> set ?ns" using names by (metis list.set_map)
    with ex obtain raw k where raw: "map_of d n = Some raw" "opens P oe raw k \<or> opens P ne raw k"
      by blast
    have "w = drop (1 + envFingerprintLen) raw \<and>
        (st = StatusOld \<longleftrightarrow> take envFingerprintLen (drop 1 raw) = FingerprintBytes P (kek oe)) \<and>
        (st = StatusNew \<longrightarrow> take envFingerprintLen (drop 1 raw) = FingerprintBytes P (kek ne))"
      using rewrap_scan_entry [OF es that] raw(1) by auto
    moreover have "st \<noteq> StatusUnknown \<or> take envFingerprintLen (drop 1 raw) \<noteq> FingerprintBytes P (kek ne)"
      using rewrap_scan_known [OF es that raw(1)] by blast
    ultimately show ?thesis using raw(2) fp by (cases st) (auto simp: opens_def)
  qed
  then have "status_count StatusUnknown es = 0" by (auto simp: status_count_0)
  with es names entry that show thesis by blast
qed

lemma opens_fingerprint: "opens P e raw k \<Longrightarrow> take envFingerprintLen (drop 1 raw) = FingerprintBytes P (kek e)"
  by (simp add: opens_def)

lemma scan_old_entry:
  assumes scan: "rewrap_scan P (kek oe) nk io d ns = Inr es"
    and n: "n \<in> set ns" "map_of d n = Some raw" "opens P oe raw k"
  shows "\<exists>w. (n, StatusOld, w) \<in> set es"
proof -
  have "n \<in> set (map fst es)" using rewrap_scan_names [OF scan] n(1) by simp
  then obtain st w where e: "(n, st, w) \<in> set es" by auto
  moreover have "st = StatusOld"
    using rewrap_scan_entry [OF scan e] n(2) opens_fingerprint [OF n(3)] by auto
  ultimately show ?thesis by blast
qed

lemma rewrap_old_file_written:
  assumes scan: "rewrap_scan P (kek oe) nk io d ns = Inr es"
    and prep: "rewrap_prepare P oe ne rnd es = Inr (ws, sk)"
    and n: "n \<in> set ns" "map_of d n = Some raw" "opens P oe raw k"
  shows "\<exists>buf. (n, buf) \<in> set ws"
proof -
  obtain w where "(n, StatusOld, w) \<in> set es" using scan_old_entry [OF scan n] by blast
  then have "n \<in> set (map fst (filter (\<lambda>(n, st, w). st \<noteq> StatusNew) es))" by force
  then have "n \<in> set (map fst ws)" using rewrap_prepare_names [OF prep] by simp
  then show ?thesis by auto
qed

lemma rewrap_targets:
  assumes scan: "rewrap_scan P ok nk io d (findEnvelopeFiles d) = Inr es"
    and prep: "rewrap_prepare P oe ne rnd es = Inr (ws, sk)" and dist: "distinct (map fst d)"
  shows "distinct (map fst ws)" "\<forall>m\<in>fst ` set ws. env_file m \<and> m \<in> dom (map_of d)"
proof -
  have names: "map fst es = findEnvelopeFiles d" by (rule rewrap_scan_names [OF scan])
  have ws: "map fst ws = map fst (filter (\<lambda>(n, st, w). st \<noteq> StatusNew) es)"
    using rewrap_prepare_names [OF prep] by simp
  show "distinct (map fst ws)"
    unfolding ws by (rule distinct_map_filter) (simp add: names findEnvelopeFiles_distinct [OF dist])
  have "set (map fst ws) \<subseteq> set (map fst es)" unfolding ws by auto
  then show "\<forall>m\<in>fst ` set ws. env_file m \<and> m \<in> dom (map_of d)"
    using findEnvelopeFiles_env [of _ d] unfolding names by (force simp: dom_map_of_conv_image_fst)
qed

lemma rewrap_already_new:
  assumes scan: "rewrap_scan P oldKEK newKEK io d (findEnvelopeFiles d) = Inr es"
    and st: "status_count StatusOld es = 0" "status_count StatusUnknown es = 0"
    and pre: "length oldKEK = keySize" "length newKEK = keySize" "oldKEK \<noteq> newKEK" "findEnvelopeFiles d \<noteq> []"
  shows "RewrapEnvelopes P io rnd oldKEK newKEK retainOld d =
      (Inr \<lparr>Rewrapped = 0, Skipped = length es, Total = length es\<rparr>, d)"
proof -
  have "s = StatusNew" if "(n, s, w) \<in> set es" for n s w
    using st that by (cases s) (auto simp: status_count_0)
  then have "filter (\<lambda>(n, s, w). s = StatusNew) es = es"
    by (auto simp: filter_id_conv)
  then have "status_count StatusNew es = length es"
    by (simp add: status_count_def)
  moreover have "es \<noteq> []" using rewrap_scan_names [OF scan] pre(4) by auto
  ultimately show ?thesis using st scan pre by (simp add: RewrapEnvelopes_def)
qed

text \<open>
  A key rotation without I/O faults succeeds on a directory whose envelopes open under the
  old or the new KEK, accounts for every file, and afterwards every envelope that opened under the
  old KEK opens to the same data key under the new one.
\<close>

theorem rewrap_rotates:
  assumes "aead_laws P" "sha_ok P" "\<forall>n. nonces_ok (rnd n) \<and> rnd n \<noteq> None" "\<forall>n. io n = no_faults"
    and "length oldKEK = keySize" "length newKEK = keySize"
    and "NewEnvelope P oldKEK = Inr oe" "NewEnvelope P newKEK = Inr ne" "rotatable P oe ne d"
  shows "\<exists>res d'. RewrapEnvelopes P io rnd oldKEK newKEK retainOld d = (Inr res, d') \<and>
      Rewrapped res + Skipped res = Total res \<and>
      (\<forall>n raw k. n \<in> set (findEnvelopeFiles d) \<longrightarrow> map_of d n = Some raw \<longrightarrow> opens P oe raw k \<longrightarrow>
         (\<exists>raw'. map_of d' n = Some raw' \<and> opens P ne raw' k))"
proof -
  have oe: "kek oe = oldKEK" and ne: "env_enabled ne" "crypto_wf (cryptoEngine ne)" "kek ne = newKEK"
    by (simp_all add: NewEnvelope_key [OF assms(5,7)] NewEnvelope_key [OF assms(6,8)])
  have rot: "findEnvelopeFiles d \<noteq> []" "distinct (map fst d)" "oldKEK \<noteq> newKEK"
    using assms(9) oe ne(3) by (auto simp: rotatable_def)
  obtain es where es: "rewrap_scan P (kek oe) newKEK io d (findEnvelopeFiles d) = Inr es"
    "status_count StatusUnknown es = 0"
    "\<forall>(n, st, w)\<in>set es. st \<noteq> StatusNew \<longrightarrow> (\<exists>k. env_decrypt P oe w = Inr k)"
    by (rule rotatable_scan [OF assms(9,4)]) (auto simp: ne(3))
  show ?thesis
  proof (cases "status_count StatusOld es = 0")
    case True
    then have "(n, StatusOld, w) \<notin> set es" for n w by (auto simp: status_count_0)
    with scan_old_entry [OF es(1)] show ?thesis
      using rewrap_already_new [OF es(1) [unfolded oe] True es(2) assms(5,6) rot(3,1)] by fastforce
  next
    case False
    obtain ws sk where ws: "rewrap_prepare P oe ne rnd es = Inr (ws, sk)"
      using rewrap_prepare_returns [OF _ ne(1) es(3)] assms(3) by blast
    obtain d' where d': "rewrap_write io retainOld ws 0 d = (Inr (length ws), d')"
      "\<forall>(n, buf)\<in>set ws. map_of d' n = Some buf"
      using rewrap_write_no_faults [OF assms(4) rewrap_targets [OF es(1) ws rot(2)], of retainOld 0] by auto
    have "RewrapEnvelopes P io rnd oldKEK newKEK retainOld d =
        (Inr \<lparr>Rewrapped = length ws, Skipped = sk, Total = length es\<rparr>, d')"
      using False es(1,2) rot assms(5-8) ws d'(1) oe by (simp add: RewrapEnvelopes_def)
    moreover have "\<exists>raw'. map_of d' n = Some raw' \<and> opens P ne raw' k"
      if n: "n \<in> set (findEnvelopeFiles d)" "map_of d n = Some raw" "opens P oe raw k" for n raw k
    proof -
      obtain buf where buf: "(n, buf) \<in> set ws" using rewrap_old_file_written [OF es(1) ws n] by blast
      from rewrapped_file [OF assms(1,2) _ ne(1,2) es(1) ws n(2,3) this] assms(3) d'(2) buf
      show ?thesis by auto
    qed
    ultimately show ?thesis using rewrap_prepare_names [OF ws] by auto
  qed
qed

lemma Store_Load:
  assumes "aead_laws P" "sha_ok P" "nonces_ok rnd" "length key = keySize" "NewEnvelope P key = Inr e0"
    and "GenerateDEK (Some k) e0 = Inr e" "Store P io rnd fn e d = (None, d')" "\<not> fails io' ReadFile"
  shows "Load P io' fn e0 d' = Inr (k, e0\<lparr>dek := k\<rparr>) \<and>
      (\<forall>key' e'. length key' = keySize \<longrightarrow> NewEnvelope P key' = Inr e' \<longrightarrow>
         FingerprintBytes P key' \<noteq> FingerprintBytes P key \<longrightarrow> Load P io' fn e' d' = Inl EnvFingerprint)"
proof -
  have e0: "env_enabled e0" "kek e0 = key" "crypto_wf (cryptoEngine e0)"
    using NewEnvelope_key [OF assms(4,5)] by auto
  then have e: "e = e0\<lparr>dek := k\<rparr>" using assms(6) by (simp add: GenerateDEK_def)
  obtain w where w: "env_encrypt P rnd e = Inr w" "map_of d' fn = Some (env_bytes P key w)"
    using Store_nil [OF assms(7)] e e0 by auto
  have op: "opens P e0 (env_bytes P key w) k"
    using env_bytes_opens [OF assms(1,2) e0(1,3) assms(3)] w(1) e e0(2) by simp
  have "Load P io' fn e' d' = Inl EnvFingerprint"
    if "length key' = keySize" "NewEnvelope P key' = Inr e'" "FingerprintBytes P key' \<noteq> FingerprintBytes P key"
    for key' e'
    using NewEnvelope_key [OF that(1,2)] that(3) w(2) op assms(8) e0(2)
    by (auto simp: Load_def opens_def)
  with Load_opens [OF e0(1), of P io' fn d' k "e0\<lparr>dek := k\<rparr>"] op w(2) assms(8) show ?thesis by auto
qed

text \<open>
  When \<^verbatim>\<open>Store\<close> reports success, a restart with the same KEK loads exactly the
  generated data key, and a KEK with another fingerprint is refused instead of yielding a key.
\<close>

theorem envelope_store_load:
  assumes "aead_laws P" "sha_ok P" "nonces_ok rnd" "length key = keySize" "NewEnvelope P key = Inr e0"
    and "GenerateDEK (Some k) e0 = Inr e" "Store P io rnd fn e d = (None, d')" "\<not> fails io' ReadFile"
  shows "Load P io' fn e0 d' = Inr (k, e0\<lparr>dek := k\<rparr>) \<and>
      (\<forall>key' e'. length key' = keySize \<longrightarrow> NewEnvelope P key' = Inr e' \<longrightarrow>
         FingerprintBytes P key' \<noteq> FingerprintBytes P key \<longrightarrow> Load P io' fn e' d' = Inl EnvFingerprint)"
  using Store_Load [OF assms] .

text \<open>
  \<^verbatim>\<open>atomicWrite\<close> returns a nil error when the write (or, alike, the sync, close or
  rename) fails and the clean-up succeeds, and leaves the file as it was: a rotation on a full
  disk reports the envelope as rewrapped although it still carries the old KEK.
\<close>

theorem atomicWrite_hides_failure:
  assumes "fails io WriteTmp \<or> fails io SyncTmp \<or> fails io RenameTmp"
    and "\<not> fails io OpenTmp" "\<not> fails io CloseTmp" "\<not> fails io RemoveTmp"
  shows "\<exists>d'. atomicWrite io path data d = (None, d') \<and> map_of d' path = map_of d path"
  using assms by (auto simp: atomicWrite_def close_remove_tmp_def remove_tmp_def Let_def)

section \<open>Concrete runs\<close>

definition kekA :: bytes where "kekA = replicate 32 (CHR ''a'')"

definition kekB :: bytes where "kekB = replicate 32 (CHR ''b'')"

definition nonce0 :: bytes where "nonce0 = replicate 12 (CHR 0x01)"

definition env_of :: "bytes \<Rightarrow> envelope" where
  "env_of key = \<lparr>kek = key, dek = [], cryptoEngine = \<lparr>aead_key = key,
     keyFingerprint = FingerprintBytes plain_prims key, enabled = True\<rparr>, env_enabled = True\<rparr>"

definition wrappedA :: bytes where
  "wrappedA = env_bytes plain_prims kekA (nonce0 @ ''secret'' @ replicate 16 (CHR 0x00))"

lemma plain_sha [simp]: "sha_ok plain_prims"
  by (auto simp: sha_ok_def plain_prims_def min_def)

lemma NewEnvelope_env_of: "length key = keySize \<Longrightarrow> NewEnvelope plain_prims key = Inr (env_of key)"
  by (auto simp: NewEnvelope_def NewCryptoEngine_def env_of_def)

lemma fingerprints_differ: "FingerprintBytes plain_prims kekA \<noteq> FingerprintBytes plain_prims kekB"
  by (simp add: FingerprintBytes_def plain_prims_def kekA_def kekB_def)

lemma nonce0_ok [simp]: "nonces_ok (Some nonce0)"
  by (simp add: nonces_ok_def nonce0_def)

lemma wrappedA_opens: "opens plain_prims (env_of kekA) wrappedA ''secret''"
proof -
  have "env_encrypt plain_prims (Some nonce0) ((env_of kekA)\<lparr>dek := ''secret''\<rparr>) =
      Inr (nonce0 @ ''secret'' @ replicate 16 (CHR 0x00))"
    by (simp add: env_encrypt_def EncryptInPlace_def env_of_def plain_prims_def)
  from env_bytes_opens [OF plain_prims_laws plain_sha _ _ nonce0_ok this] show ?thesis
    by (simp add: wrappedA_def env_of_def crypto_wf_def kekA_def)
qed

definition dirA :: dir where "dirA = [(''shard-0.env'', wrappedA)]"

lemma dirA_files: "findEnvelopeFiles dirA = [''shard-0.env'']"
  by (simp add: findEnvelopeFiles_def dirA_def shard_env_file_def numeral_eq_Suc)

lemma key_lengths [simp]: "length kekA = 32" "length kekB = 32"
  by (simp_all add: kekA_def kekB_def)

theorem rewrap_never_loses_key_witness:
  "\<exists>raw'. map_of (snd (RewrapEnvelopes plain_prims (\<lambda>n. no_faults\<lparr>fails := (\<lambda>c. c = RenameTmp)\<rparr>)
      (\<lambda>n. Some nonce0) kekA kekB True dirA)) ''shard-0.env'' = Some raw' \<and>
      (raw' = wrappedA \<or> opens plain_prims (env_of kekB) raw' ''secret'')"
  by (rule rewrap_never_loses_key [OF plain_prims_laws plain_sha _ _ _ _ _ _ wrappedA_opens])
    (simp_all add: NewEnvelope_env_of dirA_files, simp add: dirA_def)

theorem rewrap_rotates_witness:
  "\<exists>res d'. RewrapEnvelopes plain_prims (\<lambda>n. no_faults) (\<lambda>n. Some nonce0) kekA kekB True dirA = (Inr res, d') \<and>
      Rewrapped res + Skipped res = Total res \<and>
      (\<exists>raw'. map_of d' ''shard-0.env'' = Some raw' \<and> opens plain_prims (env_of kekB) raw' ''secret'')"
proof -
  have d: "map_of dirA ''shard-0.env'' = Some wrappedA" "''shard-0.env'' \<in> set (findEnvelopeFiles dirA)"
    by (simp_all add: dirA_files) (simp add: dirA_def)
  have "rotatable plain_prims (env_of kekA) (env_of kekB) dirA"
    unfolding rotatable_def using d wrappedA_opens fingerprints_differ
    by (auto simp: dirA_files env_of_def) (simp add: dirA_def)
  from rewrap_rotates [OF plain_prims_laws plain_sha _ _ _ _ _ _ this, of "\<lambda>n. Some nonce0" "\<lambda>n. no_faults" kekA kekB True]
  show ?thesis using d wrappedA_opens by (simp add: NewEnvelope_env_of) blast
qed

theorem envelope_store_load_witness:
  "\<exists>d'. Store plain_prims no_faults (Some nonce0) ''shard-0.env'' ((env_of kekA)\<lparr>dek := ''secret''\<rparr>) [] = (None, d') \<and>
     Load plain_prims no_faults ''shard-0.env'' (env_of kekA) d' = Inr (''secret'', (env_of kekA)\<lparr>dek := ''secret''\<rparr>) \<and>
     Load plain_prims no_faults ''shard-0.env'' (env_of kekB) d' = Inl EnvFingerprint"
proof -
  obtain d' where d': "Store plain_prims no_faults (Some nonce0) ''shard-0.env'' ((env_of kekA)\<lparr>dek := ''secret''\<rparr>) [] =
      (None, d')"
    by (simp add: Store_def env_encrypt_def EncryptInPlace_def env_of_def no_faults_def sync_dir_def Let_def)
  have "GenerateDEK (Some ''secret'') (env_of kekA) = Inr ((env_of kekA)\<lparr>dek := ''secret''\<rparr>)"
    by (simp add: GenerateDEK_def env_of_def)
  moreover have "\<not> fails no_faults ReadFile" by (simp add: no_faults_def)
  moreover have "NewEnvelope plain_prims kekA = Inr (env_of kekA)" "NewEnvelope plain_prims kekB = Inr (env_of kekB)"
    by (simp_all add: NewEnvelope_env_of)
  ultimately show ?thesis
    using envelope_store_load [OF plain_prims_laws plain_sha nonce0_ok _ _ _ d'] d' fingerprints_differ
    by (metis key_lengths)
qed

theorem atomicWrite_hides_failure_witness:
  "\<exists>d'. atomicWrite (no_faults\<lparr>fails := (\<lambda>c. c = WriteTmp)\<rparr>) ''shard-0.env'' ''new'' [(''shard-0.env'', ''old'')] =
     (None, d') \<and> map_of d' ''shard-0.env'' = Some ''old''"
  using atomicWrite_hides_failure [of "no_faults\<lparr>fails := (\<lambda>c. c = WriteTmp)\<rparr>" "''shard-0.env''" "''new''"
      "[(''shard-0.env'', ''old'')]"] by simp

end
