(* ===== verification/Chronometer.thy ===== *)
theory Chronometer
  imports Tellstone_Prelude "HOL-Library.Multiset"
begin

text \<open>
  \<^verbatim>\<open>src/internal/storage/chronometer.go\<close>: the circular timeline of expiring keys.
  \<^verbatim>\<open>slots[i][:slotSizes[i]]\<close> is the list \<open>slots ! i\<close>; indexing the fixed
  array of \<^verbatim>\<open>MaxSlots\<close> buckets out of range is a Go panic. The slot arithmetic is the
  code's unsigned 32 and 64 bit arithmetic. \<^verbatim>\<open>advance\<close> returns the batch of keys it
  hands to the deletion callback.
\<close>

definition MaxSlots :: nat where "MaxSlots = 1000"

definition SlotCapacity :: nat where "SlotCapacity = 512"

record chronometer =
  interval :: duration
  slots :: "string list list"
  numSlots :: uint32
  curSlot :: uint32
  stopped :: bool
  overflows :: uint64
  chron_expired :: uint64

definition NewChronometer :: "duration \<Rightarrow> uint32 \<Rightarrow> chronometer" where
  "NewChronometer iv n =
     \<lparr>interval = iv, slots = replicate MaxSlots [], numSlots = n, curSlot = 0, stopped = False,
      overflows = 0, chron_expired = 0\<rparr>"

text \<open>Go's integer division truncates towards zero.\<close>

definition quot :: "int \<Rightarrow> int \<Rightarrow> int" where
  "quot a b = sgn a * sgn b * (\<bar>a\<bar> div \<bar>b\<bar>)"

definition register_steps :: "chronometer \<Rightarrow> duration \<Rightarrow> uint64" where
  "register_steps c ttl =
     (let maxSteps = ucast (numSlots c) - 1 :: uint64;
          steps = word_of_int (quot ttl (interval c))
      in if steps > maxSteps then maxSteps else steps)"

definition targetSlot :: "chronometer \<Rightarrow> duration \<Rightarrow> uint32" where
  "targetSlot c ttl = (curSlot c + ucast (register_steps c ttl)) mod numSlots c"

definition Register :: "string \<Rightarrow> duration \<Rightarrow> chronometer \<Rightarrow> chronometer go" where
  "Register key ttl c =
     (if interval c = 0 \<or> numSlots c = 0 then Panics
      else let t = unat (targetSlot c ttl) in
        if t \<ge> MaxSlots then Panics
        else if length (slots c ! t) < SlotCapacity
        then Returns (c\<lparr>slots := (slots c)[t := slots c ! t @ [key]]\<rparr>)
        else Returns (c\<lparr>overflows := overflows c + 1\<rparr>))"

definition advance :: "chronometer \<Rightarrow> (string list \<times> chronometer) go" where
  "advance c =
     (let slot = curSlot c in
      if unat slot \<ge> MaxSlots \<or> numSlots c = 0 then Panics
      else let batch = slots c ! unat slot in
        Returns (batch,
          c\<lparr>slots := (slots c)[unat slot := []],
            chron_expired := chron_expired c + of_nat (length batch),
            curSlot := (slot + 1) mod numSlots c\<rparr>))"

text \<open>
  \<^verbatim>\<open>Stop\<close> closes the channel once; the ticker goroutine then returns, so a stopped
  timeline no longer advances. A step of the goroutine of \<^verbatim>\<open>Start\<close> is \<open>Start_tick\<close>.
\<close>

definition Stop :: "chronometer \<Rightarrow> chronometer" where
  "Stop c = c\<lparr>stopped := True\<rparr>"

definition Start_tick :: "chronometer \<Rightarrow> (string list \<times> chronometer) go" where
  "Start_tick c = (if stopped c then Returns ([], c) else advance c)"

section \<open>The interface and its two implementations\<close>

datatype wheel = NoOpChronometer | Timeline chronometer

fun wheel_Register :: "string \<Rightarrow> duration \<Rightarrow> wheel \<Rightarrow> wheel go" where
  "wheel_Register key ttl NoOpChronometer = Returns NoOpChronometer"
| "wheel_Register key ttl (Timeline c) = go_bind (Register key ttl c) (\<lambda>c'. Returns (Timeline c'))"

fun wheel_tick :: "wheel \<Rightarrow> (string list \<times> wheel) go" where
  "wheel_tick NoOpChronometer = Returns ([], NoOpChronometer)"
| "wheel_tick (Timeline c) = go_bind (Start_tick c) (\<lambda>(batch, c'). Returns (batch, Timeline c'))"

fun wheel_Stop :: "wheel \<Rightarrow> wheel" where
  "wheel_Stop NoOpChronometer = NoOpChronometer"
| "wheel_Stop (Timeline c) = Timeline (Stop c)"

fun wheel_ExpiredCount :: "wheel \<Rightarrow> uint64" where
  "wheel_ExpiredCount NoOpChronometer = 0"
| "wheel_ExpiredCount (Timeline c) = chron_expired c"

fun wheel_Overflows :: "wheel \<Rightarrow> uint64" where
  "wheel_Overflows NoOpChronometer = 0"
| "wheel_Overflows (Timeline c) = overflows c"

section \<open>The invariant\<close>

definition chron_inv :: "chronometer \<Rightarrow> bool" where
  "chron_inv c \<longleftrightarrow>
     0 < interval c \<and> 0 < unat (numSlots c) \<and> unat (numSlots c) \<le> MaxSlots \<and>
     curSlot c < numSlots c \<and> length (slots c) = MaxSlots \<and>
     (\<forall>ks\<in>set (slots c). length ks \<le> SlotCapacity)"

fun wheel_inv :: "wheel \<Rightarrow> bool" where
  "wheel_inv NoOpChronometer = True"
| "wheel_inv (Timeline c) = chron_inv c"

lemma NewChronometer_inv: "0 < iv \<Longrightarrow> 0 < n \<Longrightarrow> unat n \<le> MaxSlots \<Longrightarrow> chron_inv (NewChronometer iv n)"
  by (auto simp: chron_inv_def NewChronometer_def unat_gt_0)

lemma chron_inv_slot:
  assumes "chron_inv c" "i < MaxSlots"
  shows "length (slots c ! i) \<le> SlotCapacity"
  using assms by (auto simp: chron_inv_def)

lemma chron_inv_cur: "chron_inv c \<Longrightarrow> unat (curSlot c) < MaxSlots"
  by (auto simp: chron_inv_def word_less_nat_alt)

lemma chron_inv_numSlots: "chron_inv c \<Longrightarrow> numSlots c \<noteq> 0"
  by (auto simp: chron_inv_def)

text \<open>The steps of a registration as natural numbers: the quotient, clamped to the horizon.\<close>

definition steps_nat :: "chronometer \<Rightarrow> duration \<Rightarrow> nat" where
  "steps_nat c ttl = min (nat (ttl div interval c)) (unat (numSlots c) - 1)"

lemma unat_word_of_int_nonneg:
  "0 \<le> i \<Longrightarrow> i < 2 ^ LENGTH('a) \<Longrightarrow> unat (word_of_int i :: 'a::len word) = nat i"
  by (simp add: unat_eq_nat_uint uint_word_of_int_eq take_bit_int_eq_self)

lemma register_steps_nat:
  assumes inv: "chron_inv c" and ttl: "0 < ttl" "ttl < 2 ^ 63"
  shows "unat (register_steps c ttl) = steps_nat c ttl"
proof -
  let ?n = "ucast (numSlots c) :: uint64"
  have iv: "0 < interval c" and n: "0 < unat (numSlots c)"
    using inv by (auto simp: chron_inv_def)
  have q: "quot ttl (interval c) = ttl div interval c"
    using ttl iv by (simp add: quot_def)
  have "ttl div interval c \<le> ttl div 1" using ttl iv by (intro zdiv_mono2) auto
  then have bound: "0 \<le> ttl div interval c" "ttl div interval c < 2 ^ 64"
    using ttl iv by (auto simp: pos_imp_zdiv_nonneg_iff)
  have un: "unat ?n = unat (numSlots c)"
    using inv by (simp add: unsigned_ucast_eq take_bit_nat_eq_self chron_inv_def MaxSlots_def)
  have max: "unat (?n - 1) = unat (numSlots c) - 1"
    using n un by (metis unat_eq_zero unat_minus_one less_numeral_extra(3))
  have "unat (word_of_int (ttl div interval c) :: uint64) = nat (ttl div interval c)"
    using bound by (simp add: unat_word_of_int_nonneg)
  with max show ?thesis
    by (auto simp: register_steps_def steps_nat_def q Let_def word_less_nat_alt)
qed

lemma targetSlot_nat:
  assumes inv: "chron_inv c" and ttl: "0 < ttl" "ttl < 2 ^ 63"
  shows "unat (targetSlot c ttl) = (unat (curSlot c) + steps_nat c ttl) mod unat (numSlots c)"
proof -
  have s: "steps_nat c ttl < 1000" "unat (curSlot c) < 1000"
    using inv chron_inv_cur [OF inv] by (auto simp: steps_nat_def chron_inv_def MaxSlots_def)
  have "unat (ucast (register_steps c ttl) :: uint32) = steps_nat c ttl"
    using s register_steps_nat [OF inv ttl] by (simp add: unsigned_ucast_eq take_bit_nat_eq_self)
  with s show ?thesis
    by (simp add: targetSlot_def unat_mod unat_word_ariths)
qed

lemma targetSlot_bound: "numSlots c \<noteq> 0 \<Longrightarrow> targetSlot c ttl < numSlots c"
  by (simp add: targetSlot_def word_mod_less_divisor word_gt_0)

lemma Register_cases:
  assumes inv: "chron_inv c"
  obtains (room) "length (slots c ! unat (targetSlot c ttl)) < SlotCapacity"
      "Register key ttl c =
         Returns (c\<lparr>slots := (slots c)[unat (targetSlot c ttl) := slots c ! unat (targetSlot c ttl) @ [key]]\<rparr>)"
    | (full) "SlotCapacity \<le> length (slots c ! unat (targetSlot c ttl))"
      "Register key ttl c = Returns (c\<lparr>overflows := overflows c + 1\<rparr>)"
proof -
  have "unat (targetSlot c ttl) < MaxSlots" "interval c \<noteq> 0" "numSlots c \<noteq> 0"
    using inv targetSlot_bound [of c ttl] chron_inv_numSlots [OF inv]
    by (auto simp: chron_inv_def word_less_nat_alt)
  then show thesis
    using that by (cases "length (slots c ! unat (targetSlot c ttl)) < SlotCapacity")
      (auto simp: Register_def Let_def)
qed

lemma Register_inv:
  assumes "chron_inv c"
  shows "\<exists>c'. Register key ttl c = Returns c' \<and> chron_inv c'"
  using assms
proof (cases rule: Register_cases [of c ttl key])
  case room
  with assms show ?thesis
    by (auto simp: chron_inv_def dest!: subsetD [OF set_update_subset_insert])
qed (use assms in \<open>auto simp: chron_inv_def\<close>)

lemma advance_eq:
  assumes inv: "chron_inv c"
  shows "advance c = Returns (slots c ! unat (curSlot c),
    c\<lparr>slots := (slots c)[unat (curSlot c) := []],
      chron_expired := chron_expired c + of_nat (length (slots c ! unat (curSlot c))),
      curSlot := (curSlot c + 1) mod numSlots c\<rparr>)"
  using chron_inv_cur [OF inv] chron_inv_numSlots [OF inv] by (simp add: advance_def Let_def)

lemma advance_inv:
  assumes "chron_inv c"
  shows "\<exists>b c'. advance c = Returns (b, c') \<and> chron_inv c'"
proof -
  have "(curSlot c + 1) mod numSlots c < numSlots c"
    using chron_inv_numSlots [OF assms] by (simp add: word_mod_less_divisor word_gt_0)
  with assms show ?thesis
    unfolding advance_eq [OF assms]
    by (auto simp: chron_inv_def dest!: subsetD [OF set_update_subset_insert])
qed

lemma advance_cur_nat:
  assumes inv: "chron_inv c"
  shows "unat ((curSlot c + 1) mod numSlots c) = (unat (curSlot c) + 1) mod unat (numSlots c)"
  using chron_inv_cur [OF inv] by (simp add: unat_mod unat_word_ariths MaxSlots_def)

section \<open>Runs of the timeline\<close>

text \<open>
  Registrations come from any number of callers, ticks from the goroutine of
  \<^verbatim>\<open>Start\<close>; the per-slot locks make each of them one step. A run is their interleaving,
  and its result the sequence of keys handed to the deletion callback.
\<close>

datatype wheel_event = Reg string duration | Tick

fun run_events :: "(string \<Rightarrow> duration \<Rightarrow> 'w \<Rightarrow> 'w go) \<Rightarrow> ('w \<Rightarrow> (string list \<times> 'w) go) \<Rightarrow>
    wheel_event list \<Rightarrow> 'w \<Rightarrow> (string list \<times> 'w) go" where
  "run_events reg tick [] w = Returns ([], w)"
| "run_events reg tick (Reg k ttl # es) w = go_bind (reg k ttl w) (run_events reg tick es)"
| "run_events reg tick (Tick # es) w =
     go_bind (tick w) (\<lambda>(b, w'). go_bind (run_events reg tick es w') (\<lambda>(f, w''). Returns (b @ f, w'')))"

fun registered :: "wheel_event list \<Rightarrow> string multiset" where
  "registered [] = {#}"
| "registered (Reg k ttl # es) = add_mset k (registered es)"
| "registered (Tick # es) = registered es"

fun ticks :: "wheel_event list \<Rightarrow> nat" where
  "ticks [] = 0"
| "ticks (Reg k ttl # es) = ticks es"
| "ticks (Tick # es) = Suc (ticks es)"

text \<open>
  What the engine relies on of a \<^verbatim>\<open>TimelineWheel\<close>: no operation panics, and no key
  is handed out that was not registered, nor more often than it was registered.
\<close>

locale timeline_wheel =
  fixes reg :: "string \<Rightarrow> duration \<Rightarrow> 'w \<Rightarrow> 'w go"
    and tick :: "'w \<Rightarrow> (string list \<times> 'w) go"
    and ok :: "'w \<Rightarrow> bool"
    and pending :: "'w \<Rightarrow> string multiset"
  assumes reg_law: "ok w \<Longrightarrow> \<exists>w'. reg k ttl w = Returns w' \<and> ok w' \<and> pending w' \<subseteq># add_mset k (pending w)"
    and tick_law: "ok w \<Longrightarrow> \<exists>b w'. tick w = Returns (b, w') \<and> ok w' \<and> pending w = mset b + pending w'"
begin

lemma run_law:
  "ok w \<Longrightarrow> \<exists>f w'. run_events reg tick es w = Returns (f, w') \<and> ok w' \<and>
     mset f + pending w' \<subseteq># registered es + pending w"
proof (induction es arbitrary: w)
  case (Cons e es)
  show ?case
  proof (cases e)
    case (Reg k ttl)
    obtain w1 where w1: "reg k ttl w = Returns w1" "ok w1" "pending w1 \<subseteq># add_mset k (pending w)"
      using reg_law [OF Cons.prems] by blast
    obtain f w2 where w2: "run_events reg tick es w1 = Returns (f, w2)" "ok w2"
      "mset f + pending w2 \<subseteq># registered es + pending w1"
      using Cons.IH [OF w1(2)] by blast
    have "mset f + pending w2 \<subseteq># registered es + add_mset k (pending w)"
      by (rule subset_mset.order_trans [OF w2(3)]) (simp add: w1(3))
    with Reg w1(1) w2(1,2) show ?thesis by simp
  next
    case Tick
    obtain b w1 where w1: "tick w = Returns (b, w1)" "ok w1" "pending w = mset b + pending w1"
      using tick_law [OF Cons.prems] by blast
    obtain f w2 where w2: "run_events reg tick es w1 = Returns (f, w2)" "ok w2"
      "mset f + pending w2 \<subseteq># registered es + pending w1"
      using Cons.IH [OF w1(2)] by blast
    have "mset (b @ f) + pending w2 \<subseteq># registered es + pending w"
      using w2(3) by (simp add: w1(3) add.assoc add.left_commute [of "registered es"])
    with Tick w1(1) w2(1,2) show ?thesis by simp
  qed
qed simp

end

fun wheel_pending :: "wheel \<Rightarrow> string multiset" where
  "wheel_pending NoOpChronometer = {#}"
| "wheel_pending (Timeline c) = mset (concat (slots c))"

lemma mset_concat_update:
  "i < length xss \<Longrightarrow> mset (concat (xss[i := ys])) + mset (xss ! i) = mset (concat xss) + mset ys"
proof (induction xss arbitrary: i)
  case (Cons xs xss)
  then show ?case by (cases i) (simp_all add: ac_simps)
qed simp

lemma Register_pending:
  assumes inv: "chron_inv c" and reg: "Register k ttl c = Returns c'"
  shows "mset (concat (slots c')) \<subseteq># add_mset k (mset (concat (slots c)))"
proof (cases rule: Register_cases [of c ttl k, OF inv])
  case 1
  let ?t = "unat (targetSlot c ttl)"
  have "?t < length (slots c)"
    using inv targetSlot_bound [OF chron_inv_numSlots [OF inv], of ttl]
    by (auto simp: chron_inv_def word_less_nat_alt)
  then have "mset (concat ((slots c)[?t := slots c ! ?t @ [k]])) = add_mset k (mset (concat (slots c)))"
    using mset_concat_update [of ?t "slots c" "slots c ! ?t @ [k]"] by simp
  with 1 reg show ?thesis by auto
qed (use reg in auto)

lemma advance_pending:
  assumes inv: "chron_inv c" and adv: "advance c = Returns (b, c')"
  shows "mset (concat (slots c)) = mset b + mset (concat (slots c'))"
proof -
  have "unat (curSlot c) < length (slots c)"
    using inv chron_inv_cur [OF inv] by (simp add: chron_inv_def)
  from mset_concat_update [OF this, of "[]"] show ?thesis
    using adv unfolding advance_eq [OF inv] by (auto simp: ac_simps)
qed

interpretation tlw: timeline_wheel wheel_Register wheel_tick wheel_inv wheel_pending
proof
  fix w k ttl
  assume "wheel_inv w"
  then show "\<exists>w'. wheel_Register k ttl w = Returns w' \<and> wheel_inv w' \<and>
      wheel_pending w' \<subseteq># add_mset k (wheel_pending w)"
  proof (cases w)
    case (Timeline c)
    with \<open>wheel_inv w\<close> have "chron_inv c" by simp
    then obtain c' where "Register k ttl c = Returns c'" "chron_inv c'"
      using Register_inv by blast
    with Timeline \<open>chron_inv c\<close> Register_pending [of c k ttl c'] show ?thesis
      by simp
  qed simp
next
  fix w
  assume "wheel_inv w"
  then show "\<exists>b w'. wheel_tick w = Returns (b, w') \<and> wheel_inv w' \<and>
      wheel_pending w = mset b + wheel_pending w'"
  proof (cases w)
    case (Timeline c)
    with \<open>wheel_inv w\<close> have "chron_inv c" by simp
    then obtain b c' where "advance c = Returns (b, c')" "chron_inv c'"
      using advance_inv by blast
    with Timeline \<open>chron_inv c\<close> advance_pending [of c b c'] show ?thesis
      by (cases "stopped c") (simp_all add: Start_tick_def)
  qed simp
qed

interpretation chron: timeline_wheel Register advance chron_inv "\<lambda>c. mset (concat (slots c))"
proof
  fix w k ttl
  assume inv: "chron_inv w"
  then obtain w' where "Register k ttl w = Returns w'" "chron_inv w'"
    using Register_inv by blast
  with inv show "\<exists>w'. Register k ttl w = Returns w' \<and> chron_inv w' \<and>
      mset (concat (slots w')) \<subseteq># add_mset k (mset (concat (slots w)))"
    using Register_pending [of w k ttl w'] by simp
next
  fix w
  assume inv: "chron_inv w"
  then obtain b w' where "advance w = Returns (b, w')" "chron_inv w'"
    using advance_inv by blast
  with inv show "\<exists>b w'. advance w = Returns (b, w') \<and> chron_inv w' \<and>
      mset (concat (slots w)) = mset b + mset (concat (slots w'))"
    using advance_pending [of w b w'] by simp
qed

section \<open>When a registered key fires\<close>

definition sched :: "string \<Rightarrow> nat \<Rightarrow> chronometer \<Rightarrow> bool" where
  "sched k r c \<longleftrightarrow> k \<in> set (slots c ! ((unat (curSlot c) + r) mod unat (numSlots c)))"

lemma slot_index_bound: "chron_inv c \<Longrightarrow> i mod unat (numSlots c) < length (slots c)"
  by (auto simp: chron_inv_def intro: less_le_trans mod_less_divisor)

lemma mem_nth_update_snoc:
  "j < length xs \<Longrightarrow> x \<in> set (xs ! j) \<Longrightarrow> x \<in> set (xs[i := xs ! i @ [y]] ! j)"
  by (cases "i = j") auto

lemma add_mod_neq:
  assumes "a < n" "0 < s" "s < n"
  shows "(a + s) mod n \<noteq> (a::nat)"
proof (cases "a + s < n")
  case False
  then have "(a + s) mod n = a + s - n" using assms by (simp add: le_mod_geq)
  with False assms show ?thesis by linarith
qed (use assms in simp)

lemma sched_Register:
  assumes inv: "chron_inv c" and "sched k r c" and reg: "Register k' ttl c = Returns c'"
  shows "sched k r c'"
proof (cases rule: Register_cases [of c ttl k', OF inv])
  case 1
  with assms slot_index_bound [OF inv, of "unat (curSlot c) + r"] show ?thesis
    by (auto simp: sched_def intro: mem_nth_update_snoc)
qed (use assms in \<open>auto simp: sched_def\<close>)

lemma sched_advance:
  assumes inv: "chron_inv c" and sch: "sched k (Suc r) c" and r: "Suc r < unat (numSlots c)"
    and adv: "advance c = Returns (b, c')"
  shows "sched k r c'"
proof -
  let ?n = "unat (numSlots c)" and ?cur = "unat (curSlot c)"
  have cur: "?cur < ?n" using inv by (simp add: chron_inv_def word_less_nat_alt)
  have "(?cur + Suc r) mod ?n \<noteq> ?cur"
    using cur r by (simp add: add_mod_neq del: add_Suc_right)
  moreover have "((?cur + 1) mod ?n + r) mod ?n = (?cur + Suc r) mod ?n"
    by (simp add: mod_add_left_eq)
  ultimately show ?thesis
    using adv sch unfolding advance_eq [OF inv] by (auto simp: sched_def advance_cur_nat [OF inv])
qed

lemma sched_run:
  assumes "chron_inv c" "sched k (ticks es) c" "ticks es < unat (numSlots c)"
    and "run_events Register advance es c = Returns (f, c')"
  shows "sched k 0 c' \<and> chron_inv c'"
  using assms
proof (induction es arbitrary: c f)
  case (Cons e es)
  show ?case
  proof (cases e)
    case (Reg k' ttl)
    with Cons.prems obtain c1 where c1: "Register k' ttl c = Returns c1"
      "run_events Register advance es c1 = Returns (f, c')" by auto
    moreover have "chron_inv c1" using Register_inv [OF Cons.prems(1)] c1 by (metis go.inject)
    moreover have "numSlots c1 = numSlots c"
      using c1(1) by (cases rule: Register_cases [of c ttl k', OF Cons.prems(1)]) auto
    ultimately show ?thesis
      using Cons Reg sched_Register [OF Cons.prems(1) _ c1(1)] by simp
  next
    case Tick
    with Cons.prems obtain b c1 f1 where c1: "advance c = Returns (b, c1)"
      "run_events Register advance es c1 = Returns (f1, c')" by auto
    moreover have "chron_inv c1" using advance_inv [OF Cons.prems(1)] c1 by (metis Pair_inject go.inject)
    moreover have "numSlots c1 = numSlots c"
      using c1(1) unfolding advance_eq [OF Cons.prems(1)] by auto
    ultimately show ?thesis
      using Cons Tick sched_advance [OF Cons.prems(1) _ _ c1(1)] by simp
  qed
qed simp

lemma sched_fires:
  assumes "chron_inv c" "sched k 0 c"
  shows "\<exists>b c'. advance c = Returns (b, c') \<and> k \<in> set b"
  using assms unfolding advance_eq [OF assms(1)]
  by (auto simp: sched_def chron_inv_def word_less_nat_alt)

lemma sched_pending: "chron_inv c \<Longrightarrow> sched k r c \<Longrightarrow> k \<in># mset (concat (slots c))"
  using slot_index_bound [of c] by (auto simp: sched_def)

lemma Register_sched:
  assumes inv: "chron_inv c" and ttl: "0 < ttl" "ttl < 2 ^ 63"
    and room: "length (slots c ! unat (targetSlot c ttl)) < SlotCapacity"
  obtains c' where "Register k ttl c = Returns c'" "sched k (steps_nat c ttl) c'" "chron_inv c'"
    "numSlots c' = numSlots c"
proof (cases rule: Register_cases [of c ttl k, OF inv])
  case 1
  moreover obtain c' where "Register k ttl c = Returns c'" "chron_inv c'"
    using Register_inv [OF inv] by blast
  ultimately show thesis
    using that slot_index_bound [OF inv] targetSlot_nat [OF inv ttl] by (auto simp: sched_def)
qed (use room in simp)

text \<open>
  C29. A key registered with a time to live of \<open>ttl\<close>, in a slot that has room, is handed to
  the deletion callback by the tick after the next \<open>ttl div interval\<close> ones (clamped to
  \<^verbatim>\<open>numSlots - 1\<close>), whatever other registrations are interleaved; unless the key is
  registered twice it is not handed out before that tick.
\<close>

theorem chronometer_fires_on_time:
  assumes "chron_inv c" "0 < ttl" "ttl < 2 ^ 63"
    and "length (slots c ! unat (targetSlot c ttl)) < SlotCapacity"
    and "ticks es = steps_nat c ttl"
  shows "\<exists>f c1 b c2. run_events Register advance (Reg k ttl # es) c = Returns (f, c1) \<and>
      advance c1 = Returns (b, c2) \<and> k \<in> set b \<and>
      (k \<notin># registered es + mset (concat (slots c)) \<longrightarrow> k \<notin> set f)"
proof -
  obtain c0 where c0: "Register k ttl c = Returns c0" "sched k (ticks es) c0" "chron_inv c0"
    "numSlots c0 = numSlots c"
    using Register_sched [OF assms(1-4)] assms(5) by metis
  obtain f c1 where run: "run_events Register advance es c0 = Returns (f, c1)"
    and cons: "mset f + mset (concat (slots c1)) \<subseteq># registered es + mset (concat (slots c0))"
    using chron.run_law [OF c0(3)] by blast
  have "ticks es < unat (numSlots c0)"
    using assms(1,5) c0(4) by (auto simp: steps_nat_def chron_inv_def)
  then have c1: "sched k 0 c1" "chron_inv c1"
    using sched_run [OF c0(3,2) _ run] by auto
  have "count (mset f) k + count (mset (concat (slots c1))) k
      \<le> count (registered es) k + (count (mset (concat (slots c))) k + 1)"
    using mset_subset_eq_count [OF cons, of k]
      mset_subset_eq_count [OF Register_pending [OF assms(1) c0(1)], of k] by simp
  moreover have "0 < count (mset (concat (slots c1))) k"
    using sched_pending [OF c1(2,1)] by simp
  ultimately have "count (registered es) k = 0 \<Longrightarrow> count (mset (concat (slots c))) k = 0 \<Longrightarrow>
      count (mset f) k = 0"
    by linarith
  then have "k \<notin># registered es + mset (concat (slots c)) \<longrightarrow> count (mset f) k = 0"
    by (metis count_eq_zero_iff union_iff)
  then show ?thesis
    using run c0(1) sched_fires [OF c1(2,1)] by (auto simp: count_eq_zero_iff)
qed

theorem chronometer_fires_on_time_witness:
  "\<exists>f c1 b c2. run_events Register advance [Reg ''a'' 25, Tick, Reg ''b'' 5, Tick] (NewChronometer 10 4)
      = Returns (f, c1) \<and> advance c1 = Returns (b, c2) \<and> ''a'' \<in> set b \<and> ''a'' \<notin> set f"
proof -
  let ?c = "NewChronometer 10 4"
  have inv: "chron_inv ?c" by (rule NewChronometer_inv) (simp_all add: MaxSlots_def)
  have "length (slots ?c ! unat (targetSlot ?c 25)) < SlotCapacity"
    using targetSlot_nat [OF inv, of 25]
    by (simp add: NewChronometer_def SlotCapacity_def MaxSlots_def steps_nat_def)
  moreover have "ticks [Tick, Reg ''b'' 5, Tick] = steps_nat ?c 25"
    by (simp add: steps_nat_def NewChronometer_def)
  moreover have "''a'' \<notin># registered [Tick, Reg ''b'' 5, Tick] + mset (concat (slots ?c))"
    by (simp add: NewChronometer_def)
  ultimately show ?thesis
    using chronometer_fires_on_time [OF inv, of 25 "[Tick, Reg ''b'' 5, Tick]" "''a''"]
    by (simp del: run_events.simps registered.simps)
qed



text \<open>
  A timeline of more than \<^verbatim>\<open>MaxSlots\<close> slots, which no caller excludes, runs off the
  array: the first registration far enough ahead panics.
\<close>

lemma Register_panics_beyond_MaxSlots: "Register ''a'' (1000 * second) (NewChronometer second 2000) = Panics"
proof -
  have "register_steps (NewChronometer second 2000) (1000 * second) = 1000"
    by (simp add: register_steps_def NewChronometer_def quot_def second_def Let_def)
  then show ?thesis
    by (simp add: Register_def targetSlot_def NewChronometer_def MaxSlots_def second_def Let_def)
qed

end
