(* ===== verification/Store_Interface.thy ===== *)
theory Store_Interface
  imports Tellstone_Prelude
begin

text \<open>
  The contract of \<^verbatim>\<open>command.Store\<close> (\<^verbatim>\<open>src/internal/command/command.go\<close>),
  the seam between the command handlers and the storage below them, as the locale \<open>kv_store\<close>.
  The specification is a map from keys to values with an expiration time; what an implementation
  shows is its \<open>view\<close> at a time. The clock reading, entropy and I/O outcomes an operation
  sees are its environment. The locale's client lemma is trace refinement: every run of operations
  at non-decreasing times has results the timed map allows.
\<close>

type_synonym timed_map = "string \<rightharpoonup> bytes \<times> gotime"

definition lookup_at :: "timed_map \<Rightarrow> int \<Rightarrow> string \<Rightarrow> bytes option" where
  "lookup_at m t k = (case m k of None \<Rightarrow> None | Some (v, e) \<Rightarrow> if past t e then None else Some v)"

datatype kv_op = KGet string | KSet string bytes duration | KDel string

datatype 'err kv_res = RGet "bytes option" | RSet "'err option" | RDel bool

text \<open>
  What the timed map does for an operation answered with a given result; \<open>None\<close> when the
  result is not one it allows. A write may be refused, and then changes nothing.
\<close>

fun spec_apply :: "int \<Rightarrow> kv_op \<Rightarrow> 'err kv_res \<Rightarrow> timed_map \<Rightarrow> timed_map option" where
  "spec_apply now (KGet k) (RGet r) m = (if r = lookup_at m now k then Some m else None)"
| "spec_apply now (KSet k v ttl) (RSet None) m = Some (m(k \<mapsto> (v, deadline now ttl)))"
| "spec_apply now (KSet k v ttl) (RSet (Some err)) m = Some m"
| "spec_apply now (KDel k) (RDel b) m = (if b = (lookup_at m now k \<noteq> None) then Some (m(k := None)) else None)"
| "spec_apply now op r m = None"

fun spec_trace :: "(int \<times> kv_op \<times> 'err kv_res) list \<Rightarrow> timed_map \<Rightarrow> timed_map option" where
  "spec_trace [] m = Some m"
| "spec_trace ((now, op, r) # tr) m =
     (case spec_apply now op r m of None \<Rightarrow> None | Some m' \<Rightarrow> spec_trace tr m')"

fun run_op :: "('env \<Rightarrow> string \<Rightarrow> 's \<Rightarrow> (bytes option \<times> 's) go) \<Rightarrow>
    ('env \<Rightarrow> string \<Rightarrow> bytes \<Rightarrow> duration \<Rightarrow> 's \<Rightarrow> ('err option \<times> 's) go) \<Rightarrow>
    ('env \<Rightarrow> string \<Rightarrow> 's \<Rightarrow> (bool \<times> 's) go) \<Rightarrow> 'env \<Rightarrow> kv_op \<Rightarrow> 's \<Rightarrow> ('err kv_res \<times> 's) go" where
  "run_op sget sset sdel v (KGet k) s = go_bind (sget v k s) (\<lambda>(r, s'). Returns (RGet r, s'))"
| "run_op sget sset sdel v (KSet k x ttl) s = go_bind (sset v k x ttl s) (\<lambda>(r, s'). Returns (RSet r, s'))"
| "run_op sget sset sdel v (KDel k) s = go_bind (sdel v k s) (\<lambda>(r, s'). Returns (RDel r, s'))"

fun run_ops :: "('env \<Rightarrow> string \<Rightarrow> 's \<Rightarrow> (bytes option \<times> 's) go) \<Rightarrow>
    ('env \<Rightarrow> string \<Rightarrow> bytes \<Rightarrow> duration \<Rightarrow> 's \<Rightarrow> ('err option \<times> 's) go) \<Rightarrow>
    ('env \<Rightarrow> string \<Rightarrow> 's \<Rightarrow> (bool \<times> 's) go) \<Rightarrow> ('env \<Rightarrow> int) \<Rightarrow> ('env \<times> kv_op) list \<Rightarrow> 's \<Rightarrow>
    ((int \<times> kv_op \<times> 'err kv_res) list \<times> 's) go" where
  "run_ops sget sset sdel clock [] s = Returns ([], s)"
| "run_ops sget sset sdel clock ((v, op) # ops) s =
     go_bind (run_op sget sset sdel v op s) (\<lambda>(r, s').
       go_bind (run_ops sget sset sdel clock ops s') (\<lambda>(tr, s''). Returns ((clock v, op, r) # tr, s'')))"

fun times_from :: "int \<Rightarrow> int list \<Rightarrow> bool" where
  "times_from t [] = True"
| "times_from t (u # us) = (t \<le> u \<and> times_from u us)"

locale kv_store =
  fixes sget :: "'env \<Rightarrow> string \<Rightarrow> 's \<Rightarrow> (bytes option \<times> 's) go"
    and sset :: "'env \<Rightarrow> string \<Rightarrow> bytes \<Rightarrow> duration \<Rightarrow> 's \<Rightarrow> ('err option \<times> 's) go"
    and sdel :: "'env \<Rightarrow> string \<Rightarrow> 's \<Rightarrow> (bool \<times> 's) go"
    and clock :: "'env \<Rightarrow> int"
    and env_ok :: "'env \<Rightarrow> bool"
    and ok :: "'s \<Rightarrow> bool"
    and view :: "'s \<Rightarrow> int \<Rightarrow> string \<Rightarrow> bytes option"
  assumes get_law: "ok s \<Longrightarrow> env_ok v \<Longrightarrow>
      \<exists>s'. sget v k s = Returns (view s (clock v) k, s') \<and> ok s' \<and> (\<forall>t\<ge>clock v. view s' t = view s t)"
    and set_law: "ok s \<Longrightarrow> env_ok v \<Longrightarrow>
      \<exists>r s'. sset v k x ttl s = Returns (r, s') \<and> ok s' \<and>
        (\<forall>t\<ge>clock v. view s' t =
           (if r = None then (view s t)(k := if past t (deadline (clock v) ttl) then None else Some x)
            else view s t))"
    and del_law: "ok s \<Longrightarrow> env_ok v \<Longrightarrow>
      \<exists>s'. sdel v k s = Returns (view s (clock v) k \<noteq> None, s') \<and> ok s' \<and>
        (\<forall>t\<ge>clock v. view s' t = (view s t)(k := None))"
begin

lemma step_refines:
  assumes "ok s" "env_ok v" "\<forall>t\<ge>t0. view s t = lookup_at m t" "t0 \<le> clock v"
  shows "\<exists>r s' m'. run_op sget sset sdel v op s = Returns (r, s') \<and> ok s' \<and>
      spec_apply (clock v) op r m = Some m' \<and> (\<forall>t\<ge>clock v. view s' t = lookup_at m' t)"
proof (cases op)
  case (KGet k)
  with assms get_law [OF assms(1,2), of k] show ?thesis by fastforce
next
  case (KSet k x ttl)
  obtain r s' where s': "sset v k x ttl s = Returns (r, s')" "ok s'"
    "\<forall>t\<ge>clock v. view s' t =
       (if r = None then (view s t)(k := if past t (deadline (clock v) ttl) then None else Some x) else view s t)"
    using set_law [OF assms(1,2), of k x ttl] by blast
  show ?thesis
  proof (cases r)
    case None
    with s' assms KSet show ?thesis
      by (intro exI [of _ "RSet r"] exI [of _ s'] exI [of _ "m(k \<mapsto> (x, deadline (clock v) ttl))"])
        (auto simp: lookup_at_def fun_eq_iff)
  next
    case (Some err)
    with s' assms KSet show ?thesis
      by (intro exI [of _ "RSet r"] exI [of _ s'] exI [of _ m]) auto
  qed
next
  case (KDel k)
  obtain s' where s': "sdel v k s = Returns (view s (clock v) k \<noteq> None, s')" "ok s'"
    "\<forall>t\<ge>clock v. view s' t = (view s t)(k := None)"
    using del_law [OF assms(1,2), of k] by blast
  with assms KDel show ?thesis
    by (intro exI [of _ "RDel (view s (clock v) k \<noteq> None)"] exI [of _ s'] exI [of _ "m(k := None)"])
      (auto simp: lookup_at_def fun_eq_iff)
qed

lemma trace_refines:
  assumes "ok s" "\<forall>v\<in>fst ` set ops. env_ok v" "\<forall>t\<ge>t0. view s t = lookup_at m t"
    and "times_from t0 (map (clock \<circ> fst) ops)"
  shows "\<exists>tr s' m'. run_ops sget sset sdel clock ops s = Returns (tr, s') \<and> ok s' \<and> spec_trace tr m = Some m' \<and>
      (\<exists>t1\<ge>t0. \<forall>t\<ge>t1. view s' t = lookup_at m' t)"
  using assms
proof (induction ops arbitrary: s t0 m)
  case (Cons p ops)
  obtain v op where p: "p = (v, op)" by fastforce
  obtain r s1 m1 where s1: "run_op sget sset sdel v op s = Returns (r, s1)" "ok s1"
    "spec_apply (clock v) op r m = Some m1" "\<forall>t\<ge>clock v. view s1 t = lookup_at m1 t"
    using step_refines [of s v t0 m op] Cons.prems p by auto
  obtain tr s2 m2 t1 where s2: "run_ops sget sset sdel clock ops s1 = Returns (tr, s2)" "ok s2"
    "spec_trace tr m1 = Some m2" "t1 \<ge> clock v" "\<forall>t\<ge>t1. view s2 t = lookup_at m2 t"
    using Cons.IH [OF s1(2) _ s1(4)] Cons.prems p by auto
  have "t0 \<le> t1" using Cons.prems(4) p s2(4) by simp
  with s1 s2 p show ?case by auto
qed auto

end

end
