(* ===== verification/Storage_Engine.thy ===== *)
theory Storage_Engine
  imports Crypto_Engine Chronometer Store_Interface
begin

text \<open>
  \<^verbatim>\<open>src/internal/storage/engine.go\<close> and \<^verbatim>\<open>storage.go\<close>: the in-memory
  key-value engine of a shard. The Go map is a HOL map, the counters are unsigned 64 bit words,
  and every operation takes the clock reading \<open>now\<close> it sees and, where it encrypts, the
  nonce drawn from the entropy source. An operation that registers a time to live runs the code of
  the timeline, which may panic; such operations return a \<open>go\<close> value.
  The order in which Go iterates a map is the argument \<open>ord\<close> of \<open>ForEach\<close>.
\<close>

record item =
  Value :: bytes
  Expiration :: gotime

datatype storage_error = ErrEngineFull | ErrInvalidKeyLength | CryptoError crypto_error

record engine =
  items :: "string \<rightharpoonup> item"
  wheel :: wheel
  crypto :: crypto_engine
  maxBytes :: uint64
  allocatedBytes :: uint64
  keyCount :: uint64
  expiredCount :: uint64
  hitCount :: uint64
  missCount :: uint64
  totalCommands :: uint64
  cryptoEncryptedBytes :: uint64
  cryptoDecryptedBytes :: uint64

definition defaultMaxBytes :: "nat \<Rightarrow> uint64" where
  "defaultMaxBytes UintSize = (if UintSize = 32 then 3 * 1024 * 1024 * 1024 else 0)"

definition disabled_crypto :: crypto_engine where
  "disabled_crypto = \<lparr>aead_key = [], keyFingerprint = replicate 16 (CHR 0x00), enabled = False\<rparr>"

definition NewEngine :: "nat \<Rightarrow> duration \<Rightarrow> uint32 \<Rightarrow> uint64 \<Rightarrow> crypto_engine option \<Rightarrow> engine" where
  "NewEngine UintSize iv n mb ce =
     \<lparr>items = Map.empty,
      wheel = (if iv \<le> 0 \<or> n = 0 then NoOpChronometer else Timeline (NewChronometer iv n)),
      crypto = (case ce of None \<Rightarrow> disabled_crypto | Some c \<Rightarrow> c),
      maxBytes = (if mb = 0 then defaultMaxBytes UintSize else mb),
      allocatedBytes = 0, keyCount = 0, expiredCount = 0, hitCount = 0, missCount = 0,
      totalCommands = 0, cryptoEncryptedBytes = 0, cryptoDecryptedBytes = 0\<rparr>"

definition Close :: "engine \<Rightarrow> engine" where
  "Close e = e\<lparr>wheel := wheel_Stop (wheel e)\<rparr>"

text \<open>The admission test \<^verbatim>\<open>allocatedBytes + totalEntrySize > maxBytes\<close>, at 64 bits.\<close>

definition engine_full :: "engine \<Rightarrow> nat \<Rightarrow> bool" where
  "engine_full e entrySize \<longleftrightarrow> maxBytes e > 0 \<and> allocatedBytes e + of_nat entrySize > maxBytes e"

text \<open>
  The tail that \<^verbatim>\<open>Set\<close>, \<^verbatim>\<open>SetFromBuffer\<close> and \<^verbatim>\<open>SetRaw\<close> share:
  the map update and the byte and key accounting, subtraction written as the addition of a
  complement as in the code.
\<close>

definition put_item :: "string \<Rightarrow> item \<Rightarrow> engine \<Rightarrow> engine" where
  "put_item key it e =
     (let e1 = e\<lparr>items := (items e)(key \<mapsto> it), totalCommands := totalCommands e + 1\<rparr>;
          newSize = of_nat (length key + length (Value it)) :: uint64
      in case items e key of
           Some oldItem \<Rightarrow>
             (let oldSize = of_nat (length key + length (Value oldItem)) :: uint64 in
              if newSize > oldSize then e1\<lparr>allocatedBytes := allocatedBytes e + (newSize - oldSize)\<rparr>
              else if oldSize > newSize
              then e1\<lparr>allocatedBytes := allocatedBytes e + NOT (oldSize - newSize - 1)\<rparr>
              else e1)
         | None \<Rightarrow> e1\<lparr>allocatedBytes := allocatedBytes e + newSize, keyCount := keyCount e + 1\<rparr>)"

definition register_ttl :: "string \<Rightarrow> duration \<Rightarrow> engine \<Rightarrow> (storage_error option \<times> engine) go" where
  "register_ttl key ttl e =
     (if ttl > 0 then go_bind (wheel_Register key ttl (wheel e)) (\<lambda>w. Returns (None, e\<lparr>wheel := w\<rparr>))
      else Returns (None, e))"

definition Set :: "prims \<Rightarrow> int \<Rightarrow> bytes option \<Rightarrow> string \<Rightarrow> bytes \<Rightarrow> duration \<Rightarrow> engine \<Rightarrow>
    (storage_error option \<times> engine) go" where
  "Set P now rnd key v ttl e =
     (let neededSize = (if enabled (crypto e) then 12 + length v + 16 else length v) in
      if engine_full e (length key + neededSize) then Returns (Some ErrEngineFull, e)
      else (case EncryptInPlace P (crypto e) rnd v of
              Inl err \<Rightarrow> Returns (Some (CryptoError err), e)
            | Inr stored \<Rightarrow>
                (let e1 = put_item key \<lparr>Value = stored, Expiration = deadline now ttl\<rparr> e;
                     e2 = (if enabled (crypto e)
                           then e1\<lparr>cryptoEncryptedBytes := cryptoEncryptedBytes e1 + of_nat (length stored)\<rparr>
                           else e1)
                 in register_ttl key ttl e2)))"

definition SetFromBuffer :: "prims \<Rightarrow> int \<Rightarrow> bytes option \<Rightarrow> bytes \<Rightarrow> int \<Rightarrow> duration \<Rightarrow> engine \<Rightarrow>
    (storage_error option \<times> engine) go" where
  "SetFromBuffer P now rnd buf keyLen ttl e =
     (if keyLen < 0 \<or> keyLen > int (length buf) then Returns (Some ErrInvalidKeyLength, e)
      else let key = take (nat keyLen) buf; v = drop (nat keyLen) buf in
        if enabled (crypto e) then Set P now rnd key v ttl e
        else if engine_full e (length buf) then Returns (Some ErrEngineFull, e)
        else register_ttl key ttl (put_item key \<lparr>Value = v, Expiration = deadline now ttl\<rparr> e))"

definition SetRaw :: "int \<Rightarrow> string \<Rightarrow> bytes \<Rightarrow> duration \<Rightarrow> engine \<Rightarrow> (storage_error option \<times> engine) go" where
  "SetRaw now key v ttl e =
     (if engine_full e (length key + length v) then Returns (Some ErrEngineFull, e)
      else let e1 = put_item key \<lparr>Value = v, Expiration = deadline now ttl\<rparr> e in
        register_ttl key ttl (e1\<lparr>cryptoEncryptedBytes := cryptoEncryptedBytes e1 + of_nat (length v)\<rparr>))"

definition releaseKey :: "string \<Rightarrow> item \<Rightarrow> engine \<Rightarrow> engine" where
  "releaseKey key it e =
     (let releasedBytes = of_nat (length key + length (Value it)) :: uint64 in
      e\<lparr>allocatedBytes := allocatedBytes e + NOT (releasedBytes - 1),
        totalCommands := totalCommands e + 1,
        keyCount := keyCount e + NOT 0\<rparr>)"

definition Delete :: "int \<Rightarrow> string \<Rightarrow> engine \<Rightarrow> bool \<times> engine" where
  "Delete now key e =
     (case items e key of
        None \<Rightarrow> (False, e)
      | Some it \<Rightarrow>
          (let expired = past now (Expiration it);
               e1 = releaseKey key it (e\<lparr>items := (items e)(key := None)\<rparr>)
           in if expired then (False, e1\<lparr>expiredCount := expiredCount e1 + 1\<rparr>) else (True, e1)))"

definition deleteIfExpired :: "int \<Rightarrow> string \<Rightarrow> engine \<Rightarrow> bool \<times> engine" where
  "deleteIfExpired now key e =
     (case items e key of
        None \<Rightarrow> (False, e)
      | Some it \<Rightarrow>
          (if \<not> past now (Expiration it) then (False, e)
           else (True, releaseKey key it (e\<lparr>items := (items e)(key := None)\<rparr>))))"

definition count_miss :: "engine \<Rightarrow> engine" where
  "count_miss e = e\<lparr>missCount := missCount e + 1, totalCommands := totalCommands e + 1\<rparr>"

definition count_hit :: "engine \<Rightarrow> engine" where
  "count_hit e = e\<lparr>hitCount := hitCount e + 1, totalCommands := totalCommands e + 1\<rparr>"

definition lazy_evict :: "int \<Rightarrow> string \<Rightarrow> engine \<Rightarrow> engine" where
  "lazy_evict now key e =
     (case deleteIfExpired now key e of
        (True, e1) \<Rightarrow> e1\<lparr>expiredCount := expiredCount e1 + 1\<rparr>
      | (False, e1) \<Rightarrow> e1)"

definition Get :: "prims \<Rightarrow> int \<Rightarrow> string \<Rightarrow> engine \<Rightarrow> bytes option \<times> engine" where
  "Get P now key e =
     (case items e key of
        None \<Rightarrow> (None, count_miss e)
      | Some it \<Rightarrow>
          if past now (Expiration it) then (None, lazy_evict now key e)
          else if enabled (crypto e)
          then (case DecryptInPlaceWithDst P (crypto e) (Value it) of
                  Inl err \<Rightarrow> (None, e)
                | Inr plain \<Rightarrow>
                    (Some plain,
                     (count_hit e)\<lparr>cryptoDecryptedBytes := cryptoDecryptedBytes e + of_nat (length plain)\<rparr>))
          else (Some (Value it), count_hit e))"

text \<open>
  \<^verbatim>\<open>GetInto\<close> fills the caller's buffer. \<open>buf\<close> is its contents and
  \<open>bcap\<close> its capacity: decryption appends to \<^verbatim>\<open>buf[:0]\<close>, which writes into the
  buffer when the capacity suffices and allocates a new array otherwise. The result is the count,
  the flag, the contents of the buffer (\<open>None\<close> after a failed decryption, which may have
  overwritten it) and the engine.
\<close>

definition overwrite :: "bytes \<Rightarrow> bytes \<Rightarrow> bytes" where
  "overwrite buf v = take (length buf) v @ drop (length v) buf"

definition GetInto :: "prims \<Rightarrow> int \<Rightarrow> bytes \<Rightarrow> nat \<Rightarrow> string \<Rightarrow> engine \<Rightarrow>
    nat \<times> bool \<times> bytes option \<times> engine" where
  "GetInto P now buf bcap key e =
     (case items e key of
        None \<Rightarrow> (0, False, Some buf, count_miss e)
      | Some it \<Rightarrow>
          if past now (Expiration it) then (0, False, Some buf, lazy_evict now key e)
          else if enabled (crypto e)
          then (case DecryptInPlaceWithDst P (crypto e) (Value it) of
                  Inl err \<Rightarrow> (0, False, None, e)
                | Inr plain \<Rightarrow>
                    (length plain, True,
                     Some (if length plain \<le> bcap then overwrite buf plain else buf),
                     (count_hit e)\<lparr>cryptoDecryptedBytes := cryptoDecryptedBytes e + of_nat (length plain)\<rparr>))
          else if length buf < length (Value it) then (0, False, Some buf, e)
          else (length (Value it), True, Some (overwrite buf (Value it)), count_hit e))"

definition ForEach :: "int \<Rightarrow> string list \<Rightarrow> engine \<Rightarrow> (string \<times> bytes \<times> gotime) list" where
  "ForEach now ord e =
     concat (map (\<lambda>k. case items e k of
                        None \<Rightarrow> []
                      | Some it \<Rightarrow> if past now (Expiration it) then [] else [(k, Value it, Expiration it)]) ord)"

text \<open>One tick of the ticker goroutine: the timeline's batch goes through the deletion callback.\<close>

definition engine_tick :: "int \<Rightarrow> engine \<Rightarrow> engine go" where
  "engine_tick now e =
     go_bind (wheel_tick (wheel e))
       (\<lambda>(batch, w). Returns (foldl (\<lambda>e key. snd (deleteIfExpired now key e)) (e\<lparr>wheel := w\<rparr>) batch))"

section \<open>The accounting invariant\<close>

definition total_bytes :: "(string \<rightharpoonup> item) \<Rightarrow> nat" where
  "total_bytes m = (\<Sum>k\<in>dom m. length k + length (Value (the (m k))))"

definition engine_inv :: "engine \<Rightarrow> bool" where
  "engine_inv e \<longleftrightarrow>
     finite (dom (items e)) \<and>
     allocatedBytes e = of_nat (total_bytes (items e)) \<and>
     keyCount e = of_nat (card (dom (items e))) \<and>
     wheel_inv (wheel e) \<and> crypto_wf (crypto e)"

text \<open>The ceiling: the bytes really stored, not their residue modulo \<open>2 ^ 64\<close>.\<close>

definition within_ceiling :: "engine \<Rightarrow> bool" where
  "within_ceiling e \<longleftrightarrow>
     unat (maxBytes e) < 2 ^ 63 \<and> (maxBytes e > 0 \<longrightarrow> total_bytes (items e) \<le> unat (maxBytes e))"

lemma total_bytes_empty [simp]: "total_bytes Map.empty = 0"
  by (simp add: total_bytes_def)

lemma total_bytes_remove:
  assumes "finite (dom m)" "m k = Some it"
  shows "total_bytes m = total_bytes (m(k := None)) + (length k + length (Value it))"
proof -
  have "total_bytes m = (length k + length (Value it)) + (\<Sum>j\<in>dom m - {k}. length j + length (Value (the (m j))))"
    using assms by (simp add: total_bytes_def sum.remove [of "dom m" k] domI)
  also have "(\<Sum>j\<in>dom m - {k}. length j + length (Value (the (m j)))) = total_bytes (m(k := None))"
    by (auto simp: total_bytes_def intro!: sum.cong)
  finally show ?thesis by simp
qed

lemma total_bytes_put:
  assumes "finite (dom m)"
  shows "total_bytes (m(k \<mapsto> it)) = total_bytes (m(k := None)) + (length k + length (Value it))"
  using total_bytes_remove [of "m(k \<mapsto> it)" k it] assms by simp

lemma total_bytes_del_le: "finite (dom m) \<Longrightarrow> total_bytes (m(k := None)) \<le> total_bytes m"
  by (cases "m k") (simp_all add: total_bytes_remove fun_upd_idem)

lemma add_complement: "a + NOT (x - 1) = a - (x :: 'a::len word)"
  by (simp add: not_eq_complement)

lemma put_item_items [simp]: "items (put_item k it e) = (items e)(k \<mapsto> it)"
  and put_item_frame [simp]: "wheel (put_item k it e) = wheel e" "crypto (put_item k it e) = crypto e"
    "maxBytes (put_item k it e) = maxBytes e"
  by (auto simp: put_item_def Let_def split: option.splits)

lemma put_item_allocated:
  assumes "finite (dom (items e))" "allocatedBytes e = of_nat (total_bytes (items e))"
  shows "allocatedBytes (put_item k it e) = of_nat (total_bytes ((items e)(k \<mapsto> it)))"
proof (cases "items e k")
  case None
  then show ?thesis using assms
    by (simp add: put_item_def total_bytes_put fun_upd_idem Let_def)
next
  case (Some old)
  let ?a = "of_nat (length k + length (Value it)) :: uint64"
    and ?b = "of_nat (length k + length (Value old)) :: uint64"
  have "allocatedBytes (put_item k it e) = allocatedBytes e + (?a - ?b)"
    using Some by (simp add: put_item_def Let_def add_complement not_less)
  also have "\<dots> = of_nat (total_bytes ((items e)(k \<mapsto> it)))"
    using Some assms by (simp add: total_bytes_put total_bytes_remove)
  finally show ?thesis .
qed

lemma put_item_keyCount:
  assumes "finite (dom (items e))" "keyCount e = of_nat (card (dom (items e)))"
  shows "keyCount (put_item k it e) = of_nat (card (dom ((items e)(k \<mapsto> it))))"
  using assms by (auto simp: put_item_def Let_def insert_absorb domI card_insert_if split: option.splits)

lemma put_item_inv: "engine_inv e \<Longrightarrow> engine_inv (put_item k it e)"
  using put_item_allocated [of e k it] put_item_keyCount [of e k it] by (simp add: engine_inv_def)

lemma engine_inv_counters [simp]:
  "engine_inv (e\<lparr>cryptoEncryptedBytes := a\<rparr>) = engine_inv e"
  "engine_inv (e\<lparr>cryptoDecryptedBytes := a\<rparr>) = engine_inv e"
  "engine_inv (e\<lparr>expiredCount := a\<rparr>) = engine_inv e"
  "engine_inv (count_hit e) = engine_inv e"
  "engine_inv (count_miss e) = engine_inv e"
  by (simp_all add: engine_inv_def count_hit_def count_miss_def)

lemma counters_frame [simp]:
  "items (count_hit e) = items e" "crypto (count_hit e) = crypto e"
  "wheel (count_hit e) = wheel e" "maxBytes (count_hit e) = maxBytes e"
  "items (count_miss e) = items e" "crypto (count_miss e) = crypto e"
  "wheel (count_miss e) = wheel e" "maxBytes (count_miss e) = maxBytes e"
  by (simp_all add: count_hit_def count_miss_def)

lemma release_inv:
  assumes "engine_inv e" "items e k = Some it"
  shows "engine_inv (releaseKey k it (e\<lparr>items := (items e)(k := None)\<rparr>))"
proof -
  have "finite (dom (items e))" using assms by (simp add: engine_inv_def)
  moreover have "0 < card (dom (items e))"
    using assms \<open>finite (dom (items e))\<close> by (auto simp: card_gt_0_iff)
  ultimately show ?thesis
    using assms by (simp add: engine_inv_def releaseKey_def Let_def add_complement total_bytes_remove
        card_Diff_singleton domI of_nat_diff)
qed

lemma releaseKey_frame [simp]:
  "items (releaseKey k it e) = items e" "crypto (releaseKey k it e) = crypto e"
  "wheel (releaseKey k it e) = wheel e" "maxBytes (releaseKey k it e) = maxBytes e"
  by (simp_all add: releaseKey_def Let_def)

lemma register_ttl_returns:
  assumes "wheel_inv (wheel e)"
  obtains w where "register_ttl k ttl e = Returns (None, e\<lparr>wheel := w\<rparr>)" "wheel_inv w"
proof (cases "ttl > 0")
  case True
  then show thesis using that tlw.reg_law [OF assms, of k ttl] by (auto simp: register_ttl_def)
next
  case False
  then show thesis using that [of "wheel e"] assms by (simp add: register_ttl_def)
qed

text \<open>
  An accepted write of whatever entry point: the entry is in the map, nothing else of the contents
  changes, the invariant holds.
\<close>

definition stored :: "string \<Rightarrow> item \<Rightarrow> engine \<Rightarrow> engine \<Rightarrow> bool" where
  "stored k it e e' \<longleftrightarrow>
     engine_inv e' \<and> items e' = (items e)(k \<mapsto> it) \<and> crypto e' = crypto e \<and> maxBytes e' = maxBytes e"

lemma register_put_stored:
  assumes "engine_inv e"
  shows "\<exists>e'. register_ttl k ttl ((put_item k it e)\<lparr>cryptoEncryptedBytes := a\<rparr>) = Returns (None, e') \<and>
      stored k it e e'"
proof -
  let ?e = "(put_item k it e)\<lparr>cryptoEncryptedBytes := a\<rparr>"
  have inv: "engine_inv ?e" using assms by (simp add: put_item_inv)
  then obtain w where "register_ttl k ttl ?e = Returns (None, ?e\<lparr>wheel := w\<rparr>)" "wheel_inv w"
    using register_ttl_returns [of ?e k ttl] by (auto simp: engine_inv_def)
  with inv show ?thesis by (auto simp: stored_def engine_inv_def)
qed

lemma register_put_stored':
  assumes "engine_inv e"
  shows "\<exists>e'. register_ttl k ttl (put_item k it e) = Returns (None, e') \<and> stored k it e e'"
  using register_put_stored [OF assms, where k = k and it = it and a = "cryptoEncryptedBytes (put_item k it e)"] by simp

lemma Set_cases:
  assumes "engine_inv e"
  obtains (full) "engine_full e (length k + (if enabled (crypto e) then 12 + length v + 16 else length v))"
      "Set P now rnd k v ttl e = Returns (Some ErrEngineFull, e)"
    | (crypt) err where "EncryptInPlace P (crypto e) rnd v = Inl err"
      "Set P now rnd k v ttl e = Returns (Some (CryptoError err), e)"
    | (put) c e' where "EncryptInPlace P (crypto e) rnd v = Inr c"
      "\<not> engine_full e (length k + (if enabled (crypto e) then 12 + length v + 16 else length v))"
      "Set P now rnd k v ttl e = Returns (None, e')"
      "stored k \<lparr>Value = c, Expiration = deadline now ttl\<rparr> e e'"
proof (cases "engine_full e (length k + (if enabled (crypto e) then 12 + length v + 16 else length v))")
  case True
  then show thesis using full by (simp add: Set_def)
next
  case room: False
  show thesis
  proof (cases "EncryptInPlace P (crypto e) rnd v")
    case (Inl err)
    with room crypt show thesis by (simp add: Set_def Let_def)
  next
    case (Inr c)
    let ?it = "\<lparr>Value = c, Expiration = deadline now ttl\<rparr>"
    let ?e = "put_item k ?it e"
    have "\<exists>e'. Set P now rnd k v ttl e = Returns (None, e') \<and> stored k ?it e e'"
      using room Inr register_put_stored [OF assms] register_put_stored' [OF assms]
      by (auto simp: Set_def Let_def)
    with Inr room put show thesis by blast
  qed
qed

lemma SetRaw_cases:
  assumes "engine_inv e"
  obtains (full) "engine_full e (length k + length v)" "SetRaw now k v ttl e = Returns (Some ErrEngineFull, e)"
    | (put) e' where "\<not> engine_full e (length k + length v)" "SetRaw now k v ttl e = Returns (None, e')"
      "stored k \<lparr>Value = v, Expiration = deadline now ttl\<rparr> e e'"
proof (cases "engine_full e (length k + length v)")
  case True
  then show thesis using full by (simp add: SetRaw_def)
next
  case False
  with register_put_stored [OF assms] put show thesis
    by (simp add: SetRaw_def Let_def) metis
qed

lemma SetFromBuffer_cases:
  assumes "engine_inv e"
  obtains (bad) "keyLen < 0 \<or> keyLen > int (length buf)"
      "SetFromBuffer P now rnd buf keyLen ttl e = Returns (Some ErrInvalidKeyLength, e)"
    | (enc) "0 \<le> keyLen" "keyLen \<le> int (length buf)" "enabled (crypto e)"
      "SetFromBuffer P now rnd buf keyLen ttl e =
         Set P now rnd (take (nat keyLen) buf) (drop (nat keyLen) buf) ttl e"
    | (full) "0 \<le> keyLen" "keyLen \<le> int (length buf)" "\<not> enabled (crypto e)" "engine_full e (length buf)"
      "SetFromBuffer P now rnd buf keyLen ttl e = Returns (Some ErrEngineFull, e)"
    | (put) e' where "0 \<le> keyLen" "keyLen \<le> int (length buf)" "\<not> enabled (crypto e)"
      "\<not> engine_full e (length buf)" "SetFromBuffer P now rnd buf keyLen ttl e = Returns (None, e')"
      "stored (take (nat keyLen) buf) \<lparr>Value = drop (nat keyLen) buf, Expiration = deadline now ttl\<rparr> e e'"
proof (cases "keyLen < 0 \<or> keyLen > int (length buf)")
  case True
  then show thesis using bad by (simp add: SetFromBuffer_def)
next
  case range: False
  show thesis
  proof (cases "enabled (crypto e) \<or> engine_full e (length buf)")
    case True
    with range enc full show thesis by (cases "enabled (crypto e)") (simp_all add: SetFromBuffer_def Let_def)
  next
    case False
    let ?k = "take (nat keyLen) buf"
      and ?it = "\<lparr>Value = drop (nat keyLen) buf, Expiration = deadline now ttl\<rparr>"
    have "SetFromBuffer P now rnd buf keyLen ttl e = register_ttl ?k ttl (put_item ?k ?it e)"
      using range False by (simp add: SetFromBuffer_def Let_def)
    with register_put_stored' [OF assms, where k = ?k and it = ?it] range False put show thesis
      by (metis not_less)
  qed
qed

text \<open>The removals: of a key that is there, of an expired key, of a batch.\<close>

lemma Delete_inv: "engine_inv e \<Longrightarrow> engine_inv (snd (Delete now k e))"
  using release_inv [of e k] by (auto simp: Delete_def Let_def split: option.splits)

lemma Delete_items [simp]:
  "items (snd (Delete now k e)) = (items e)(k := None)" "crypto (snd (Delete now k e)) = crypto e"
  "maxBytes (snd (Delete now k e)) = maxBytes e"
  by (auto simp: Delete_def Let_def fun_upd_idem split: option.splits)

lemma deleteIfExpired_inv: "engine_inv e \<Longrightarrow> engine_inv (snd (deleteIfExpired now k e))"
  using release_inv [of e k] by (auto simp: deleteIfExpired_def split: option.splits)

lemma lazy_evict_inv: "engine_inv e \<Longrightarrow> engine_inv (lazy_evict now k e)"
  using deleteIfExpired_inv [of e now k] by (auto simp: lazy_evict_def split: prod.splits bool.splits)

definition prunes :: "int \<Rightarrow> engine \<Rightarrow> engine \<Rightarrow> bool" where
  "prunes now e e' \<longleftrightarrow>
     (\<forall>k. items e' k = items e k \<or> items e' k = None \<and> past now (Expiration (the (items e k)))) \<and>
     crypto e' = crypto e \<and> maxBytes e' = maxBytes e"

lemma prunes_refl [simp]: "prunes now e e"
  by (simp add: prunes_def)

lemma prunes_trans: "prunes now e1 e2 \<Longrightarrow> prunes now e2 e3 \<Longrightarrow> prunes now e1 e3"
  unfolding prunes_def by metis

lemma deleteIfExpired_prunes: "prunes now e (snd (deleteIfExpired now k e))"
  by (auto simp: prunes_def deleteIfExpired_def split: option.splits)

lemma lazy_evict_prunes: "prunes now e (lazy_evict now k e)"
  using deleteIfExpired_prunes [of now e k]
  by (auto simp: lazy_evict_def prunes_def split: prod.splits bool.splits)

lemma Get_inv: "engine_inv e \<Longrightarrow> engine_inv (snd (Get P now k e))"
  by (auto simp: Get_def lazy_evict_inv split: option.splits sum.splits)

lemma Get_prunes: "prunes now e (snd (Get P now k e))"
  using lazy_evict_prunes [of now e k]
  by (auto simp: Get_def prunes_def split: option.splits sum.splits)

lemma prunes_dom: "prunes now e e' \<Longrightarrow> dom (items e') \<subseteq> dom (items e)"
  by (auto simp: prunes_def dom_def) (metis option.distinct(1))

lemma GetInto_inv: "engine_inv e \<Longrightarrow> engine_inv (snd (snd (snd (GetInto P now buf bcap k e))))"
  by (auto simp: GetInto_def lazy_evict_inv split: option.splits sum.splits)

lemma GetInto_prunes: "prunes now e (snd (snd (snd (GetInto P now buf bcap k e))))"
  using lazy_evict_prunes [of now e k]
  by (auto simp: GetInto_def prunes_def split: option.splits sum.splits)

lemma batch_prunes:
  "engine_inv e \<Longrightarrow> engine_inv (foldl (\<lambda>e key. snd (deleteIfExpired now key e)) e ks) \<and>
     prunes now e (foldl (\<lambda>e key. snd (deleteIfExpired now key e)) e ks)"
  by (induction ks arbitrary: e)
    (simp, metis (no_types, lifting) foldl_Cons deleteIfExpired_inv deleteIfExpired_prunes prunes_trans)

lemma engine_tick_returns:
  assumes "engine_inv e"
  shows "\<exists>e'. engine_tick now e = Returns e' \<and> engine_inv e' \<and> prunes now e e'"
proof -
  obtain b w where w: "wheel_tick (wheel e) = Returns (b, w)" "wheel_inv w"
    using tlw.tick_law [of "wheel e"] assms by (auto simp: engine_inv_def)
  then have "engine_inv (e\<lparr>wheel := w\<rparr>)" using assms by (simp add: engine_inv_def)
  from batch_prunes [OF this, of now b] w show ?thesis
    by (auto simp: engine_tick_def prunes_def)
qed

section \<open>The memory ceiling\<close>

lemma not_full_bound:
  assumes "within_ceiling e" "engine_inv e" "\<not> engine_full e n" "n < 2 ^ 63" "maxBytes e > 0"
  shows "total_bytes (items e) + n \<le> unat (maxBytes e)"
proof -
  have tb: "total_bytes (items e) \<le> unat (maxBytes e)" "unat (maxBytes e) < 2 ^ 63"
    using assms by (auto simp: within_ceiling_def)
  then have "unat (of_nat (total_bytes (items e) + n) :: uint64) = total_bytes (items e) + n"
    using assms(4) by (intro unat_of_nat_less) simp
  moreover have "of_nat (total_bytes (items e) + n) \<le> maxBytes e"
    using assms(2,3,5) by (simp add: engine_full_def engine_inv_def not_less)
  ultimately show ?thesis by (simp add: word_le_nat_alt)
qed

lemma stored_ceiling:
  assumes "stored k it e e'" "within_ceiling e" "engine_inv e"
    and "\<not> engine_full e (length k + length (Value it))" "length k + length (Value it) < 2 ^ 63"
  shows "within_ceiling e'"
proof -
  have fin: "finite (dom (items e))" using assms(3) by (simp add: engine_inv_def)
  have "maxBytes e > 0 \<Longrightarrow> total_bytes ((items e)(k \<mapsto> it)) \<le> unat (maxBytes e)"
    using not_full_bound [OF assms(2,3,4,5)] total_bytes_del_le [OF fin, of k]
    by (simp add: total_bytes_put [OF fin])
  with assms(1,2) show ?thesis by (simp add: stored_def within_ceiling_def)
qed

lemma sub_map_total_bytes:
  assumes "finite (dom m)" "\<And>k. m' k = m k \<or> m' k = None"
  shows "total_bytes m' \<le> total_bytes m"
proof -
  have eq: "m' k = m k" if "k \<in> dom m'" for k using assms(2) [of k] that by auto
  then have "total_bytes m' = (\<Sum>k\<in>dom m'. length k + length (Value (the (m k))))"
    by (auto simp: total_bytes_def intro!: sum.cong)
  moreover have "dom m' \<subseteq> dom m" using eq by (metis domIff subsetI)
  ultimately show ?thesis
    using assms(1) by (simp add: total_bytes_def sum_mono2)
qed

lemma prunes_ceiling:
  assumes "prunes now e e'" "within_ceiling e" "engine_inv e"
  shows "within_ceiling e'"
proof -
  have "total_bytes (items e') \<le> total_bytes (items e)"
    by (rule sub_map_total_bytes) (use assms in \<open>auto simp: engine_inv_def prunes_def\<close>)
  with assms show ?thesis by (auto simp: within_ceiling_def prunes_def)
qed

section \<open>The engine as a step system\<close>

datatype engine_op =
    OpSet "bytes option" string bytes duration
  | OpSetFromBuffer "bytes option" bytes int duration
  | OpSetRaw string bytes duration
  | OpGet string
  | OpGetInto bytes nat string
  | OpDelete string
  | OpTick
  | OpClose

fun engine_exec :: "prims \<Rightarrow> int \<Rightarrow> engine_op \<Rightarrow> engine \<Rightarrow> engine go" where
  "engine_exec P now (OpSet rnd k v ttl) e = go_bind (Set P now rnd k v ttl e) (\<lambda>(r, e'). Returns e')"
| "engine_exec P now (OpSetFromBuffer rnd buf n ttl) e =
     go_bind (SetFromBuffer P now rnd buf n ttl e) (\<lambda>(r, e'). Returns e')"
| "engine_exec P now (OpSetRaw k v ttl) e = go_bind (SetRaw now k v ttl e) (\<lambda>(r, e'). Returns e')"
| "engine_exec P now (OpGet k) e = Returns (snd (Get P now k e))"
| "engine_exec P now (OpGetInto buf c k) e = Returns (snd (snd (snd (GetInto P now buf c k e))))"
| "engine_exec P now (OpDelete k) e = Returns (snd (Delete now k e))"
| "engine_exec P now OpTick e = engine_tick now e"
| "engine_exec P now OpClose e = Returns (Close e)"

text \<open>
  What holds of the arguments of any call: a drawn nonce has the AEAD's size, and Go byte slices
  are shorter than \<open>2 ^ 62\<close>.
\<close>

fun op_ok :: "engine_op \<Rightarrow> bool" where
  "op_ok (OpSet rnd k v ttl) \<longleftrightarrow> (\<forall>n. rnd = Some n \<longrightarrow> length n = NonceSize) \<and> length k + length v < 2 ^ 62"
| "op_ok (OpSetFromBuffer rnd buf n ttl) \<longleftrightarrow> (\<forall>n. rnd = Some n \<longrightarrow> length n = NonceSize) \<and> length buf < 2 ^ 62"
| "op_ok (OpSetRaw k v ttl) \<longleftrightarrow> length k + length v < 2 ^ 62"
| "op_ok op \<longleftrightarrow> True"

definition engine_step :: "prims \<Rightarrow> engine \<Rightarrow> engine \<Rightarrow> bool" where
  "engine_step P e e' \<longleftrightarrow> (\<exists>now op. op_ok op \<and> engine_exec P now op e = Returns e')"

lemma engine_stepI: "op_ok op \<Longrightarrow> engine_exec P now op e = Returns e' \<Longrightarrow> engine_step P e e'"
  by (auto simp: engine_step_def)

definition engine_init :: "prims \<Rightarrow> engine \<Rightarrow> bool" where
  "engine_init P e \<longleftrightarrow> aead_laws P \<and>
     (\<exists>w iv n mb ce. e = NewEngine w iv n mb ce \<and> unat n \<le> MaxSlots \<and> unat mb < 2 ^ 63 \<and>
        (\<forall>c. ce = Some c \<longrightarrow> crypto_wf c))"

definition engine_good :: "prims \<Rightarrow> engine \<Rightarrow> bool" where
  "engine_good P e \<longleftrightarrow> aead_laws P \<and> engine_inv e \<and> within_ceiling e"

lemma NewEngine_wheel: "unat n \<le> MaxSlots \<Longrightarrow> wheel_inv (wheel (NewEngine w iv n mb ce))"
  by (simp add: NewEngine_def NewChronometer_inv word_gt_0)

lemma NewEngine_inv:
  assumes "unat n \<le> MaxSlots" "\<forall>c. ce = Some c \<longrightarrow> crypto_wf c"
  shows "engine_inv (NewEngine w iv n mb ce)"
proof -
  have "crypto_wf (crypto (NewEngine w iv n mb ce))"
    using assms(2) by (simp add: NewEngine_def disabled_crypto_def crypto_wf_def split: option.split)
  with NewEngine_wheel [OF assms(1), of w iv mb ce] show ?thesis
    unfolding engine_inv_def by (simp add: NewEngine_def)
qed

lemma NewEngine_ceiling: "unat mb < 2 ^ 63 \<Longrightarrow> within_ceiling (NewEngine w iv n mb ce)"
  by (simp add: within_ceiling_def NewEngine_def defaultMaxBytes_def)

lemma NewEngine_good: "engine_init P e \<Longrightarrow> engine_good P e"
  using NewEngine_inv NewEngine_ceiling unfolding engine_init_def engine_good_def by blast

lemma Set_good:
  assumes good: "engine_good P e" and "\<forall>n. rnd = Some n \<longrightarrow> length n = NonceSize"
    and len: "length k + length v < 2 ^ 62"
  shows "\<exists>r e'. Set P now rnd k v ttl e = Returns (r, e') \<and> engine_good P e'"
proof -
  have inv: "engine_inv e" "aead_laws P" "crypto_wf (crypto e)"
    using good by (auto simp: engine_good_def engine_inv_def)
  show ?thesis
  proof (cases rule: Set_cases [OF inv(1), of k v P now rnd ttl])
    case (3 c e')
    have "length c = (if enabled (crypto e) then 12 + length v + 16 else length v)"
      using EncryptInPlace_length [OF inv(2,3) assms(2) 3(1)] .
    then have "within_ceiling e'"
      using stored_ceiling [OF 3(4)] 3(2) good len by (auto simp: engine_good_def split: if_splits)
    with 3 inv show ?thesis by (auto simp: engine_good_def stored_def)
  qed (use good in auto)
qed

lemma SetFromBuffer_good:
  assumes good: "engine_good P e" and "\<forall>n. rnd = Some n \<longrightarrow> length n = NonceSize"
    and len: "length buf < 2 ^ 62"
  shows "\<exists>r e'. SetFromBuffer P now rnd buf n ttl e = Returns (r, e') \<and> engine_good P e'"
proof -
  have inv: "engine_inv e" using good by (simp add: engine_good_def)
  show ?thesis
  proof (cases rule: SetFromBuffer_cases [OF inv, of n buf P now rnd ttl])
    case 2
    moreover have "length (take (nat n) buf) + length (drop (nat n) buf) < 2 ^ 62" using len by simp
    ultimately show ?thesis using Set_good [OF good assms(2)] by metis
  next
    case (4 e')
    then have "within_ceiling e'"
      using stored_ceiling [OF 4(6)] good len by (auto simp: engine_good_def)
    with 4 good show ?thesis by (auto simp: engine_good_def stored_def)
  qed (use good in auto)
qed

lemma SetRaw_good:
  assumes good: "engine_good P e" and len: "length k + length v < 2 ^ 62"
  shows "\<exists>r e'. SetRaw now k v ttl e = Returns (r, e') \<and> engine_good P e'"
proof -
  have inv: "engine_inv e" using good by (simp add: engine_good_def)
  show ?thesis
  proof (cases rule: SetRaw_cases [OF inv, of k v now ttl])
    case (2 e')
    then have "within_ceiling e'"
      using stored_ceiling [OF 2(3)] good len by (auto simp: engine_good_def)
    with 2 good show ?thesis by (auto simp: engine_good_def stored_def)
  qed (use good in auto)
qed

lemma prunes_good: "engine_good P e \<Longrightarrow> prunes now e e' \<Longrightarrow> engine_inv e' \<Longrightarrow> engine_good P e'"
  using prunes_ceiling by (auto simp: engine_good_def)

lemma Delete_good: "engine_good P e \<Longrightarrow> engine_good P (snd (Delete now k e))"
  using Delete_inv [of e now k] total_bytes_del_le [of "items e" k]
  by (auto simp: engine_good_def within_ceiling_def engine_inv_def)

lemma Close_good: "engine_good P e \<Longrightarrow> engine_good P (Close e)"
  by (cases "wheel e") (auto simp: engine_good_def within_ceiling_def engine_inv_def Close_def Stop_def chron_inv_def)

lemma engine_exec_good:
  assumes "engine_good P e" "op_ok op"
  shows "\<exists>e'. engine_exec P now op e = Returns e' \<and> engine_good P e'"
proof -
  have inv: "engine_inv e" using assms by (simp add: engine_good_def)
  show ?thesis
  proof (cases op)
    case (OpSet rnd k v ttl)
    with assms Set_good [OF assms(1), of rnd k v now ttl] show ?thesis by auto
  next
    case (OpSetFromBuffer rnd buf n ttl)
    with assms SetFromBuffer_good [OF assms(1), of rnd buf now n ttl] show ?thesis by auto
  next
    case (OpSetRaw k v ttl)
    with assms SetRaw_good [OF assms(1), of k v now ttl] show ?thesis by auto
  next
    case OpTick
    then show ?thesis using engine_tick_returns [OF inv, of now] prunes_good [OF assms(1)] by auto
  qed (simp_all add: assms(1) inv Delete_good Close_good
      prunes_good [OF assms(1) Get_prunes Get_inv] prunes_good [OF assms(1) GetInto_prunes GetInto_inv])
qed

interpretation esys: step_system "engine_init P" "engine_step P" "engine_good P" for P
proof
  show "engine_good P t" if "engine_good P s" "engine_step P s t" for s t
    using that engine_exec_good unfolding engine_step_def by (metis go.inject)
qed (rule NewEngine_good)

section \<open>The engine as a store\<close>

definition engine_view :: "prims \<Rightarrow> engine \<Rightarrow> int \<Rightarrow> string \<Rightarrow> bytes option" where
  "engine_view P e t k =
     (case items e k of
        None \<Rightarrow> None
      | Some it \<Rightarrow>
          if past t (Expiration it) then None
          else (case DecryptInPlaceWithDst P (crypto e) (Value it) of Inl err \<Rightarrow> None | Inr v \<Rightarrow> Some v))"

text \<open>Every stored value opens under the engine's key: what \<^verbatim>\<open>Set\<close> wrote it did seal.\<close>

definition decodable :: "prims \<Rightarrow> engine \<Rightarrow> bool" where
  "decodable P e \<longleftrightarrow>
     (\<forall>k it. items e k = Some it \<longrightarrow> (\<exists>v. DecryptInPlaceWithDst P (crypto e) (Value it) = Inr v))"

definition store_ok :: "prims \<Rightarrow> engine \<Rightarrow> bool" where
  "store_ok P e \<longleftrightarrow> aead_laws P \<and> engine_inv e \<and> decodable P e"

type_synonym engine_env = "int \<times> bytes option"

definition nonce_ok :: "engine_env \<Rightarrow> bool" where
  "nonce_ok v \<longleftrightarrow> (\<forall>n. snd v = Some n \<longrightarrow> length n = NonceSize)"

definition engine_get :: "prims \<Rightarrow> engine_env \<Rightarrow> string \<Rightarrow> engine \<Rightarrow> (bytes option \<times> engine) go" where
  "engine_get P v k e = Returns (Get P (fst v) k e)"

definition engine_set :: "prims \<Rightarrow> engine_env \<Rightarrow> string \<Rightarrow> bytes \<Rightarrow> duration \<Rightarrow> engine \<Rightarrow>
    (storage_error option \<times> engine) go" where
  "engine_set P v k x ttl e = Set P (fst v) (snd v) k x ttl e"

definition engine_del :: "engine_env \<Rightarrow> string \<Rightarrow> engine \<Rightarrow> (bool \<times> engine) go" where
  "engine_del v k e = Returns (Delete (fst v) k e)"

lemma prunes_view: "prunes now e e' \<Longrightarrow> now \<le> t \<Longrightarrow> engine_view P e' t = engine_view P e t"
proof
  fix k
  assume p: "prunes now e e'" and t: "now \<le> t"
  then have "items e' k = items e k \<or> items e' k = None \<and> past now (Expiration (the (items e k)))"
    and "crypto e' = crypto e" by (auto simp: prunes_def)
  then show "engine_view P e' t k = engine_view P e t k"
    using t by (auto simp: engine_view_def past_def split: option.splits)
qed

lemma prunes_ok: "store_ok P e \<Longrightarrow> prunes now e e' \<Longrightarrow> engine_inv e' \<Longrightarrow> store_ok P e'"
  unfolding store_ok_def decodable_def prunes_def by (metis option.distinct(1))

lemma Get_result: "fst (Get P now k e) = engine_view P e now k"
  by (auto simp: Get_def engine_view_def DecryptInPlaceWithDst_def split: option.splits sum.splits)

lemma Delete_result: "decodable P e \<Longrightarrow> fst (Delete now k e) = (engine_view P e now k \<noteq> None)"
  by (fastforce simp: Delete_def engine_view_def decodable_def Let_def split: option.splits sum.splits)

lemma stored_view:
  assumes "stored k \<lparr>Value = c, Expiration = x\<rparr> e e'" "DecryptInPlaceWithDst P (crypto e) c = Inr v"
  shows "engine_view P e' t = (engine_view P e t)(k := if past t x then None else Some v)"
  using assms by (intro ext) (auto simp: stored_def engine_view_def split: option.split)

lemma stored_ok:
  assumes "store_ok P e" "stored k \<lparr>Value = c, Expiration = x\<rparr> e e'"
    and "DecryptInPlaceWithDst P (crypto e) c = Inr v"
  shows "store_ok P e'"
  using assms by (auto simp: store_ok_def stored_def decodable_def)

interpretation estore: kv_store "engine_get P" "engine_set P" engine_del fst nonce_ok "store_ok P" "engine_view P" for P
proof
  fix e :: engine and v :: engine_env and k
  assume ok: "store_ok P e" and env: "nonce_ok v"
  then have inv: "engine_inv e" "aead_laws P" "crypto_wf (crypto e)" "decodable P e"
    by (auto simp: store_ok_def engine_inv_def)
  let ?g = "Get P (fst v) k e"
  have "store_ok P (snd ?g)" "\<forall>t\<ge>fst v. engine_view P (snd ?g) t = engine_view P e t"
    using prunes_ok [OF ok Get_prunes Get_inv [OF inv(1)]] prunes_view [OF Get_prunes] by auto
  then show "\<exists>e'. engine_get P v k e = Returns (engine_view P e (fst v) k, e') \<and> store_ok P e' \<and>
      (\<forall>t\<ge>fst v. engine_view P e' t = engine_view P e t)"
    unfolding engine_get_def by (intro exI [of _ "snd ?g"]) (simp add: prod_eq_iff Get_result)
  show "\<exists>e'. engine_del v k e = Returns (engine_view P e (fst v) k \<noteq> None, e') \<and> store_ok P e' \<and>
      (\<forall>t\<ge>fst v. engine_view P e' t = (engine_view P e t)(k := None))"
  proof -
    let ?e = "snd (Delete (fst v) k e)"
    have "store_ok P ?e" using ok Delete_inv [OF inv(1)] by (auto simp: store_ok_def decodable_def)
    moreover have "engine_view P ?e t = (engine_view P e t)(k := None)" for t
      by (intro ext) (auto simp: engine_view_def split: option.split)
    moreover have "Delete (fst v) k e = (engine_view P e (fst v) k \<noteq> None, ?e)"
      by (simp add: prod_eq_iff Delete_result [OF inv(4)])
    ultimately show ?thesis
      unfolding engine_del_def by (intro exI [of _ ?e]) simp
  qed
  fix x :: bytes and ttl :: duration
  have nonce: "\<forall>n. snd v = Some n \<longrightarrow> length n = NonceSize" using env by (simp add: nonce_ok_def)
  show "\<exists>r e'. engine_set P v k x ttl e = Returns (r, e') \<and> store_ok P e' \<and>
      (\<forall>t\<ge>fst v. engine_view P e' t =
         (if r = None then (engine_view P e t)(k := if past t (deadline (fst v) ttl) then None else Some x)
          else engine_view P e t))"
  proof (cases rule: Set_cases [OF inv(1), of k x P "fst v" "snd v" ttl])
    case (3 c e')
    note dec = DecryptInPlaceWithDst_EncryptInPlace [OF inv(2,3) nonce 3(1)]
    show ?thesis
      using stored_ok [OF ok 3(4) dec] stored_view [OF 3(4) dec] 3(3) by (auto simp: engine_set_def)
  qed (use ok in \<open>auto simp: engine_set_def\<close>)
qed

section \<open>Properties\<close>


definition engine0 :: engine where
  "engine0 = NewEngine 64 0 0 100 None"

lemma engine_init_NewEngine:
  "aead_laws P \<Longrightarrow> unat n \<le> MaxSlots \<Longrightarrow> unat mb < 2 ^ 63 \<Longrightarrow> (\<And>c. ce = Some c \<Longrightarrow> crypto_wf c) \<Longrightarrow>
     engine_init P (NewEngine w iv n mb ce)"
  unfolding engine_init_def by blast

lemma engine0_reach: "reach (engine_init plain_prims) (engine_step plain_prims) engine0"
  unfolding engine0_def by (intro reach_init engine_init_NewEngine) simp_all


text \<open>
  C31. With at most \<^verbatim>\<open>MaxSlots\<close> eviction slots no operation of the engine panics in
  any reachable state, and the state it returns is reachable again.
\<close>

theorem engine_never_panics:
  assumes "reach (engine_init P) (engine_step P) e" "op_ok op"
  shows "\<exists>e'. engine_exec P now op e = Returns e' \<and> reach (engine_init P) (engine_step P) e'"
proof -
  obtain e' where "engine_exec P now op e = Returns e'"
    using engine_exec_good [OF esys.reach_inv [OF assms(1)] assms(2)] by blast
  moreover from this have "engine_step P e e'" using assms(2) by (auto simp: engine_step_def)
  ultimately show ?thesis using reach_step [OF assms(1)] by blast
qed

theorem engine_never_panics_witness:
  "\<exists>e'. engine_exec plain_prims 7 (OpSet None ''k'' ''v'' 5) engine0 = Returns e'"
  using engine_never_panics [OF engine0_reach, of "OpSet None ''k'' ''v'' 5" 7] by auto

text \<open>
  C8. The engine refines the timed map: for operations at non-decreasing times on an engine whose
  contents agree with a timed map from \<open>t0\<close> on, every result of \<^verbatim>\<open>Get\<close>,
  \<^verbatim>\<open>Set\<close> and \<^verbatim>\<open>Delete\<close> is the one the timed map allows (values after
  their time to live are absent, encryption is invisible, a refused write changes nothing), and
  the contents agree with the updated map afterwards.
\<close>

theorem engine_refines_timed_map:
  assumes "store_ok P e" "\<forall>v\<in>fst ` set ops. nonce_ok v" "\<forall>t\<ge>t0. engine_view P e t = lookup_at m t"
    and "times_from t0 (map (fst \<circ> fst) ops)"
  shows "\<exists>tr e' m'. run_ops (engine_get P) (engine_set P) engine_del fst ops e = Returns (tr, e') \<and>
      store_ok P e' \<and> spec_trace tr m = Some m' \<and> (\<exists>t1\<ge>t0. \<forall>t\<ge>t1. engine_view P e' t = lookup_at m' t)"
  using estore.trace_refines [OF assms] .

definition engine_enc :: engine where
  "engine_enc = NewEngine 64 10 4 1000
     (Some \<lparr>aead_key = replicate 32 (CHR 0x07), keyFingerprint = [], enabled = True\<rparr>)"

lemma engine_enc_ok: "store_ok plain_prims engine_enc"
proof -
  have "engine_inv engine_enc"
    unfolding engine_enc_def by (rule NewEngine_inv) (simp_all add: MaxSlots_def crypto_wf_def)
  then show ?thesis
    by (simp add: store_ok_def decodable_def engine_enc_def NewEngine_def)
qed

theorem engine_refines_timed_map_witness:
  "\<exists>tr e' m'. run_ops (engine_get plain_prims) (engine_set plain_prims) engine_del fst
      [((0, Some (replicate 12 (CHR 0x01))), KSet ''k'' ''v'' 5), ((3, None), KGet ''k''), ((9, None), KGet ''k''),
       ((9, None), KDel ''k'')] engine_enc = Returns (tr, e') \<and>
      spec_trace tr Map.empty = Some m'"
proof -
  have "\<forall>t\<ge>0. engine_view plain_prims engine_enc t = lookup_at Map.empty t"
    by (auto simp: engine_view_def lookup_at_def engine_enc_def NewEngine_def fun_eq_iff)
  from engine_refines_timed_map [OF engine_enc_ok _ this, of
      "[((0, Some (replicate 12 (CHR 0x01))), KSet ''k'' ''v'' 5), ((3, None), KGet ''k''), ((9, None), KGet ''k''),
       ((9, None), KDel ''k'')]"]
  show ?thesis by (simp only: nonce_ok_def) fastforce
qed

end
