(* ===== verification/Stream_Codec.thy ===== *)
theory Stream_Codec
  imports Tellstone_Prelude "HOL-Library.Sublist"
begin

text \<open>
  The contract every self-delimiting byte format of the program meets: log records, sealed log
  frames, snapshot entries, protocol frames. A decoder reads one item off the front of a stream and
  reports how many bytes it took; it gives nothing on a proper prefix of an item (a write a crash cut
  short, a frame still in flight). From that contract follow, once, the round trip of whole streams
  and the handling of a torn tail.
\<close>

function decode_all :: "(bytes \<Rightarrow> ('a \<times> nat) option) \<Rightarrow> bytes \<Rightarrow> 'a list \<times> bytes" where
  "decode_all dec b =
     (case dec b of
        None \<Rightarrow> ([], b)
      | Some (x, n) \<Rightarrow>
          if 0 < n \<and> n \<le> length b then (let (xs, r) = decode_all dec (drop n b) in (x # xs, r)) else ([], b))"
  by pat_completeness auto
termination
  by (relation "measure (\<lambda>(dec, b). length b)") auto

declare decode_all.simps [simp del]

locale stream_codec =
  fixes enc :: "'a \<Rightarrow> bytes" and dec :: "bytes \<Rightarrow> ('a \<times> nat) option" and ok :: "'a \<Rightarrow> bool"
  assumes dec_enc: "ok x \<Longrightarrow> dec (enc x @ rest) = Some (x, length (enc x))"
    and dec_torn: "ok x \<Longrightarrow> strict_prefix p (enc x) \<Longrightarrow> dec p = None"
    and enc_nonempty: "ok x \<Longrightarrow> enc x \<noteq> []"
begin

definition torn :: "bytes \<Rightarrow> bool" where
  "torn p \<longleftrightarrow> p = [] \<or> (\<exists>x. ok x \<and> strict_prefix p (enc x))"

lemma dec_Nil: "ok x \<Longrightarrow> dec [] = None"
  using dec_torn [of x "[]"] enc_nonempty [of x] by (cases "enc x") (auto simp: strict_prefix_def)

lemma decode_torn: "torn p \<Longrightarrow> (p = [] \<Longrightarrow> dec [] = None) \<Longrightarrow> decode_all dec p = ([], p)"
  using dec_torn by (subst decode_all.simps) (auto simp: torn_def)

lemma decode_all_one: "ok x \<Longrightarrow> dec rest = None \<Longrightarrow> decode_all dec (enc x @ rest) = ([x], rest)"
proof -
  assume "ok x" "dec rest = None"
  moreover have "decode_all dec rest = ([], rest)"
    by (subst decode_all.simps) (simp add: \<open>dec rest = None\<close>)
  ultimately show ?thesis
    by (subst decode_all.simps) (simp add: dec_enc enc_nonempty)
qed

lemma decode_all_enc:
  assumes "list_all ok xs" "torn p" "dec [] = None"
  shows "decode_all dec (concat (map enc xs) @ p) = (xs, p)"
  using assms(1)
proof (induction xs)
  case Nil
  then show ?case using decode_torn assms(2,3) by simp
next
  case (Cons x xs)
  then have "0 < length (enc x)" using enc_nonempty by simp
  with Cons show ?case
    by (subst decode_all.simps) (simp add: dec_enc del: length_greater_0_conv)
qed

text \<open>Two streams of items with the same bytes are the same stream.\<close>

lemma enc_stream_inj:
  assumes "list_all ok xs" "list_all ok ys" "dec [] = None" "concat (map enc xs) = concat (map enc ys)"
  shows "xs = ys"
  using decode_all_enc [OF assms(1) _ assms(3), of "[]"] decode_all_enc [OF assms(2) _ assms(3), of "[]"] assms(4)
  by (simp add: torn_def)

lemma take_enc_torn: "ok x \<Longrightarrow> n < length (enc x) \<Longrightarrow> torn (take n (enc x))"
proof -
  assume "ok x" and n: "n < length (enc x)"
  then have "length (take n (enc x)) \<noteq> length (enc x)" by simp
  then have "strict_prefix (take n (enc x)) (enc x)"
    unfolding strict_prefix_def using take_is_prefix by metis
  with \<open>ok x\<close> show ?thesis by (auto simp: torn_def)
qed

end

end
