(* ===== verification/Wal_Record.thy ===== *)
theory Wal_Record
  imports Storage_Engine Stream_Codec
begin

text \<open>
  The record layout the write-ahead log and the snapshot file share
  (\<^verbatim>\<open>src/internal/persistence\<close>): key length and value length as little-endian
  32 bit integers, the expiration in nanoseconds as a little-endian 64 bit integer, then the key
  and the value.
\<close>

text \<open>\<^verbatim>\<open>uint64(ttlNano)\<close> and back, and \<^verbatim>\<open>expiration.UnixNano()\<close> (zero for no expiration).\<close>

definition ttl_bits :: "int \<Rightarrow> nat" where
  "ttl_bits x = nat (x mod 2 ^ 64)"

definition ttl_of_bits :: "nat \<Rightarrow> int" where
  "ttl_of_bits n = int64 (int n)"

definition unix_nano :: "gotime \<Rightarrow> int" where
  "unix_nano t = (case t of None \<Rightarrow> 0 | Some x \<Rightarrow> int64 x)"

text \<open>\<^verbatim>\<open>time.Until(time.Unix(0, ttlNano))\<close>: the subtraction saturates.\<close>

definition until :: "int \<Rightarrow> int \<Rightarrow> duration" where
  "until now ttlNano = sat64 (ttlNano - now)"

type_synonym wal_rec = "int \<times> string \<times> bytes"

definition rec_header :: "string \<Rightarrow> bytes \<Rightarrow> int \<Rightarrow> bytes" where
  "rec_header key v ttl = le_bytes 4 (length key) @ le_bytes 4 (length v) @ le_bytes 8 (ttl_bits ttl)"

fun encode_rec :: "wal_rec \<Rightarrow> bytes" where
  "encode_rec (ttl, key, v) = rec_header key v ttl @ key @ v"

definition header_keyLen :: "bytes \<Rightarrow> nat" where "header_keyLen h = le_nat (take 4 h)"

definition header_valLen :: "bytes \<Rightarrow> nat" where "header_valLen h = le_nat (take 4 (drop 4 h))"

definition header_ttl :: "bytes \<Rightarrow> int" where "header_ttl h = ttl_of_bits (le_nat (take 8 (drop 8 h)))"

text \<open>
  One record off the front of the remaining file: nothing when the header or the announced key and
  value are cut short.
\<close>

definition decode_rec :: "bytes \<Rightarrow> (wal_rec \<times> nat) option" where
  "decode_rec f =
     (if length f < 16 then None
      else let keyLen = header_keyLen f; valLen = header_valLen f in
        if keyLen + valLen > length f - 16 then None
        else Some ((header_ttl f, take keyLen (drop 16 f), take valLen (drop (16 + keyLen) f)),
                   16 + keyLen + valLen))"

definition rec_ok :: "wal_rec \<Rightarrow> bool" where
  "rec_ok r \<longleftrightarrow> length (fst (snd r)) < 2 ^ 32 \<and> length (snd (snd r)) < 2 ^ 32 \<and>
     - (2 ^ 63) \<le> fst r \<and> fst r < 2 ^ 63"

lemma ttl_of_ttl_bits [codec_simps]: "- (2 ^ 63) \<le> x \<Longrightarrow> x < 2 ^ 63 \<Longrightarrow> ttl_of_bits (ttl_bits x) = x"
proof -
  assume "- (2 ^ 63) \<le> x" "x < 2 ^ 63"
  moreover have "(x mod 2 ^ 64 + 2 ^ 63) mod 2 ^ 64 = (x + 2 ^ 63) mod 2 ^ 64"
    by (rule mod_add_left_eq)
  ultimately show ?thesis by (simp add: ttl_of_bits_def ttl_bits_def int64_def)
qed

lemma ttl_bits_bound: "ttl_bits x < 256 ^ 8"
  by (simp add: ttl_bits_def nat_less_iff)

lemma length_rec_header [simp]: "length (rec_header k v ttl) = 16"
  by (simp add: rec_header_def)

lemma length_encode_rec: "length (encode_rec (ttl, k, v)) = 16 + length k + length v"
  by simp

lemma header_fields [codec_simps]:
  assumes "rec_ok (ttl, k, v)"
  shows "header_keyLen (rec_header k v ttl @ r) = length k"
    and "header_valLen (rec_header k v ttl @ r) = length v"
    and "header_ttl (rec_header k v ttl @ r) = ttl"
  using assms
  by (simp_all add: rec_ok_def header_keyLen_def header_valLen_def header_ttl_def rec_header_def
      le_nat_id ttl_bits_bound [simplified] ttl_of_ttl_bits)

lemma rec_header_prefix:
  assumes "strict_prefix p (encode_rec (ttl, k, v))" "16 \<le> length p"
  obtains q where "p = rec_header k v ttl @ q" "length q < length k + length v"
proof -
  obtain z where z: "encode_rec (ttl, k, v) = p @ z" "z \<noteq> []"
    using assms(1) by (auto simp: strict_prefix_def prefix_def)
  have "take 16 p = rec_header k v ttl"
    using arg_cong [OF z(1), of "take 16"] assms(2) by simp
  then have "p = rec_header k v ttl @ drop 16 p" by (metis append_take_drop_id)
  moreover have "length p < 16 + length k + length v"
    using arg_cong [OF z(1), of length] z(2) by (cases z) simp_all
  ultimately show thesis using that [of "drop 16 p"] assms(2) by simp
qed

interpretation rcodec: stream_codec encode_rec decode_rec rec_ok
proof
  fix x :: wal_rec and rest p
  assume ok: "rec_ok x"
  obtain ttl k v where x: "x = (ttl, k, v)" by (cases x)
  show "decode_rec (encode_rec x @ rest) = Some (x, length (encode_rec x))"
    using ok by (simp add: x decode_rec_def header_fields Let_def)
  show "encode_rec x \<noteq> []"
    using length_encode_rec [of ttl k v] x by (metis add_is_0 list.size(3) zero_neq_numeral)
  assume pre: "strict_prefix p (encode_rec x)"
  show "decode_rec p = None"
  proof (cases "length p < 16")
    case False
    with pre x obtain q where "p = rec_header k v ttl @ q" "length q < length k + length v"
      using rec_header_prefix [of p ttl k v] by auto
    with ok x show ?thesis by (simp add: decode_rec_def header_fields Let_def)
  qed (simp add: decode_rec_def)
qed

lemma decode_rec_progress: "decode_rec f = Some (r, n) \<Longrightarrow> 0 < n \<and> n \<le> length f"
  by (auto simp: decode_rec_def Let_def split: if_splits)

lemma decode_rec_Nil [simp]: "decode_rec [] = None"
  by (simp add: decode_rec_def)

lemma until_pos_iff [simp]: "0 < until now x \<longleftrightarrow> now < x"
  by (simp add: until_def)

lemma until_le_iff [simp]: "until now x \<le> 0 \<longleftrightarrow> x \<le> now"
  using until_pos_iff [of now x] by (simp only: not_less [symmetric])

lemma deadline_until: "now < x \<Longrightarrow> 0 \<le> now \<Longrightarrow> x < 2 ^ 63 \<Longrightarrow> deadline now (until now x) = Some x"
  by (simp add: deadline_def until_def sat64_def)

end
