(* ===== verification/Snapshot.thy ===== *)
theory Snapshot
  imports Wal_Record
begin

text \<open>
  \<^verbatim>\<open>src/internal/persistence/snapshot.go\<close>: the binary snapshot of a shard's engine.
  The checksum (\<^verbatim>\<open>github.com/cespare/xxhash\<close>) is the parameter \<open>H\<close>, a function of
  the bytes written to the hash. A fault of a system call shows only in whether it strikes before
  or after the rename that publishes the file.
\<close>

datatype snap_error =
    SnapIO | SnapHeader | SnapMagic | SnapVersion | SnapFingerprint | SnapEntry | SnapChecksum
  | SnapEngine storage_error

datatype fault = NoFault | FaultBefore | FaultAfter

definition snapMagic :: bytes where "snapMagic = ''TSNS''"

definition zeros :: "nat \<Rightarrow> bytes" where "zeros n = replicate n (CHR 0x00)"

section \<open>Writing\<close>

definition snap_header :: "int \<Rightarrow> bytes \<Rightarrow> nat \<Rightarrow> nat \<Rightarrow> bytes" where
  "snap_header createdAt fp nkeys checksum =
     snapMagic @ le_bytes 4 2 @ le_bytes 8 nkeys @ le_bytes 8 (ttl_bits createdAt) @ le_bytes 8 checksum @ fp"

definition buildSnapshotHeader :: "int \<Rightarrow> bytes \<Rightarrow> bytes" where
  "buildSnapshotHeader createdAt fp = snap_header createdAt fp 0 0"

definition entry_rec :: "string \<times> bytes \<times> gotime \<Rightarrow> wal_rec" where
  "entry_rec x = (case x of (key, v, expiration) \<Rightarrow> (unix_nano expiration, key, v))"

definition serializeEngineToWriter :: "int \<Rightarrow> string list \<Rightarrow> engine \<Rightarrow> bytes" where
  "serializeEngineToWriter now ord e = concat (map (encode_rec \<circ> entry_rec) (ForEach now ord e))"

definition snapshot_file :: "(bytes \<Rightarrow> uint64) \<Rightarrow> int \<Rightarrow> bytes \<Rightarrow> nat \<Rightarrow> bytes \<Rightarrow> bytes" where
  "snapshot_file H createdAt fp nkeys entries =
     snap_header createdAt fp nkeys (unat (H (buildSnapshotHeader createdAt fp @ entries))) @ entries"

definition publish :: "fault \<Rightarrow> bytes \<Rightarrow> bytes option \<Rightarrow> bytes option" where
  "publish flt file old = (if flt = FaultBefore then old else Some file)"

definition snapshotWrite :: "(bytes \<Rightarrow> uint64) \<Rightarrow> fault \<Rightarrow> int \<Rightarrow> string list \<Rightarrow> bytes \<Rightarrow> engine \<Rightarrow> bytes option \<Rightarrow>
    (snap_error + nat) \<times> bytes option" where
  "snapshotWrite H flt now ord fp e old =
     (let entries = serializeEngineToWriter now ord e;
          nkeys = length (ForEach now ord e);
          file = snapshot_file H now fp nkeys entries
      in (if flt = NoFault then Inr nkeys else Inl SnapIO, publish flt file old))"

text \<open>The child process: it re-reads the records from the pipe and counts and copies them.\<close>

function child_count :: "bytes \<Rightarrow> nat option" where
  "child_count r =
     (if r = [] then Some 0
      else case decode_rec r of
        None \<Rightarrow> None
      | Some (x, n) \<Rightarrow> map_option Suc (child_count (drop n r)))"
  by pat_completeness auto
termination
  by (relation "measure length") (auto dest: decode_rec_progress)

definition snapshotChildWrite :: "(bytes \<Rightarrow> uint64) \<Rightarrow> fault \<Rightarrow> int \<Rightarrow> bytes \<Rightarrow> bytes \<Rightarrow> bytes option \<Rightarrow>
    (snap_error + unit) \<times> bytes option" where
  "snapshotChildWrite H flt createdAt r fp old =
     (case child_count r of
        None \<Rightarrow> (Inl SnapIO, old)
      | Some nkeys \<Rightarrow>
          (if flt = NoFault then Inr () else Inl SnapIO, publish flt (snapshot_file H createdAt fp nkeys r) old))"

text \<open>
  \<^verbatim>\<open>snapshotForkDump\<close>: without a pipe or a child the parent writes the file itself;
  otherwise the parent serialises into the pipe (\<open>pipe_ok\<close>) and waits for the child.
\<close>

definition snapshotForkDump :: "(bytes \<Rightarrow> uint64) \<Rightarrow> bool \<Rightarrow> bool \<Rightarrow> fault \<Rightarrow> int \<Rightarrow> string list \<Rightarrow> bytes \<Rightarrow> engine \<Rightarrow>
    bytes option \<Rightarrow> (snap_error + unit) \<times> bytes option" where
  "snapshotForkDump H forked pipe_ok flt now ord fp e old =
     (if \<not> forked
      then (case snapshotWrite H flt now ord fp e old of
              (Inl err, f) \<Rightarrow> (Inl err, f) | (Inr n, f) \<Rightarrow> (Inr (), f))
      else if \<not> pipe_ok then (Inl SnapIO, old)
      else snapshotChildWrite H flt now (serializeEngineToWriter now ord e) fp old)"

section \<open>Reading\<close>

function snap_entries :: "bytes \<Rightarrow> wal_rec list option" where
  "snap_entries f =
     (if f = [] then Some []
      else case decode_rec f of
        None \<Rightarrow> None
      | Some (r, n) \<Rightarrow> map_option ((#) r) (snap_entries (drop n f)))"
  by pat_completeness auto
termination
  by (relation "measure length") (auto dest: decode_rec_progress)

declare snap_entries.simps [simp del] child_count.simps [simp del]

definition snap_body_offset :: "nat \<Rightarrow> nat" where
  "snap_body_offset version = (if version = 2 then 48 else 32)"

definition snapshot_decode :: "(bytes \<Rightarrow> uint64) \<Rightarrow> bytes \<Rightarrow> bytes \<Rightarrow> snap_error + wal_rec list" where
  "snapshot_decode H file fp =
     (let version = le_nat (take 4 (drop 4 file));
          fileFingerprint = (if version = 2 then take 16 (drop 32 file) else zeros 16);
          body = drop (snap_body_offset version) file
      in if length file < 32 then Inl SnapHeader
         else if take 4 file \<noteq> snapMagic then Inl SnapMagic
         else if version \<noteq> 1 \<and> version \<noteq> 2 then Inl SnapVersion
         else if version = 2 \<and> length file < 48 then Inl SnapHeader
         else if fileFingerprint \<noteq> fp then Inl SnapFingerprint
         else case snap_entries body of
           None \<Rightarrow> Inl SnapEntry
         | Some es \<Rightarrow>
             if H (take 8 file @ zeros 8 @ take 8 (drop 16 file) @ zeros 8 @
                   (if version = 2 then fileFingerprint else []) @ body)
                \<noteq> of_nat (le_nat (take 8 (drop 24 file)))
             then Inl SnapChecksum else Inr es)"

fun snap_apply :: "prims \<Rightarrow> int \<Rightarrow> bool \<Rightarrow> wal_rec list \<Rightarrow> nat \<Rightarrow> engine \<Rightarrow> ((snap_error + nat) \<times> engine) go" where
  "snap_apply P now useRaw [] loaded e = Returns (Inr loaded, e)"
| "snap_apply P now useRaw ((ttlNano, key, v) # es) loaded e =
     (let dur = (if ttlNano \<noteq> 0 then until now ttlNano else 0) in
      if ttlNano \<noteq> 0 \<and> dur \<le> 0 then snap_apply P now useRaw es loaded e
      else go_bind (if useRaw then SetRaw now key v dur e
                    else SetFromBuffer P now None (key @ v) (int (length key)) dur e)
             (\<lambda>(r, e'). case r of
                Some err \<Rightarrow> Returns (Inl (SnapEngine err), e')
              | None \<Rightarrow> snap_apply P now useRaw es (loaded + 1) e'))"

definition snapshotRead :: "prims \<Rightarrow> (bytes \<Rightarrow> uint64) \<Rightarrow> int \<Rightarrow> bytes option \<Rightarrow> bytes \<Rightarrow> engine \<Rightarrow>
    ((snap_error + nat) \<times> engine) go" where
  "snapshotRead P H now file fp e =
     (case file of
        None \<Rightarrow> Returns (Inl SnapIO, e)
      | Some f \<Rightarrow>
          (case snapshot_decode H f fp of
             Inl err \<Rightarrow> Returns (Inl err, e)
           | Inr es \<Rightarrow> snap_apply P now (enabled (crypto e)) es 0 e))"

definition snapshotExists :: "bytes option \<Rightarrow> bool" where
  "snapshotExists file = (case file of None \<Rightarrow> False | Some f \<Rightarrow> 4 \<le> length f \<and> take 4 f = snapMagic)"

section \<open>The file format round trip\<close>

lemma snap_entries_enc: "list_all rec_ok rs \<Longrightarrow> snap_entries (concat (map encode_rec rs)) = Some rs"
proof (induction rs)
  case (Cons r rs)
  then have "encode_rec r \<noteq> []" using rcodec.enc_nonempty by simp
  with Cons show ?case by (subst snap_entries.simps) (simp add: rcodec.dec_enc)
qed (simp add: snap_entries.simps)

lemma child_count_enc: "list_all rec_ok rs \<Longrightarrow> child_count (concat (map encode_rec rs)) = Some (length rs)"
proof (induction rs)
  case (Cons r rs)
  then have "encode_rec r \<noteq> []" using rcodec.enc_nonempty by simp
  with Cons show ?case by (subst child_count.simps) (simp add: rcodec.dec_enc)
qed (simp add: child_count.simps)

lemma length_snap_header: "length fp = 16 \<Longrightarrow> length (snap_header c fp n s) = 48"
  by (simp add: snap_header_def snapMagic_def)

lemma take_le: "take w (le_bytes w n @ xs) = le_bytes w n"
  by simp

lemma le_bytes_0: "le_bytes w 0 = zeros w"
  by (induction w) (simp_all add: zeros_def char_of_def)

lemma snap_header_parts:
  fixes c n s
  assumes fp: "length fp = 16"
  defines "h \<equiv> snap_header c fp n s"
  shows "take 4 (h @ b) = snapMagic" "le_nat (take 4 (drop 4 (h @ b))) = 2"
    "take 16 (drop 32 (h @ b)) = fp" "drop 48 (h @ b) = b"
    "take 8 (drop 24 (h @ b)) = le_bytes 8 s"
    "take 8 (h @ b) @ zeros 8 @ take 8 (drop 16 (h @ b)) @ zeros 8 @ fp = buildSnapshotHeader c fp"
  using fp
  by (simp_all add: h_def snap_header_def snapMagic_def le_nat_id buildSnapshotHeader_def le_bytes_0 [symmetric])

lemma snapshot_decode_v2:
  assumes "48 \<le> length f" "take 4 f = snapMagic" "le_nat (take 4 (drop 4 f)) = 2" "take 16 (drop 32 f) = fp"
    and "snap_entries (drop 48 f) = Some rs"
    and "H (take 8 f @ zeros 8 @ take 8 (drop 16 f) @ zeros 8 @ fp @ drop 48 f) = of_nat (le_nat (take 8 (drop 24 f)))"
  shows "snapshot_decode H f fp = Inr rs"
  using assms by (simp add: snapshot_decode_def snap_body_offset_def Let_def)

lemma snapshot_decode_file:
  assumes "length fp = 16" "list_all rec_ok rs"
  shows "snapshot_decode H (snapshot_file H c fp n (concat (map encode_rec rs))) fp = Inr rs"
proof -
  let ?b = "concat (map encode_rec rs)"
  let ?s = "unat (H (buildSnapshotHeader c fp @ ?b))"
  let ?f = "snap_header c fp n ?s @ ?b"
  note parts = snap_header_parts [OF assms(1), of c n ?s ?b]
  show ?thesis
    unfolding snapshot_file_def
  proof (rule snapshot_decode_v2 [OF _ parts(1-3)])
    show "48 \<le> length ?f" using length_snap_header [OF assms(1)] by simp
    show "snap_entries (drop 48 ?f) = Some rs"
      unfolding parts(4) by (rule snap_entries_enc [OF assms(2)])
    have "take 8 ?f @ zeros 8 @ take 8 (drop 16 ?f) @ zeros 8 @ fp @ ?b = buildSnapshotHeader c fp @ ?b"
      using parts(6) by (metis append.assoc)
    then show "H (take 8 ?f @ zeros 8 @ take 8 (drop 16 ?f) @ zeros 8 @ fp @ drop 48 ?f) =
        of_nat (le_nat (take 8 (drop 24 ?f)))"
      unfolding parts(4,5) by (simp only: le_nat_id [OF unat64_less]) simp
  qed
qed

section \<open>Restoring an engine\<close>

fun snap_items :: "int \<Rightarrow> wal_rec list \<Rightarrow> (string \<rightharpoonup> item) \<Rightarrow> (string \<rightharpoonup> item)" where
  "snap_items now [] m = m"
| "snap_items now ((ttl, k, v) # rs) m =
     snap_items now rs
       (if ttl \<noteq> 0 \<and> ttl \<le> now then m
        else m(k \<mapsto> \<lparr>Value = v, Expiration = if ttl = 0 then None else Some ttl\<rparr>))"

lemma unlimited_not_full: "maxBytes e = 0 \<Longrightarrow> \<not> engine_full e n"
  by (simp add: engine_full_def)

lemma snap_put:
  assumes "engine_inv e" "maxBytes e = 0"
  shows "\<exists>e'. (if enabled (crypto e) then SetRaw now k v d e
               else SetFromBuffer P now None (k @ v) (int (length k)) d e) = Returns (None, e') \<and>
      stored k \<lparr>Value = v, Expiration = deadline now d\<rparr> e e'"
proof (cases "enabled (crypto e)")
  case True
  then show ?thesis
    using unlimited_not_full [OF assms(2)]
    by (cases rule: SetRaw_cases [OF assms(1), of k v now d]) auto
next
  case False
  then show ?thesis
    using unlimited_not_full [OF assms(2)]
    by (cases rule: SetFromBuffer_cases [OF assms(1), of "int (length k)" "k @ v" P now None d]) auto
qed

lemma snap_apply_items:
  assumes "engine_inv e" "maxBytes e = 0" "0 \<le> now" "\<forall>r\<in>set rs. fst r < 2 ^ 63"
  shows "\<exists>n e'. snap_apply P now (enabled (crypto e)) rs c e = Returns (Inr n, e') \<and> engine_inv e' \<and>
      crypto e' = crypto e \<and> maxBytes e' = 0 \<and> items e' = snap_items now rs (items e)"
  using assms
proof (induction rs arbitrary: c e)
  case (Cons r rs)
  obtain ttl k v where r: "r = (ttl, k, v)" by (cases r)
  show ?case
  proof (cases "ttl \<noteq> 0 \<and> ttl \<le> now")
    case True
    with r Cons show ?thesis by simp
  next
    case False
    let ?d = "if ttl \<noteq> 0 then until now ttl else 0"
    obtain e1 where e1: "(if enabled (crypto e) then SetRaw now k v ?d e
        else SetFromBuffer P now None (k @ v) (int (length k)) ?d e) = Returns (None, e1)"
      "stored k \<lparr>Value = v, Expiration = deadline now ?d\<rparr> e e1"
      using snap_put [OF Cons.prems(1,2)] by blast
    then have "snap_apply P now (enabled (crypto e)) (r # rs) c e =
        snap_apply P now (enabled (crypto e)) rs (c + 1) e1"
      using False by (auto simp: r Let_def)
    moreover have "deadline now ?d = (if ttl = 0 then None else Some ttl)"
      using False Cons.prems(3,4) r deadline_until [of now ttl] by (auto simp: deadline_def)
    ultimately show ?thesis
      using Cons.IH [of e1 "c + 1"] Cons.prems e1(2) False r by (auto simp: stored_def)
  qed
qed simp

lemma snap_items_other: "k \<notin> (fst \<circ> snd) ` set rs \<Longrightarrow> snap_items now rs m k = m k"
  by (induction rs arbitrary: m) (auto simp: image_iff)

lemma snap_items_mem:
  assumes "distinct (map (fst \<circ> snd) rs)" "(ttl, k, v) \<in> set rs"
  shows "snap_items now rs m k =
      (if ttl \<noteq> 0 \<and> ttl \<le> now then m k else Some \<lparr>Value = v, Expiration = if ttl = 0 then None else Some ttl\<rparr>)"
  using assms
proof (induction rs arbitrary: m)
  case (Cons r rs)
  show ?case
  proof (cases "(ttl, k, v) \<in> set rs")
    case True
    then have "k \<in> (fst \<circ> snd) ` set rs" by (rule rev_image_eqI) simp
    then have "fst (snd r) \<noteq> k" using Cons.prems(1) by auto
    with True Cons show ?thesis by (cases r) auto
  next
    case False
    then have r: "r = (ttl, k, v)" using Cons.prems(2) by simp
    then have "k \<notin> (fst \<circ> snd) ` set rs" using Cons.prems(1) by auto
    with r show ?thesis by (simp add: snap_items_other)
  qed
qed simp

lemma ForEach_Cons:
  "ForEach now (j # ord) e =
     (case items e j of
        None \<Rightarrow> []
      | Some it \<Rightarrow> if past now (Expiration it) then [] else [(j, Value it, Expiration it)]) @ ForEach now ord e"
  by (simp add: ForEach_def)

lemma ForEach_Nil [simp]: "ForEach now [] e = []"
  by (simp add: ForEach_def)

lemma ForEach_mem:
  "(k, v, x) \<in> set (ForEach now ord e) \<longleftrightarrow>
     k \<in> set ord \<and> (\<exists>it. items e k = Some it \<and> \<not> past now (Expiration it) \<and> v = Value it \<and> x = Expiration it)"
proof (induction ord)
  case (Cons j ord)
  then show ?case by (cases "items e j") (auto simp: ForEach_Cons)
qed simp

lemma ForEach_distinct: "distinct ord \<Longrightarrow> distinct (map fst (ForEach now ord e))"
proof (induction ord)
  case (Cons k ord)
  then have "k \<notin> fst ` set (ForEach now ord e)" using ForEach_mem [of _ _ _ now ord e] by fastforce
  with Cons show ?case by (cases "items e k") (auto simp: ForEach_Cons)
qed simp

text \<open>What an engine's entries must satisfy to survive the 32 bit lengths and 64 bit times of the file.\<close>

definition snapshotable :: "engine \<Rightarrow> bool" where
  "snapshotable e \<longleftrightarrow> (\<forall>k it. items e k = Some it \<longrightarrow>
     length k < 2 ^ 32 \<and> length (Value it) < 2 ^ 32 \<and>
     (\<forall>x. Expiration it = Some x \<longrightarrow> 0 < x \<and> x < 2 ^ 63))"

lemma entries_ok:
  assumes "snapshotable e"
  shows "list_all rec_ok (map entry_rec (ForEach now ord e))"
proof -
  have "rec_ok (entry_rec (k, v, x))" if "(k, v, x) \<in> set (ForEach now ord e)" for k v x
    using that assms unfolding ForEach_mem snapshotable_def
    by (fastforce simp: entry_rec_def rec_ok_def unix_nano_def split: option.split)
  then show ?thesis by (auto simp: list_all_iff)
qed

lemma serialize_map: "serializeEngineToWriter now ord e = concat (map encode_rec (map entry_rec (ForEach now ord e)))"
  by (simp add: serializeEngineToWriter_def)

lemma restored_items:
  assumes "snapshotable e" "distinct ord" "set ord = dom (items e)"
  shows "snap_items t (map entry_rec (ForEach now ord e)) Map.empty k =
      (case items e k of
         None \<Rightarrow> None
       | Some it \<Rightarrow> if past now (Expiration it) \<or> (\<exists>x\<le>t. Expiration it = Some x) then None else Some it)"
proof -
  let ?rs = "map entry_rec (ForEach now ord e)"
  have keys: "map (fst \<circ> snd) ?rs = map fst (ForEach now ord e)"
    by (simp add: entry_rec_def split: prod.splits)
  show ?thesis
  proof (cases "\<exists>v x. (k, v, x) \<in> set (ForEach now ord e)")
    case True
    then obtain it where it: "(k, Value it, Expiration it) \<in> set (ForEach now ord e)" "items e k = Some it"
      "\<not> past now (Expiration it)" unfolding ForEach_mem by blast
    then have "(unix_nano (Expiration it), k, Value it) \<in> set ?rs"
      by (force simp: entry_rec_def)
    moreover have "distinct (map (fst \<circ> snd) ?rs)" unfolding keys by (rule ForEach_distinct [OF assms(2)])
    moreover have "Expiration it = None \<or> (\<exists>x. Expiration it = Some x \<and> 0 < x \<and> x < 2 ^ 63)"
      using assms(1) it(2) by (cases "Expiration it") (auto simp: snapshotable_def)
    ultimately show ?thesis
      using it(2,3) by (auto simp: snap_items_mem unix_nano_def)
  next
    case False
    then have "k \<notin> set (map fst (ForEach now ord e))" by auto
    then have "k \<notin> (fst \<circ> snd) ` set ?rs" using keys by (metis list.set_map)
    moreover have "items e k = None \<or> past now (Expiration (the (items e k)))"
      using False assms(3) unfolding ForEach_mem by fastforce
    ultimately show ?thesis
      by (auto simp: snap_items_other split: option.split)
  qed
qed

section \<open>Properties\<close>

lemma snap_apply_error: "snap_apply P now r es c e = Returns (Inl err, e') \<Longrightarrow> \<exists>x. err = SnapEngine x"
  by (induction es arbitrary: c e) (auto simp: Let_def split: if_splits option.splits)

lemma snapshotRead_file:
  assumes "length fp = 16" "snapshotable e" "engine_inv e0" "maxBytes e0 = 0" "0 \<le> t"
  shows "\<exists>n e'. snapshotRead P H t
      (Some (snapshot_file H c fp m (serializeEngineToWriter now ord e))) fp e0 = Returns (Inr n, e') \<and>
      engine_inv e' \<and> crypto e' = crypto e0 \<and> maxBytes e' = 0 \<and>
      items e' = snap_items t (map entry_rec (ForEach now ord e)) (items e0)"
proof -
  note ok = entries_ok [OF assms(2), of now ord]
  have "\<forall>r\<in>set (map entry_rec (ForEach now ord e)). fst r < 2 ^ 63"
    using ok by (auto simp: list_all_iff rec_ok_def)
  from snap_apply_items [OF assms(3,4,5) this, of P 0] show ?thesis
    unfolding snapshotRead_def serialize_map
    by (simp add: snapshot_decode_file [OF assms(1) ok] del: map_map)
qed

text \<open>
  C12. A snapshot restores the engine: reading back a file that the in-process writer or the
  forked child published, into an empty engine of the same key, succeeds, and after the restart
  the restored engine shows at every time exactly what the original one shows. Entries that expired
  in between are gone on both sides.
\<close>

theorem snapshot_round_trip:
  assumes "length fp = 16" "snapshotable e" "distinct ord" "set ord = dom (items e)"
    and "engine_inv e0" "maxBytes e0 = 0" "items e0 = Map.empty" "crypto e0 = crypto e"
    and "0 \<le> now" "now \<le> now'"
    and "snapshotForkDump H forked True NoFault now ord fp e old = (r, file)"
  shows "\<exists>n e'. r = Inr () \<and> snapshotRead P H now' file fp e0 = Returns (Inr n, e') \<and> engine_inv e' \<and>
      (\<forall>t>now'. engine_view P e' t = engine_view P e t)"
proof -
  note ok = entries_ok [OF assms(2), of now ord]
  have "child_count (serializeEngineToWriter now ord e) = Some (length (ForEach now ord e))"
    unfolding serialize_map using child_count_enc [OF ok] by simp
  then have fl: "r = Inr ()"
    "file = Some (snapshot_file H now fp (length (ForEach now ord e)) (serializeEngineToWriter now ord e))"
    using assms(11)
    by (auto simp: snapshotForkDump_def snapshotChildWrite_def snapshotWrite_def publish_def Let_def split: if_splits)
  obtain n e' where e': "snapshotRead P H now' file fp e0 = Returns (Inr n, e')" "engine_inv e'"
    "crypto e' = crypto e0" "items e' = snap_items now' (map entry_rec (ForEach now ord e)) (items e0)"
    using snapshotRead_file [OF assms(1,2,5,6), of now' P H now "length (ForEach now ord e)" now ord] assms(9,10) unfolding fl(2) by auto
  have "engine_view P e' t k = engine_view P e t k" if "now' < t" for t k
    unfolding engine_view_def e'(3,4) assms(7,8) restored_items [OF assms(2-4)]
    using that assms(10) by (auto simp: past_def split: option.split)
  with fl(1) e'(1,2) show ?thesis by blast
qed

text \<open>
  A snapshot file that is damaged, of another version, or written under another key never
  touches the engine: on every error but a refusal of the engine itself the state is returned
  unchanged.
\<close>

theorem snapshotRead_rejects_unchanged:
  "snapshotRead P H now file fp e = Returns (Inl err, e') \<Longrightarrow> (\<forall>x. err \<noteq> SnapEngine x) \<Longrightarrow> e' = e"
  by (auto simp: snapshotRead_def dest: snap_apply_error split: option.splits sum.splits)


definition snap_engine :: engine where
  "snap_engine = engine0\<lparr>items := [''a'' \<mapsto> \<lparr>Value = ''1'', Expiration = None\<rparr>, ''b'' \<mapsto> \<lparr>Value = ''2'', Expiration = Some 50\<rparr>]\<rparr>"

definition restart_engine :: engine where
  "restart_engine = NewEngine 64 0 0 0 None"

lemma restart_engine_simps [simp]:
  "engine_inv restart_engine" "maxBytes restart_engine = 0" "items restart_engine = Map.empty"
  "crypto restart_engine = disabled_crypto"
  using NewEngine_inv [of 0 None 64 0 0] by (simp_all add: restart_engine_def NewEngine_def defaultMaxBytes_def)

lemma snap_engine_ok [simp]: "snapshotable snap_engine" "dom (items snap_engine) = {''a'', ''b''}"
  "crypto snap_engine = disabled_crypto"
  by (auto simp: snapshotable_def snap_engine_def engine0_def NewEngine_def)

theorem snapshot_round_trip_witness:
  "\<exists>file n e'. snapshotForkDump (\<lambda>b. of_nat (le_nat b)) True True NoFault 10 [''b'', ''a''] (zeros 16) snap_engine None
      = (Inr (), file) \<and>
      snapshotRead plain_prims (\<lambda>b. of_nat (le_nat b)) 20 file (zeros 16) restart_engine = Returns (Inr n, e') \<and>
      engine_view plain_prims e' 30 = engine_view plain_prims snap_engine 30"
proof -
  obtain r fl where d: "snapshotForkDump (\<lambda>b. of_nat (le_nat b)) True True NoFault 10 [''b'', ''a''] (zeros 16) snap_engine None
      = (r, fl)" by fastforce
  have "\<exists>n e'. r = Inr () \<and>
      snapshotRead plain_prims (\<lambda>b. of_nat (le_nat b)) 20 fl (zeros 16) restart_engine = Returns (Inr n, e') \<and>
      engine_inv e' \<and> (\<forall>t>20. engine_view plain_prims e' t = engine_view plain_prims snap_engine t)"
    by (rule snapshot_round_trip [OF _ _ _ _ _ _ _ _ _ _ d]) (simp_all add: zeros_def insert_commute)
  with d show ?thesis by fastforce
qed

theorem snapshotRead_rejects_unchanged_witness:
  "snapshotRead plain_prims (\<lambda>b. 0) 20 (Some ''TSNX'') (zeros 16) snap_engine = Returns (Inl SnapHeader, snap_engine)"
proof -
  obtain e' where e': "snapshotRead plain_prims (\<lambda>b. 0) 20 (Some ''TSNX'') (zeros 16) snap_engine = Returns (Inl SnapHeader, e')"
    by (simp add: snapshotRead_def snapshot_decode_def Let_def)
  then have "e' = snap_engine" by (rule snapshotRead_rejects_unchanged) simp
  with e' show ?thesis by simp
qed


end
