(* ===== verification/Wal.thy ===== *)
theory Wal
  imports Snapshot
begin

text \<open>
  \<^verbatim>\<open>src/internal/persistence/persistence.go\<close>: the per-shard write-ahead log, its
  encrypted form with counter nonces, recovery, migration and truncation. The state is what is on
  disk for each shard (log, nonce sidecar, snapshot) and the open handles. In the code
  \<^verbatim>\<open>walVer\<close> and \<^verbatim>\<open>crypto\<close>, and \<^verbatim>\<open>needsMigrate\<close> and
  \<^verbatim>\<open>pendingCrypto\<close>, are always assigned together: each pair is one optional engine.
  A failing append leaves the bytes written before the failure in the file; a crash in the middle
  of an append looks the same.
\<close>

record shard_disk =
  wal_file :: "bytes option"
  nonce_file :: "bytes option"
  snap_file :: "bytes option"

record shardHandle =
  wal_crypto :: "crypto_engine option"
  nonceCtr :: uint64
  pendingCrypto :: "crypto_engine option"

record pstorage =
  persist :: bool
  disk :: "uint32 \<Rightarrow> shard_disk"
  handles :: "uint32 \<rightharpoonup> shardHandle"

datatype wal_error =
    WalNotOpened | WalMigrating | WalKeyTooLarge | WalValueTooLarge | WalIO | WalRecordTooLarge
  | WalNoCrypto | WalHeaderRead | WalCrypto crypto_error | WalEngine storage_error | WalSnapshot snap_error

definition walMagic :: bytes where "walMagic = ''TSW'' @ [CHR 0x01]"

definition tombstoneTTL :: int where "tombstoneTTL = - (2 ^ 63)"

definition NewStorage :: "bool \<Rightarrow> (uint32 \<Rightarrow> shard_disk) \<Rightarrow> pstorage" where
  "NewStorage en d = \<lparr>persist = en, disk = d, handles = Map.empty\<rparr>"

section \<open>The nonce sidecar\<close>

definition readNonceSidecar :: "bytes option \<Rightarrow> uint64" where
  "readNonceSidecar f =
     (case f of None \<Rightarrow> 0 | Some b \<Rightarrow> if length b < 8 then 0 else of_nat (le_nat (take 8 b)))"

definition writeNonceSidecar :: "fault \<Rightarrow> uint64 \<Rightarrow> bytes option \<Rightarrow> wal_error option \<times> bytes option" where
  "writeNonceSidecar flt ctr old =
     (if flt = NoFault then None else Some WalIO, publish flt (le_bytes 8 (unat ctr)) old)"

section \<open>Appending\<close>

definition upd_disk :: "uint32 \<Rightarrow> (shard_disk \<Rightarrow> shard_disk) \<Rightarrow> pstorage \<Rightarrow> pstorage" where
  "upd_disk i f s = s\<lparr>disk := (disk s)(i := f (disk s i))\<rparr>"

definition upd_handle :: "uint32 \<Rightarrow> shardHandle \<Rightarrow> pstorage \<Rightarrow> pstorage" where
  "upd_handle i h s = s\<lparr>handles := (handles s)(i \<mapsto> h)\<rparr>"

definition wal_bytes :: "shard_disk \<Rightarrow> bytes" where
  "wal_bytes d = (case wal_file d of None \<Rightarrow> [] | Some b \<Rightarrow> b)"

definition append_bytes :: "nat option \<Rightarrow> uint32 \<Rightarrow> bytes \<Rightarrow> pstorage \<Rightarrow> wal_error option \<times> pstorage" where
  "append_bytes tear i b s =
     (case tear of
        None \<Rightarrow> (None, upd_disk i (\<lambda>d. d\<lparr>wal_file := Some (wal_bytes d @ b)\<rparr>) s)
      | Some n \<Rightarrow> (Some WalIO, upd_disk i (\<lambda>d. d\<lparr>wal_file := Some (wal_bytes d @ take n b)\<rparr>) s))"

definition wal_nonce :: "uint64 \<Rightarrow> uint32 \<Rightarrow> bytes" where
  "wal_nonce ctr i = le_bytes 8 (unat ctr) @ le_bytes 4 (unat i)"

definition frame_bytes :: "bytes \<Rightarrow> bytes \<Rightarrow> bytes" where
  "frame_bytes nonce ciphertext = le_bytes 4 (12 + length ciphertext) @ nonce @ ciphertext"

definition seal_record :: "prims \<Rightarrow> crypto_engine \<Rightarrow> uint64 \<Rightarrow> uint32 \<Rightarrow> bytes \<Rightarrow> wal_error + bytes" where
  "seal_record P c ctr i plaintext =
     (case SealWithCounter P c (wal_nonce ctr i) plaintext of
        Inl err \<Rightarrow> Inl (WalCrypto err)
      | Inr ciphertext \<Rightarrow>
          if 12 + length ciphertext > 2 ^ 32 - 1 then Inl WalRecordTooLarge
          else Inr (frame_bytes (wal_nonce ctr i) ciphertext))"

definition appendRecordEncrypted :: "prims \<Rightarrow> nat option \<Rightarrow> uint32 \<Rightarrow> shardHandle \<Rightarrow> crypto_engine \<Rightarrow> bytes \<Rightarrow>
    pstorage \<Rightarrow> wal_error option \<times> pstorage" where
  "appendRecordEncrypted P tear i h c plaintext s =
     (let s1 = upd_handle i (h\<lparr>nonceCtr := nonceCtr h + 1\<rparr>) s in
      case seal_record P c (nonceCtr h) i plaintext of
        Inl err \<Rightarrow> (Some err, s1)
      | Inr b \<Rightarrow> append_bytes tear i b s1)"

definition appendRecord :: "prims \<Rightarrow> nat option \<Rightarrow> uint32 \<Rightarrow> bytes \<Rightarrow> pstorage \<Rightarrow> wal_error option \<times> pstorage" where
  "appendRecord P tear i rec s =
     (case handles s i of
        None \<Rightarrow> (Some WalNotOpened, s)
      | Some h \<Rightarrow>
          if pendingCrypto h \<noteq> None then (Some WalMigrating, s)
          else (case wal_crypto h of
                  Some c \<Rightarrow> appendRecordEncrypted P tear i h c rec s
                | None \<Rightarrow> append_bytes tear i rec s))"

definition Write :: "prims \<Rightarrow> nat option \<Rightarrow> uint32 \<Rightarrow> string \<Rightarrow> bytes \<Rightarrow> gotime \<Rightarrow> pstorage \<Rightarrow>
    wal_error option \<times> pstorage" where
  "Write P tear i key v ttl s =
     (if \<not> persist s then (None, s)
      else if length key > 2 ^ 32 - 1 then (Some WalKeyTooLarge, s)
      else if length v > 2 ^ 32 - 1 then (Some WalValueTooLarge, s)
      else appendRecord P tear i (rec_header key v (unix_nano ttl) @ key @ v) s)"

definition wal_Delete :: "prims \<Rightarrow> nat option \<Rightarrow> uint32 \<Rightarrow> string \<Rightarrow> pstorage \<Rightarrow> wal_error option \<times> pstorage" where
  "wal_Delete P tear i key s =
     (if \<not> persist s then (None, s)
      else if length key > 2 ^ 32 - 1 then (Some WalKeyTooLarge, s)
      else appendRecord P tear i (rec_header key [] tombstoneTTL @ key) s)"

definition OpenShard :: "uint32 \<Rightarrow> crypto_engine option \<Rightarrow> pstorage \<Rightarrow> wal_error option \<times> pstorage" where
  "OpenShard i ce s =
     (if \<not> persist s then (None, s)
      else let f = wal_bytes (disk s i);
               sealing = (case ce of Some c \<Rightarrow> enabled c | None \<Rightarrow> False);
               opened = (\<lambda>b h. upd_handle i h (upd_disk i (\<lambda>d. d\<lparr>wal_file := Some b\<rparr>) s))
        in if f = []
           then (None,
                 opened (if sealing then walMagic else [])
                   \<lparr>wal_crypto = (if sealing then ce else None), nonceCtr = 0, pendingCrypto = None\<rparr>)
           else if length f < 4 then (Some WalHeaderRead, s)
           else if take 4 f = walMagic
           then if \<not> sealing then (Some WalNoCrypto, s)
                else (None, opened f \<lparr>wal_crypto = ce, nonceCtr = 0, pendingCrypto = None\<rparr>)
           else (None, opened f \<lparr>wal_crypto = None, nonceCtr = 0, pendingCrypto = (if sealing then ce else None)\<rparr>))"

section \<open>Replay\<close>

datatype outcome = Applied | RecordExpired | Rejected storage_error

definition applyRecord :: "prims \<Rightarrow> int \<Rightarrow> bytes option \<Rightarrow> wal_rec \<Rightarrow> engine \<Rightarrow> (outcome \<times> engine) go" where
  "applyRecord P now rnd r e =
     (case r of (ttlNano, key, v) \<Rightarrow>
        if ttlNano = tombstoneTTL then Returns (RecordExpired, snd (Delete now key e))
        else if ttlNano \<noteq> 0 \<and> until now ttlNano \<le> 0 then Returns (RecordExpired, e)
        else go_bind (Set P now rnd key v (if ttlNano \<noteq> 0 then until now ttlNano else 0) e)
               (\<lambda>(err, e'). Returns (case err of None \<Rightarrow> Applied | Some x \<Rightarrow> Rejected x, e')))"

record replay_stats =
  validOffset :: nat
  recordsRead :: nat
  recordsSkipped :: nat

definition count_record :: "nat \<Rightarrow> outcome \<Rightarrow> replay_stats \<Rightarrow> replay_stats" where
  "count_record n oc st =
     st\<lparr>validOffset := validOffset st + n, recordsRead := recordsRead st + 1,
        recordsSkipped := recordsSkipped st + (if oc = RecordExpired then 1 else 0)\<rparr>"

lemma go_bind_cong [fundef_cong]:
  "m = m' \<Longrightarrow> (\<And>a. m' = Returns a \<Longrightarrow> f a = g a) \<Longrightarrow> go_bind m f = go_bind m' g"
  by (cases m') auto

function plain_loop :: "prims \<Rightarrow> int \<Rightarrow> (nat \<Rightarrow> bytes option) \<Rightarrow> bytes \<Rightarrow> replay_stats \<Rightarrow> engine \<Rightarrow>
    ((storage_error option \<times> replay_stats) \<times> engine) go" where
  "plain_loop P now rnd f st e =
     (case decode_rec f of
        None \<Rightarrow> Returns ((None, st), e)
      | Some (r, n) \<Rightarrow>
          go_bind (applyRecord P now (rnd (recordsRead st)) r e) (\<lambda>(oc, e').
            case oc of
              Rejected err \<Rightarrow> Returns ((Some err, count_record n oc st), e')
            | _ \<Rightarrow> plain_loop P now rnd (drop n f) (count_record n oc st) e'))"
  by pat_completeness auto
termination
  by (relation "measure (\<lambda>(P, now, rnd, f, st, e). length f)") (auto dest: decode_rec_progress)

declare plain_loop.simps [simp del]

text \<open>One sealed frame: length, nonce, ciphertext; nothing when it is cut short or too small.\<close>

definition decode_frame :: "bytes \<Rightarrow> ((bytes \<times> bytes) \<times> nat) option" where
  "decode_frame f =
     (if length f < 4 then None
      else let recLen = le_nat (take 4 f) in
        if recLen < 12 + 16 then None
        else if recLen > length f - 4 then None
        else Some ((take 12 (drop 4 f), take (recLen - 12) (drop 16 f)), 4 + recLen))"

lemma decode_frame_progress: "decode_frame f = Some (r, n) \<Longrightarrow> 0 < n \<and> n \<le> length f"
  by (auto simp: decode_frame_def Let_def split: if_splits)

lemma decode_frame_Nil [simp]: "decode_frame [] = None"
  by (simp add: decode_frame_def)

definition frame_ctr :: "bytes \<Rightarrow> uint64" where
  "frame_ctr nonce = of_nat (le_nat (take 8 nonce))"

definition split_plain :: "bytes \<Rightarrow> wal_rec option" where
  "split_plain p =
     (if header_keyLen p + header_valLen p \<noteq> length p - 16 then None
      else Some (header_ttl p, take (header_keyLen p) (drop 16 p),
                 take (header_valLen p) (drop (16 + header_keyLen p) p)))"

function sealed_loop :: "prims \<Rightarrow> crypto_engine \<Rightarrow> int \<Rightarrow> (nat \<Rightarrow> bytes option) \<Rightarrow> bytes \<Rightarrow> uint64 \<Rightarrow> replay_stats \<Rightarrow>
    engine \<Rightarrow> ((storage_error option \<times> uint64 \<times> replay_stats) \<times> engine) go" where
  "sealed_loop P c now rnd f maxNonce st e =
     (case decode_frame f of
        None \<Rightarrow> Returns ((None, maxNonce, st), e)
      | Some ((nonce, ciphertext), n) \<Rightarrow>
          (let mx = max maxNonce (frame_ctr nonce) in
           case OpenWithCounter P c nonce ciphertext of
             Inl err \<Rightarrow> Returns ((None, mx, st), e)
           | Inr plaintext \<Rightarrow>
               if length plaintext < 16 then Returns ((None, mx, st), e)
               else (case split_plain plaintext of
                       None \<Rightarrow> Returns ((None, mx, count_record n Applied st), e)
                     | Some r \<Rightarrow>
                         go_bind (applyRecord P now (rnd (recordsRead st)) r e) (\<lambda>(oc, e').
                           case oc of
                             Rejected err \<Rightarrow> Returns ((Some err, mx, count_record n oc st), e')
                           | _ \<Rightarrow> sealed_loop P c now rnd (drop n f) mx (count_record n oc st) e'))))"
  by pat_completeness auto
termination
  by (relation "measure (\<lambda>(P, c, now, rnd, f, mx, st, e). length f)") (auto dest: decode_frame_progress)

declare sealed_loop.simps [simp del]

record load_env =
  load_now :: int
  load_nonces :: "nat \<Rightarrow> bytes option"
  sidecar_fault :: fault
  truncate_ok :: bool
  migrate_fault :: fault
  map_order :: "string list"

definition finishReplay :: "load_env \<Rightarrow> uint32 \<Rightarrow> nat \<Rightarrow> pstorage \<Rightarrow> pstorage" where
  "finishReplay v i offset s =
     (let f = wal_bytes (disk s i) in
      if offset < length f \<and> truncate_ok v then upd_disk i (\<lambda>d. d\<lparr>wal_file := Some (take offset f)\<rparr>) s else s)"

definition stats0 :: "nat \<Rightarrow> replay_stats" where
  "stats0 off = \<lparr>validOffset = off, recordsRead = 0, recordsSkipped = 0\<rparr>"

definition replayWALPlaintext :: "prims \<Rightarrow> load_env \<Rightarrow> uint32 \<Rightarrow> engine \<Rightarrow> pstorage \<Rightarrow>
    (wal_error option \<times> engine \<times> pstorage) go" where
  "replayWALPlaintext P v i e s =
     go_bind (plain_loop P (load_now v) (load_nonces v) (wal_bytes (disk s i)) (stats0 0) e) (\<lambda>((err, st), e').
       case err of
         Some x \<Rightarrow> Returns (Some (WalEngine x), e', s)
       | None \<Rightarrow> Returns (None, e', finishReplay v i (validOffset st) s))"

definition replayWALEncrypted :: "prims \<Rightarrow> load_env \<Rightarrow> uint32 \<Rightarrow> shardHandle \<Rightarrow> crypto_engine \<Rightarrow> engine \<Rightarrow> pstorage \<Rightarrow>
    (wal_error option \<times> engine \<times> pstorage) go" where
  "replayWALEncrypted P v i h c e s =
     go_bind (sealed_loop P c (load_now v) (load_nonces v) (drop 4 (wal_bytes (disk s i))) 0 (stats0 4) e)
       (\<lambda>((err, maxNonce, st), e').
         case err of
           Some x \<Rightarrow> Returns (Some (WalEngine x), e', s)
         | None \<Rightarrow>
             (let walCtr = max (maxNonce + 1) (readNonceSidecar (nonce_file (disk s i)));
                  s1 = upd_handle i (h\<lparr>nonceCtr := walCtr\<rparr>) s;
                  s2 = upd_disk i (\<lambda>d. d\<lparr>nonce_file := snd (writeNonceSidecar (sidecar_fault v) walCtr (nonce_file d))\<rparr>) s1
              in Returns (None, e', finishReplay v i (validOffset st) s2)))"

definition replayWAL :: "prims \<Rightarrow> load_env \<Rightarrow> uint32 \<Rightarrow> engine \<Rightarrow> pstorage \<Rightarrow> (wal_error option \<times> engine \<times> pstorage) go" where
  "replayWAL P v i e s =
     (case handles s i of
        None \<Rightarrow> Returns (Some WalNotOpened, e, s)
      | Some h \<Rightarrow>
          (case wal_crypto h of
             Some c \<Rightarrow> replayWALEncrypted P v i h c e s
           | None \<Rightarrow> replayWALPlaintext P v i e s))"

section \<open>Loading, migration, truncation\<close>

fun migrate_records :: "prims \<Rightarrow> crypto_engine \<Rightarrow> bool \<Rightarrow> uint32 \<Rightarrow> (string \<times> bytes \<times> gotime) list \<Rightarrow> uint64 \<Rightarrow>
    wal_error + (bytes \<times> uint64)" where
  "migrate_records P c atRest i [] ctr = Inr ([], ctr)"
| "migrate_records P c atRest i ((key, v, x) # es) ctr =
     (case (if atRest then DecryptInPlace P c v else Inr v) of
        Inl err \<Rightarrow> Inl (WalCrypto err)
      | Inr w \<Rightarrow>
          (case seal_record P c ctr i (rec_header key w (unix_nano x) @ key @ w) of
             Inl err \<Rightarrow> Inl err
           | Inr b \<Rightarrow>
               (case migrate_records P c atRest i es (ctr + 1) of
                  Inl err \<Rightarrow> Inl err
                | Inr (bs, n) \<Rightarrow> Inr (b @ bs, n))))"

definition migrateShard :: "prims \<Rightarrow> load_env \<Rightarrow> uint32 \<Rightarrow> shardHandle \<Rightarrow> crypto_engine \<Rightarrow> engine \<Rightarrow> pstorage \<Rightarrow>
    wal_error option \<times> pstorage" where
  "migrateShard P v i h c e s =
     (case migrate_records P c (enabled (crypto e)) i (ForEach (load_now v) (map_order v) e) 0 of
        Inl err \<Rightarrow> (Some err, s)
      | Inr (bs, n) \<Rightarrow>
          (if migrate_fault v = FaultBefore then (Some WalIO, s)
           else let s1 = upd_disk i (\<lambda>d. d\<lparr>wal_file := Some (walMagic @ bs)\<rparr>) s in
             if migrate_fault v = FaultAfter then (Some WalIO, s1)
             else (None,
                   upd_disk i (\<lambda>d. d\<lparr>nonce_file := snd (writeNonceSidecar (sidecar_fault v) n (nonce_file d))\<rparr>)
                     (upd_handle i \<lparr>wal_crypto = Some c, nonceCtr = n, pendingCrypto = None\<rparr> s1))))"

definition shard_fingerprint :: "uint32 \<Rightarrow> pstorage \<Rightarrow> bytes" where
  "shard_fingerprint i s =
     (case handles s i of
        Some h \<Rightarrow> (case wal_crypto h of Some c \<Rightarrow> keyFingerprint c | None \<Rightarrow> zeros 16)
      | None \<Rightarrow> zeros 16)"

definition LoadShard :: "prims \<Rightarrow> (bytes \<Rightarrow> uint64) \<Rightarrow> load_env \<Rightarrow> uint32 \<Rightarrow> engine \<Rightarrow> pstorage \<Rightarrow>
    (wal_error option \<times> engine \<times> pstorage) go" where
  "LoadShard P H v i e s =
     (if \<not> persist s then Returns (None, e, s)
      else go_bind (if snapshotExists (snap_file (disk s i))
                    then snapshotRead P H (load_now v) (snap_file (disk s i)) (shard_fingerprint i s) e
                    else Returns (Inr 0, e))
        (\<lambda>(r, e1). case r of
           Inl err \<Rightarrow> Returns (Some (WalSnapshot err), e1, s)
         | Inr n \<Rightarrow>
             go_bind (replayWAL P v i e1 s) (\<lambda>(err, e2, s2). case err of
               Some x \<Rightarrow> Returns (Some x, e2, s2)
             | None \<Rightarrow>
                 (case handles s2 i of
                    None \<Rightarrow> Returns (None, e2, s2)
                  | Some h \<Rightarrow>
                      (case pendingCrypto h of
                         None \<Rightarrow> Returns (None, e2, s2)
                       | Some c \<Rightarrow> (case migrateShard P v i h c e2 s2 of (er, s3) \<Rightarrow> Returns (er, e2, s3)))))))"

definition truncateWALLocked :: "fault \<Rightarrow> uint32 \<Rightarrow> shardHandle \<Rightarrow> nat \<Rightarrow> pstorage \<Rightarrow> wal_error option \<times> pstorage" where
  "truncateWALLocked flt i h offset s =
     (let (err, nf) = (if wal_crypto h = None then (None, nonce_file (disk s i))
                       else writeNonceSidecar flt (nonceCtr h) (nonce_file (disk s i)));
          s1 = upd_disk i (\<lambda>d. d\<lparr>nonce_file := nf\<rparr>) s
      in if err \<noteq> None then (err, s1)
         else (None, upd_disk i (\<lambda>d. d\<lparr>wal_file :=
                 Some (take offset (wal_bytes d) @ zeros (offset - length (wal_bytes d)))\<rparr>) s1))"

definition TruncateWALTo :: "fault \<Rightarrow> uint32 \<Rightarrow> nat \<Rightarrow> pstorage \<Rightarrow> wal_error option \<times> pstorage" where
  "TruncateWALTo flt i offset s =
     (case handles s i of
        None \<Rightarrow> (Some WalNotOpened, s)
      | Some h \<Rightarrow> truncateWALLocked flt i h offset s)"

definition WALSize :: "uint32 \<Rightarrow> pstorage \<Rightarrow> nat" where
  "WALSize i s = (case handles s i of None \<Rightarrow> 0 | Some h \<Rightarrow> length (wal_bytes (disk s i)))"

record snap_env =
  snap_forked :: bool
  snap_pipe_ok :: bool
  snap_fault :: fault
  snap_sidecar_fault :: fault
  snap_now :: int
  snap_order :: "string list"

definition TakeSnapshot :: "(bytes \<Rightarrow> uint64) \<Rightarrow> snap_env \<Rightarrow> uint32 \<Rightarrow> engine \<Rightarrow> pstorage \<Rightarrow> wal_error option \<times> pstorage" where
  "TakeSnapshot H v i e s =
     (if \<not> persist s then (None, s)
      else case snapshotForkDump H (snap_forked v) (snap_pipe_ok v) (snap_fault v) (snap_now v) (snap_order v)
                  (shard_fingerprint i s) e (snap_file (disk s i)) of
        (r, f) \<Rightarrow>
          (let s1 = upd_disk i (\<lambda>d. d\<lparr>snap_file := f\<rparr>) s in
           case r of
             Inl err \<Rightarrow> (Some (WalSnapshot err), s1)
           | Inr u \<Rightarrow>
               (case handles s1 i of
                  None \<Rightarrow> (Some WalNotOpened, s1)
                | Some h \<Rightarrow>
                    truncateWALLocked (snap_sidecar_fault v) i h (length (wal_bytes (disk s1 i))) s1)))"

definition CloseShard :: "fault \<Rightarrow> uint32 \<Rightarrow> pstorage \<Rightarrow> wal_error option \<times> pstorage" where
  "CloseShard flt i s =
     (case handles s i of
        None \<Rightarrow> (None, s)
      | Some h \<Rightarrow>
          (let (err, nf) = (if wal_crypto h = None then (None, nonce_file (disk s i))
                            else writeNonceSidecar flt (nonceCtr h) (nonce_file (disk s i)));
               s1 = upd_disk i (\<lambda>d. d\<lparr>nonce_file := nf\<rparr>) s
           in if err \<noteq> None then (err, s1) else (None, s1\<lparr>handles := (handles s1)(i := None)\<rparr>)))"

section \<open>What a record does to the contents\<close>

definition rec_step :: "int \<Rightarrow> wal_rec \<Rightarrow> timed_map \<Rightarrow> timed_map" where
  "rec_step t r m =
     (case r of (ttl, k, v) \<Rightarrow>
        if ttl = tombstoneTTL then m(k := None)
        else if ttl \<noteq> 0 \<and> ttl \<le> t then m
        else m(k \<mapsto> (v, if ttl = 0 then None else Some ttl)))"

definition recovered :: "int \<Rightarrow> wal_rec list \<Rightarrow> timed_map \<Rightarrow> timed_map" where
  "recovered t rs m = foldl (\<lambda>m r. rec_step t r m) m rs"

lemma recovered_simps [simp]:
  "recovered t [] m = m" "recovered t (r # rs) m = recovered t rs (rec_step t r m)"
  by (simp_all add: recovered_def)

definition shows_from :: "prims \<Rightarrow> engine \<Rightarrow> int \<Rightarrow> timed_map \<Rightarrow> bool" where
  "shows_from P e t0 m \<longleftrightarrow> (\<forall>t\<ge>t0. engine_view P e t = lookup_at m t)"

text \<open>An engine a shard can load into: sealed values open, no ceiling to refuse a record.\<close>

definition loadable :: "prims \<Rightarrow> engine \<Rightarrow> bool" where
  "loadable P e \<longleftrightarrow> store_ok P e \<and> maxBytes e = 0"

definition nonces_given :: "(nat \<Rightarrow> bytes option) \<Rightarrow> bool" where
  "nonces_given rnd \<longleftrightarrow> (\<forall>i. \<exists>n. rnd i = Some n \<and> length n = NonceSize)"

lemma Set_unlimited:
  assumes "store_ok P e" "maxBytes e = 0" "rnd = Some n"
  shows "\<exists>e'. Set P t rnd k v ttl e = Returns (None, e') \<and> maxBytes e' = 0"
proof -
  have inv: "engine_inv e" using assms(1) by (simp add: store_ok_def)
  show ?thesis
    using unlimited_not_full [OF assms(2)] assms(2,3)
    by (cases rule: Set_cases [OF inv, of k v P t rnd ttl])
      (auto simp: EncryptInPlace_def stored_def split: if_splits)
qed

lemma applyRecord_step:
  assumes "loadable P e" "shows_from P e t m" "rnd = Some n" "length n = NonceSize" "0 \<le> t" "fst r < 2 ^ 63"
  shows "\<exists>oc e'. applyRecord P t rnd r e = Returns (oc, e') \<and> (\<forall>x. oc \<noteq> Rejected x) \<and>
      loadable P e' \<and> shows_from P e' t (rec_step t r m)"
proof -
  obtain ttl k v where r: "r = (ttl, k, v)" by (cases r)
  have ok: "store_ok P e" "maxBytes e = 0" using assms(1) by (auto simp: loadable_def)
  have env: "nonce_ok (t, rnd)" using assms(3,4) by (simp add: nonce_ok_def)
  let ?d = "if ttl \<noteq> 0 then until t ttl else 0"
  consider (del) "ttl = tombstoneTTL" | (skip) "ttl \<noteq> tombstoneTTL" "ttl \<noteq> 0" "ttl \<le> t"
    | (put) "ttl \<noteq> tombstoneTTL" "\<not> (ttl \<noteq> 0 \<and> ttl \<le> t)" by blast
  then show ?thesis
  proof cases
    case del
    then show ?thesis
      using estore.del_law [OF ok(1) env, of k] assms(2) ok(2) r
      by (auto simp: applyRecord_def engine_del_def loadable_def shows_from_def rec_step_def lookup_at_def fun_eq_iff)
  next
    case skip
    then show ?thesis using assms(1,2) r by (auto simp: applyRecord_def rec_step_def)
  next
    case put
    obtain e' where e': "Set P t rnd k v ?d e = Returns (None, e')" "maxBytes e' = 0"
      using Set_unlimited [OF ok assms(3)] by blast
    have dl: "deadline t ?d = (if ttl = 0 then None else Some ttl)"
      using put(2) deadline_until [of t ttl] assms(5,6) r by (auto simp: deadline_def)
    have "store_ok P e' \<and> (\<forall>u\<ge>t. engine_view P e' u =
        (engine_view P e u)(k := if past u (deadline t ?d) then None else Some v))"
      using estore.set_law [OF ok(1) env, of k v ?d] e'(1) by (simp add: engine_set_def)
    then have "shows_from P e' t (rec_step t r m)" "loadable P e'"
      using assms(2) e'(2) put r unfolding dl
      by (auto simp: shows_from_def rec_step_def lookup_at_def loadable_def fun_eq_iff)
    with e'(1) put r show ?thesis by (auto simp: applyRecord_def)
  qed
qed

section \<open>Replaying a log and its torn tail\<close>

lemma count_record_simps [simp]:
  "validOffset (count_record n oc st) = validOffset st + n"
  "recordsRead (count_record n oc st) = recordsRead st + 1"
  by (simp_all add: count_record_def)

lemma rec_ok_ttl: "rec_ok r \<Longrightarrow> fst r < 2 ^ 63"
  by (simp add: rec_ok_def)

lemma torn_no_rec: "rcodec.torn p \<Longrightarrow> decode_rec p = None"
  using rcodec.dec_torn by (auto simp: rcodec.torn_def)

lemma plain_loop_replays:
  assumes "list_all rec_ok rs" "rcodec.torn p" "nonces_given rnd" "0 \<le> t" "loadable P e" "shows_from P e t m"
  shows "\<exists>st' e'. plain_loop P t rnd (concat (map encode_rec rs) @ p) st e = Returns ((None, st'), e') \<and>
      validOffset st' = validOffset st + length (concat (map encode_rec rs)) \<and>
      loadable P e' \<and> shows_from P e' t (recovered t rs m)"
  using assms(1,5,6)
proof (induction rs arbitrary: st e m)
  case Nil
  then show ?case by (simp add: plain_loop.simps torn_no_rec [OF assms(2)])
next
  case (Cons r rs)
  obtain n where n: "rnd (recordsRead st) = Some n" "length n = NonceSize"
    using assms(3) by (auto simp: nonces_given_def)
  have rok: "rec_ok r" using Cons.prems(1) by simp
  obtain oc e1 where e1: "applyRecord P t (rnd (recordsRead st)) r e = Returns (oc, e1)"
    "\<forall>x. oc \<noteq> Rejected x" "loadable P e1" "shows_from P e1 t (rec_step t r m)"
    using applyRecord_step [OF Cons.prems(2,3) n assms(4) rec_ok_ttl [OF rok]] by blast
  let ?st = "count_record (length (encode_rec r)) oc st"
  have "plain_loop P t rnd (concat (map encode_rec (r # rs)) @ p) st e =
      plain_loop P t rnd (concat (map encode_rec rs) @ p) ?st e1"
    using e1(1,2) rcodec.dec_enc [OF rok] by (subst plain_loop.simps) (auto split: outcome.split)
  moreover obtain st' e' where "plain_loop P t rnd (concat (map encode_rec rs) @ p) ?st e1 = Returns ((None, st'), e')"
    "validOffset st' = validOffset ?st + length (concat (map encode_rec rs))" "loadable P e'"
    "shows_from P e' t (recovered t rs (rec_step t r m))"
    using Cons.IH [OF _ e1(3,4)] Cons.prems(1) by fastforce
  ultimately show ?case by simp
qed

subsection \<open>Sealed frames\<close>

fun enc_frame :: "bytes \<times> bytes \<Rightarrow> bytes" where
  "enc_frame (nonce, ciphertext) = frame_bytes nonce ciphertext"

fun frame_ok :: "bytes \<times> bytes \<Rightarrow> bool" where
  "frame_ok (nonce, ciphertext) \<longleftrightarrow> length nonce = 12 \<and> 16 \<le> length ciphertext \<and> 12 + length ciphertext < 2 ^ 32"

lemma frame_prefix:
  assumes "strict_prefix p (frame_bytes n c)" "4 \<le> length p"
  obtains q where "p = le_bytes 4 (12 + length c) @ q" "length q < length n + length c"
proof -
  obtain z where z: "frame_bytes n c = p @ z" "z \<noteq> []"
    using assms(1) by (auto simp: strict_prefix_def prefix_def)
  have "take 4 p = le_bytes 4 (12 + length c)"
    using arg_cong [OF z(1), of "take 4"] assms(2) by (simp add: frame_bytes_def)
  then have "p = le_bytes 4 (12 + length c) @ drop 4 p" by (metis append_take_drop_id)
  moreover have "length p < 4 + length n + length c"
    using arg_cong [OF z(1), of length] z(2) by (cases z) (simp_all add: frame_bytes_def)
  ultimately show thesis using that [of "drop 4 p"] assms(2) by simp
qed

interpretation fcodec: stream_codec enc_frame decode_frame frame_ok
proof
  fix x :: "bytes \<times> bytes" and rest p
  assume ok: "frame_ok x"
  obtain n c where x: "x = (n, c)" by fastforce
  have len: "length n = 12" "16 \<le> length c" "12 + length c < 256 ^ 4" using ok x by auto
  show "decode_frame (enc_frame x @ rest) = Some (x, length (enc_frame x))"
    using len by (simp add: x decode_frame_def frame_bytes_def le_nat_id Let_def)
  show "enc_frame x \<noteq> []"
    using len by (auto simp: x frame_bytes_def)
  assume pre: "strict_prefix p (enc_frame x)"
  show "decode_frame p = None"
  proof (cases "length p < 4")
    case False
    with pre x obtain q where "p = le_bytes 4 (12 + length c) @ q" "length q < length n + length c"
      using frame_prefix [of p n c] by auto
    with len show ?thesis by (simp add: decode_frame_def le_nat_id Let_def)
  qed (simp add: decode_frame_def)
qed

definition sealed_frame :: "prims \<Rightarrow> crypto_engine \<Rightarrow> uint32 \<Rightarrow> uint64 \<times> wal_rec \<Rightarrow> bytes \<times> bytes" where
  "sealed_frame P c i x =
     (case x of (ctr, r) \<Rightarrow> (wal_nonce ctr i, Seal P (aead_key c) (wal_nonce ctr i) (encode_rec r)))"

definition sealed_bytes :: "prims \<Rightarrow> crypto_engine \<Rightarrow> uint32 \<Rightarrow> uint64 \<times> wal_rec \<Rightarrow> bytes" where
  "sealed_bytes P c i x = enc_frame (sealed_frame P c i x)"

text \<open>A frame the code can have written: the record fits its fields and the frame its 32 bit length.\<close>

definition sealable :: "wal_rec \<Rightarrow> bool" where
  "sealable r \<longleftrightarrow> rec_ok r \<and> length (encode_rec r) + 28 < 2 ^ 32"

lemma length_wal_nonce [simp]: "length (wal_nonce ctr i) = 12"
  by (simp add: wal_nonce_def)

lemma frame_ctr_wal_nonce [codec_simps]: "frame_ctr (wal_nonce ctr i) = ctr"
  by (simp add: frame_ctr_def wal_nonce_def le_nat_id [OF unat64_less])

lemma sealed_frame_ok:
  assumes "aead_laws P" "crypto_wf c" "enabled c" "sealable r"
  shows "frame_ok (sealed_frame P c i (ctr, r))"
proof -
  have "length (Seal P (aead_key c) (wal_nonce ctr i) (encode_rec r)) = length (encode_rec r) + 16"
    using assms by (intro aead_Seal_length) (auto simp: crypto_wf_def)
  with assms(4) show ?thesis by (simp add: sealed_frame_def sealable_def del: encode_rec.simps)
qed

lemma split_plain_encode: "rec_ok r \<Longrightarrow> split_plain (encode_rec r) = Some r"
  by (cases r) (simp add: split_plain_def header_fields)

lemma sealed_open:
  assumes "aead_laws P" "crypto_wf c" "enabled c"
  shows "OpenWithCounter P c (wal_nonce ctr i) (Seal P (aead_key c) (wal_nonce ctr i) b) = Inr b"
proof -
  have "SealWithCounter P c (wal_nonce ctr i) b = Inr (Seal P (aead_key c) (wal_nonce ctr i) b)"
    using assms(3) by (simp add: SealWithCounter_def)
  then show ?thesis by (rule OpenWithCounter_SealWithCounter [OF assms(1,2)])
qed

lemma torn_no_frame: "fcodec.torn p \<Longrightarrow> decode_frame p = None"
  unfolding fcodec.torn_def using fcodec.dec_torn decode_frame_Nil by blast

lemma sealed_loop_replays:
  assumes "aead_laws P" "crypto_wf c" "enabled c" "list_all (\<lambda>x. sealable (snd x)) xs" "fcodec.torn p"
    and "nonces_given rnd" "0 \<le> t" "loadable P e" "shows_from P e t m"
  shows "\<exists>mx' st' e'. sealed_loop P c t rnd (concat (map (sealed_bytes P c i) xs) @ p) mx st e =
        Returns ((None, mx', st'), e') \<and>
      validOffset st' = validOffset st + length (concat (map (sealed_bytes P c i) xs)) \<and>
      mx' = foldl max mx (map fst xs) \<and> loadable P e' \<and> shows_from P e' t (recovered t (map snd xs) m)"
  using assms(4,8,9)
proof (induction xs arbitrary: mx st e m)
  case Nil
  then show ?case by (simp add: sealed_loop.simps torn_no_frame [OF assms(5)])
next
  case (Cons x xs)
  obtain ctr r where x: "x = (ctr, r)" by (cases x)
  obtain n where n: "rnd (recordsRead st) = Some n" "length n = NonceSize"
    using assms(6) by (auto simp: nonces_given_def)
  have sok: "sealable r" "rec_ok r" using Cons.prems(1) x by (auto simp: sealable_def)
  let ?f = "sealed_frame P c i x"
  let ?rest = "concat (map (sealed_bytes P c i) xs) @ p"
  obtain oc e1 where e1: "applyRecord P t (rnd (recordsRead st)) r e = Returns (oc, e1)"
    "\<forall>y. oc \<noteq> Rejected y" "loadable P e1" "shows_from P e1 t (rec_step t r m)"
    using applyRecord_step [OF Cons.prems(2,3) n assms(7) rec_ok_ttl [OF sok(2)]] by blast
  let ?st = "count_record (length (enc_frame ?f)) oc st" and ?mx = "max mx ctr"
  have dec: "decode_frame (enc_frame ?f @ ?rest) = Some (?f, length (enc_frame ?f))"
    using fcodec.dec_enc [OF sealed_frame_ok [OF assms(1-3) sok(1)]] x by simp
  have len: "\<not> length (encode_rec r) < 16" by (cases r) simp
  have "sealed_loop P c t rnd (enc_frame ?f @ ?rest) mx st e = sealed_loop P c t rnd ?rest ?mx ?st e1"
    using dec e1(1,2) len
    by (subst sealed_loop.simps)
      (auto simp: x sealed_frame_def sealed_open [OF assms(1-3)] split_plain_encode [OF sok(2)]
        frame_ctr_wal_nonce Let_def split: outcome.split)
  moreover obtain mx' st' e' where "sealed_loop P c t rnd ?rest ?mx ?st e1 = Returns ((None, mx', st'), e')"
    "validOffset st' = validOffset ?st + length (concat (map (sealed_bytes P c i) xs))"
    "mx' = foldl max ?mx (map fst xs)" "loadable P e'" "shows_from P e' t (recovered t (map snd xs) (rec_step t r m))"
  proof -
    have "list_all (\<lambda>x. sealable (snd x)) xs" using Cons.prems(1) by simp
    from Cons.IH [OF this e1(3,4), of ?mx ?st] show ?thesis using that by blast
  qed
  ultimately show ?case by (simp add: x sealed_bytes_def [of P c i "(ctr, r)"])
qed

section \<open>The log as a sequence of records\<close>

text \<open>
  A log in a mode (\<open>None\<close> plaintext, \<open>Some c\<close> sealed by \<open>c\<close>) that holds the
  records \<open>xs\<close>, each with the counter of its nonce, followed by a torn tail \<open>p\<close>.
\<close>

definition log_file :: "prims \<Rightarrow> uint32 \<Rightarrow> crypto_engine option \<Rightarrow> (uint64 \<times> wal_rec) list \<Rightarrow> bytes \<Rightarrow> bytes" where
  "log_file P i mode xs p =
     (case mode of
        None \<Rightarrow> concat (map encode_rec (map snd xs)) @ p
      | Some c \<Rightarrow> walMagic @ concat (map (sealed_bytes P c i) xs) @ p)"

definition log_ok :: "prims \<Rightarrow> crypto_engine option \<Rightarrow> (uint64 \<times> wal_rec) list \<Rightarrow> bytes \<Rightarrow> bool" where
  "log_ok P mode xs p \<longleftrightarrow>
     (case mode of
        None \<Rightarrow> list_all rec_ok (map snd xs) \<and> rcodec.torn p
      | Some c \<Rightarrow> aead_laws P \<and> crypto_wf c \<and> enabled c \<and> list_all (\<lambda>x. sealable (snd x)) xs \<and> fcodec.torn p)"

definition log_of :: "prims \<Rightarrow> uint32 \<Rightarrow> crypto_engine option \<Rightarrow> pstorage \<Rightarrow> (uint64 \<times> wal_rec) list \<Rightarrow> bytes \<Rightarrow> bool" where
  "log_of P i mode s xs p \<longleftrightarrow>
     persist s \<and> log_ok P mode xs p \<and> wal_bytes (disk s i) = log_file P i mode xs p \<and>
     (\<exists>h. handles s i = Some h \<and> wal_crypto h = mode \<and> pendingCrypto h = None)"

definition nonce_counter :: "uint32 \<Rightarrow> pstorage \<Rightarrow> uint64" where
  "nonce_counter i s = (case handles s i of None \<Rightarrow> 0 | Some h \<Rightarrow> nonceCtr h)"

definition nonces_fresh :: "uint32 \<Rightarrow> pstorage \<Rightarrow> (uint64 \<times> wal_rec) list \<Rightarrow> bool" where
  "nonces_fresh i s xs \<longleftrightarrow> distinct (map fst xs) \<and> (\<forall>x\<in>set xs. fst x < nonce_counter i s)"

datatype wal_op = WalSet string bytes gotime | WalDel string

fun wal_op_rec :: "wal_op \<Rightarrow> wal_rec" where
  "wal_op_rec (WalSet k v ttl) = (unix_nano ttl, k, v)"
| "wal_op_rec (WalDel k) = (tombstoneTTL, k, [])"

fun wal_do :: "prims \<Rightarrow> nat option \<Rightarrow> uint32 \<Rightarrow> wal_op \<Rightarrow> pstorage \<Rightarrow> wal_error option \<times> pstorage" where
  "wal_do P tear i (WalSet k v ttl) s = Write P tear i k v ttl s"
| "wal_do P tear i (WalDel k) s = wal_Delete P tear i k s"

fun wal_run :: "prims \<Rightarrow> uint32 \<Rightarrow> wal_op list \<Rightarrow> pstorage \<Rightarrow> pstorage option" where
  "wal_run P i [] s = Some s"
| "wal_run P i (op # ops) s =
     (case wal_do P None i op s of (None, s') \<Rightarrow> wal_run P i ops s' | (Some err, s') \<Rightarrow> None)"

lemma unix_nano_range: "- (2 ^ 63) \<le> unix_nano t \<and> unix_nano t < 2 ^ 63"
  using int64_range by (simp add: unix_nano_def split: option.split)

lemma wal_do_append:
  assumes "persist s" "wal_do P tear i op s = (r, s')" "r = None \<or> r = Some WalIO"
  shows "rec_ok (wal_op_rec op) \<and> appendRecord P tear i (encode_rec (wal_op_rec op)) s = (r, s')"
proof (cases op)
  case (WalSet k v ttl)
  with assms unix_nano_range [of ttl] show ?thesis by (auto simp: Write_def rec_ok_def split: if_splits)
next
  case (WalDel k)
  with assms show ?thesis by (auto simp: wal_Delete_def rec_ok_def tombstoneTTL_def split: if_splits)
qed

text \<open>The bytes an append adds, by mode, and the counter it uses.\<close>

definition op_bytes :: "prims \<Rightarrow> uint32 \<Rightarrow> crypto_engine option \<Rightarrow> uint64 \<times> wal_rec \<Rightarrow> bytes" where
  "op_bytes P i mode x = (case mode of None \<Rightarrow> encode_rec (snd x) | Some c \<Rightarrow> sealed_bytes P c i x)"

lemma log_file_snoc: "log_file P i mode xs [] @ op_bytes P i mode x = log_file P i mode (xs @ [x]) []"
  by (auto simp: log_file_def op_bytes_def split: option.split)

lemma log_file_tail: "log_file P i mode xs [] @ p = log_file P i mode xs p"
  by (auto simp: log_file_def split: option.split)

lemma seal_record_bytes:
  assumes "aead_laws P" "crypto_wf c" "enabled c" "rec_ok r" "seal_record P c ctr i (encode_rec r) = Inr b"
  shows "b = sealed_bytes P c i (ctr, r) \<and> sealable r"
proof -
  let ?s = "Seal P (aead_key c) (wal_nonce ctr i) (encode_rec r)"
  have seal: "SealWithCounter P c (wal_nonce ctr i) (encode_rec r) = Inr ?s"
    using assms(3) by (simp add: SealWithCounter_def)
  have "length ?s = length (encode_rec r) + 16"
    using assms by (intro aead_Seal_length) (auto simp: crypto_wf_def)
  with assms(4,5) seal show ?thesis
    by (auto simp: seal_record_def sealable_def sealed_bytes_def sealed_frame_def split: if_splits)
qed

lemma append_bytes_effect:
  assumes "append_bytes tear i b s = (r, s')"
  shows "r = (case tear of None \<Rightarrow> None | Some n \<Rightarrow> Some WalIO) \<and>
      wal_bytes (disk s' i) = wal_bytes (disk s i) @ (case tear of None \<Rightarrow> b | Some n \<Rightarrow> take n b) \<and>
      handles s' = handles s \<and> persist s' = persist s \<and> (\<forall>j. j \<noteq> i \<longrightarrow> disk s' j = disk s j)"
  using assms by (auto simp: append_bytes_def upd_disk_def wal_bytes_def split: option.splits)

lemma append_step:
  assumes "log_of P i mode s xs []" "wal_do P tear i op s = (r, s')" "r = None \<or> r = Some WalIO"
  defines "x \<equiv> (nonce_counter i s, wal_op_rec op)"
  shows "log_ok P mode (xs @ [x]) [] \<and> r = (case tear of None \<Rightarrow> None | Some n \<Rightarrow> Some WalIO) \<and>
      wal_bytes (disk s' i) = log_file P i mode xs
        (case tear of None \<Rightarrow> op_bytes P i mode x | Some n \<Rightarrow> take n (op_bytes P i mode x)) \<and>
      persist s' \<and> (\<exists>h. handles s' i = Some h \<and> wal_crypto h = mode \<and> pendingCrypto h = None \<and>
        nonceCtr h = (if mode = None then nonce_counter i s else nonce_counter i s + 1)) \<and>
      (\<forall>j. j \<noteq> i \<longrightarrow> disk s' j = disk s j)"
proof -
  obtain h where h: "handles s i = Some h" "wal_crypto h = mode" "pendingCrypto h = None"
    and st: "persist s" "log_ok P mode xs []" "wal_bytes (disk s i) = log_file P i mode xs []"
    using assms(1) by (auto simp: log_of_def)
  have op: "rec_ok (wal_op_rec op)" "appendRecord P tear i (encode_rec (wal_op_rec op)) s = (r, s')"
    using wal_do_append [OF st(1) assms(2,3)] by auto
  show ?thesis
  proof (cases mode)
    case None
    then have "append_bytes tear i (encode_rec (wal_op_rec op)) s = (r, s')"
      using op(2) h by (simp add: appendRecord_def)
    from append_bytes_effect [OF this] show ?thesis
      using None h st op(1)
      by (auto simp: x_def log_ok_def op_bytes_def nonce_counter_def log_file_tail split: option.split)
  next
    case (Some c)
    have wf: "aead_laws P" "crypto_wf c" "enabled c" using st(2) Some by (auto simp: log_ok_def)
    have app: "appendRecordEncrypted P tear i h c (encode_rec (wal_op_rec op)) s = (r, s')"
      using op(2) h Some by (simp add: appendRecord_def)
    then obtain b where b: "seal_record P c (nonceCtr h) i (encode_rec (wal_op_rec op)) = Inr b"
      using assms(3) by (auto simp: appendRecordEncrypted_def seal_record_def Let_def split: sum.splits if_splits)
    have sb: "b = sealed_bytes P c i x" "sealable (wal_op_rec op)"
      using seal_record_bytes [OF wf op(1) b] h(1) by (auto simp: x_def nonce_counter_def)
    have "append_bytes tear i b (upd_handle i (h\<lparr>nonceCtr := nonceCtr h + 1\<rparr>) s) = (r, s')"
      using app b by (simp add: appendRecordEncrypted_def)
    from append_bytes_effect [OF this] show ?thesis
      using Some h st sb
      by (auto simp: x_def log_ok_def op_bytes_def nonce_counter_def log_file_tail upd_handle_def split: option.split)
  qed
qed

lemma wal_run_log:
  assumes "log_of P i mode s xs []" "wal_run P i ops s = Some s'"
  shows "\<exists>ctrs. length ctrs = length ops \<and> log_of P i mode s' (xs @ zip ctrs (map wal_op_rec ops)) [] \<and>
      (\<forall>j. j \<noteq> i \<longrightarrow> disk s' j = disk s j)"
  using assms
proof (induction ops arbitrary: s xs)
  case (Cons op ops)
  obtain s1 where s1: "wal_do P None i op s = (None, s1)" "wal_run P i ops s1 = Some s'"
    using Cons.prems(2) by (auto split: prod.splits option.splits)
  let ?x = "(nonce_counter i s, wal_op_rec op)"
  note st = append_step [OF Cons.prems(1) s1(1)]
  have "log_of P i mode s1 (xs @ [?x]) []"
    unfolding log_of_def using st by (auto simp: log_file_snoc [symmetric] log_file_tail)
  from Cons.IH [OF this s1(2)] obtain ctrs where "length ctrs = length ops"
    "log_of P i mode s' ((xs @ [?x]) @ zip ctrs (map wal_op_rec ops)) []" "\<forall>j. j \<noteq> i \<longrightarrow> disk s' j = disk s1 j"
    by blast
  with st show ?case by (intro exI [of _ "nonce_counter i s # ctrs"]) auto
qed (auto intro: exI [of _ "[]"])

text \<open>Along the run the counters are those the handle hands out: strictly increasing while they do not wrap.\<close>

lemma wal_run_fresh:
  assumes "log_of P i (Some c) s xs []" "nonces_fresh i s xs" "wal_run P i ops s = Some s'"
    and "unat (nonce_counter i s) + length ops < 2 ^ 64"
  shows "\<exists>ctrs. length ctrs = length ops \<and> log_of P i (Some c) s' (xs @ zip ctrs (map wal_op_rec ops)) [] \<and>
      nonces_fresh i s' (xs @ zip ctrs (map wal_op_rec ops))"
  using assms
proof (induction ops arbitrary: s xs)
  case (Cons op ops)
  obtain s1 where s1: "wal_do P None i op s = (None, s1)" "wal_run P i ops s1 = Some s'"
    using Cons.prems(3) by (auto split: prod.splits option.splits)
  let ?c = "nonce_counter i s"
  let ?x = "(?c, wal_op_rec op)"
  note st = append_step [OF Cons.prems(1) s1(1)]
  have log: "log_of P i (Some c) s1 (xs @ [?x]) []"
    unfolding log_of_def using st by (auto simp: log_file_snoc [symmetric] log_file_tail)
  have ctr: "nonce_counter i s1 = ?c + 1" using st by (auto simp: nonce_counter_def)
  have next_ctr: "unat (?c + 1) = unat ?c + 1"
    using Cons.prems(4) by (simp add: unat_word_ariths)
  then have "?c < ?c + 1" by (simp add: word_less_nat_alt)
  then have "nonces_fresh i s1 (xs @ [?x])"
    using Cons.prems(2) unfolding nonces_fresh_def ctr by (auto intro: order.strict_trans)
  from Cons.IH [OF log this s1(2)] next_ctr Cons.prems(4) ctr
  obtain ctrs where "length ctrs = length ops"
    "log_of P i (Some c) s' ((xs @ [?x]) @ zip ctrs (map wal_op_rec ops)) []"
    "nonces_fresh i s' ((xs @ [?x]) @ zip ctrs (map wal_op_rec ops))"
    by auto
  then show ?case by (intro exI [of _ "?c # ctrs"]) auto
qed (auto intro: exI [of _ "[]"])

lemma log_ok_no_tail: "log_ok P mode xs p \<Longrightarrow> log_ok P mode xs []"
  by (auto simp: log_ok_def rcodec.torn_def fcodec.torn_def split: option.splits)

lemma finishReplay_log:
  assumes "wal_bytes (disk s i) = log_file P i mode xs p" "truncate_ok v"
  shows "wal_bytes (disk (finishReplay v i (length (log_file P i mode xs [])) s) i) = log_file P i mode xs [] \<and>
      handles (finishReplay v i n s) = handles s \<and> persist (finishReplay v i n s) = persist s"
proof -
  have "log_file P i mode xs p = log_file P i mode xs [] @ p" by (simp add: log_file_tail)
  with assms show ?thesis
    by (auto simp: finishReplay_def upd_disk_def wal_bytes_def Let_def)
qed

definition max_ctr :: "(uint64 \<times> wal_rec) list \<Rightarrow> uint64" where
  "max_ctr xs = foldl max 0 (map fst xs)"

lemma foldl_max_ge: "(m :: uint64) \<le> foldl max m ns \<and> (\<forall>n\<in>set ns. n \<le> foldl max m ns)"
proof (induction ns arbitrary: m)
  case (Cons n ns)
  then have "max m n \<le> foldl max (max m n) ns" "\<forall>k\<in>set ns. k \<le> foldl max (max m n) ns" by auto
  then show ?case by auto
qed simp

lemma foldl_max_in: "foldl max (m :: uint64) ns \<in> insert m (set ns)"
proof (induction ns arbitrary: m)
  case (Cons n ns)
  from Cons [of "max m n"] show ?case by (auto simp: max_def split: if_splits)
qed simp

lemma replayWAL_log:
  assumes log: "log_of P i mode s xs p" and v: "nonces_given (load_nonces v)" "0 \<le> load_now v" "truncate_ok v"
    and e: "loadable P e" "shows_from P e (load_now v) m"
  shows "\<exists>e' s'. replayWAL P v i e s = Returns (None, e', s') \<and> loadable P e' \<and>
      shows_from P e' (load_now v) (recovered (load_now v) (map snd xs) m) \<and> log_of P i mode s' xs [] \<and>
      (mode \<noteq> None \<longrightarrow>
         nonce_counter i s' = max (max_ctr xs + 1) (readNonceSidecar (nonce_file (disk s i))))"
proof -
  obtain h where h: "handles s i = Some h" "wal_crypto h = mode" "pendingCrypto h = None"
    and st: "persist s" "log_ok P mode xs p" "wal_bytes (disk s i) = log_file P i mode xs p"
    using log by (auto simp: log_of_def)
  show ?thesis
  proof (cases mode)
    case None
    have lo: "list_all rec_ok (map snd xs)" "rcodec.torn p" using st(2) None by (auto simp: log_ok_def)
    obtain st' e' where r: "plain_loop P (load_now v) (load_nonces v) (log_file P i mode xs p) (stats0 0) e = Returns ((None, st'), e')"
      "validOffset st' = length (log_file P i mode xs [])" "loadable P e'"
      "shows_from P e' (load_now v) (recovered (load_now v) (map snd xs) m)"
      using plain_loop_replays [OF lo v(1,2) e, of "stats0 0"] None by (auto simp: log_file_def stats0_def)
    have "replayWAL P v i e s = Returns (None, e', finishReplay v i (length (log_file P i mode xs [])) s)"
      using r(1,2) h None st(3) by (simp add: replayWAL_def replayWALPlaintext_def)
    with r(3,4) finishReplay_log [OF st(3) v(3)] h st(1) log_ok_no_tail [OF st(2)] None show ?thesis
      by (auto simp: log_of_def)
  next
    case (Some c)
    have lo: "aead_laws P" "crypto_wf c" "enabled c" "list_all (\<lambda>x. sealable (snd x)) xs" "fcodec.torn p"
      using st(2) Some by (auto simp: log_ok_def)
    have fl: "drop 4 (wal_bytes (disk s i)) = concat (map (sealed_bytes P c i) xs) @ p"
      using st(3) Some by (simp add: log_file_def walMagic_def)
    obtain st' e' where r: "sealed_loop P c (load_now v) (load_nonces v) (drop 4 (wal_bytes (disk s i))) 0 (stats0 4) e =
        Returns ((None, max_ctr xs, st'), e')"
      "validOffset st' = length (log_file P i mode xs [])" "loadable P e'"
      "shows_from P e' (load_now v) (recovered (load_now v) (map snd xs) m)"
      using sealed_loop_replays [OF lo v(1,2) e, of i 0 "stats0 4"] Some unfolding fl
      by (auto simp: log_file_def stats0_def max_ctr_def walMagic_def)
    let ?w = "max (max_ctr xs + 1) (readNonceSidecar (nonce_file (disk s i)))"
    let ?s = "upd_disk i (\<lambda>d. d\<lparr>nonce_file := snd (writeNonceSidecar (sidecar_fault v) ?w (nonce_file d))\<rparr>)
        (upd_handle i (h\<lparr>nonceCtr := ?w\<rparr>) s)"
    have "replayWAL P v i e s = Returns (None, e', finishReplay v i (length (log_file P i mode xs [])) ?s)"
      using r(1,2) h Some by (simp add: replayWAL_def replayWALEncrypted_def Let_def)
    moreover have "wal_bytes (disk ?s i) = log_file P i mode xs p" "handles ?s i = Some (h\<lparr>nonceCtr := ?w\<rparr>)"
      "persist ?s"
      using st(1,3) by (simp_all add: upd_disk_def upd_handle_def wal_bytes_def)
    ultimately show ?thesis
      using r(3,4) finishReplay_log [of ?s i P mode xs p v] v(3) h log_ok_no_tail [OF st(2)] Some
      by (auto simp: log_of_def nonce_counter_def)
  qed
qed

end
