(* ===== verification/Wal_Recovery.thy ===== *)
theory Wal_Recovery
  imports Wal
begin

text \<open>
  Properties of the write-ahead log of \<^verbatim>\<open>src/internal/persistence\<close>: what a restart
  recovers after a crash at any byte of an append, in both log formats; which nonces the encrypted
  log uses; what a snapshot does to the log; and where recovery departs from the history.
\<close>

section \<open>Reopening\<close>

lemma upd_disk_simps [simp]:
  "handles (upd_disk i f s) = handles s" "persist (upd_disk i f s) = persist s"
  "disk (upd_disk i f s) j = (if j = i then f (disk s i) else disk s j)"
  by (simp_all add: upd_disk_def)

lemma upd_handle_simps [simp]:
  "handles (upd_handle i h s) = (handles s)(i \<mapsto> h)" "persist (upd_handle i h s) = persist s"
  "disk (upd_handle i h s) = disk s"
  by (simp_all add: upd_handle_def)

lemma wal_bytes_upd [simp]: "wal_bytes (d\<lparr>wal_file := Some b\<rparr>) = b"
  "wal_bytes (d\<lparr>nonce_file := x\<rparr>) = wal_bytes d" "wal_bytes (d\<lparr>snap_file := x\<rparr>) = wal_bytes d"
  by (simp_all add: wal_bytes_def)

definition sealing :: "crypto_engine option \<Rightarrow> bool" where
  "sealing ce = (case ce of Some c \<Rightarrow> enabled c | None \<Rightarrow> False)"

lemma log_ok_sealing: "log_ok P mode xs p \<Longrightarrow> sealing mode \<longleftrightarrow> mode \<noteq> None"
  by (auto simp: log_ok_def sealing_def split: option.splits)

lemma OpenShard_log:
  assumes "persist s" "wal_bytes (disk s i) = log_file P i mode xs p" "log_ok P mode xs p"
    and "OpenShard i mode s = (None, s')"
  shows "log_of P i mode s' xs p \<and> nonce_file (disk s' i) = nonce_file (disk s i) \<and>
      snap_file (disk s' i) = snap_file (disk s i)"
proof (cases mode)
  case None
  with assms show ?thesis
    by (auto simp: OpenShard_def log_of_def log_file_def Let_def split: if_splits)
next
  case (Some c)
  then have en: "enabled c" using log_ok_sealing [OF assms(3)] by (simp add: sealing_def)
  have "log_file P i mode xs p \<noteq> []" "take 4 (log_file P i mode xs p) = walMagic"
    "\<not> length (log_file P i mode xs p) < 4"
    using Some by (simp_all add: log_file_def walMagic_def)
  with assms Some en show ?thesis
    by (auto simp: OpenShard_def log_of_def Let_def split: if_splits)
qed

lemma LoadShard_log:
  assumes log: "log_of P i mode s xs p" and snap: "\<not> snapshotExists (snap_file (disk s i))"
    and v: "nonces_given (load_nonces v)" "0 \<le> load_now v" "truncate_ok v"
    and e: "loadable P e" "shows_from P e (load_now v) m"
  shows "\<exists>e' s'. LoadShard P H v i e s = Returns (None, e', s') \<and> loadable P e' \<and>
      shows_from P e' (load_now v) (recovered (load_now v) (map snd xs) m) \<and> log_of P i mode s' xs [] \<and>
      (mode \<noteq> None \<longrightarrow> nonce_counter i s' = max (max_ctr xs + 1) (readNonceSidecar (nonce_file (disk s i))))"
proof -
  obtain e' s' where r: "replayWAL P v i e s = Returns (None, e', s')" "loadable P e'"
    "shows_from P e' (load_now v) (recovered (load_now v) (map snd xs) m)" "log_of P i mode s' xs []"
    "mode \<noteq> None \<longrightarrow> nonce_counter i s' = max (max_ctr xs + 1) (readNonceSidecar (nonce_file (disk s i)))"
    using replayWAL_log [OF log v e] by blast
  then have "LoadShard P H v i e s = Returns (None, e', s')"
    using log snap by (auto simp: LoadShard_def log_of_def)
  with r show ?thesis by blast
qed

section \<open>Crash recovery\<close>

lemma torn_op:
  assumes "log_ok P mode [x] []" "n < length (op_bytes P i mode x)"
  shows "log_ok P mode [] (take n (op_bytes P i mode x))"
proof (cases mode)
  case None
  with assms show ?thesis
    using rcodec.take_enc_torn [of "snd x" n] by (simp add: log_ok_def op_bytes_def)
next
  case (Some c)
  obtain ctr r where x: "x = (ctr, r)" by (cases x)
  have "frame_ok (sealed_frame P c i x)"
    using assms(1) Some x sealed_frame_ok [of P c r i ctr] by (simp add: log_ok_def)
  with assms Some show ?thesis
    using fcodec.take_enc_torn [of "sealed_frame P c i x" n] by (simp add: log_ok_def op_bytes_def sealed_bytes_def)
qed

lemma log_ok_append: "log_ok P mode (xs @ ys) p \<longleftrightarrow> log_ok P mode xs [] \<and> log_ok P mode ys p"
  by (auto simp: log_ok_def rcodec.torn_def fcodec.torn_def split: option.split)

text \<open>The state a crash leaves: the disk as it is, no handles.\<close>

definition crash :: "pstorage \<Rightarrow> pstorage" where
  "crash s = NewStorage True (disk s)"

lemma crash_simps [simp]: "persist (crash s)" "disk (crash s) = disk s" "handles (crash s) = Map.empty"
  by (simp_all add: crash_def NewStorage_def)


section \<open>Recovery and history\<close>

text \<open>The contents the acknowledged records describe, expirations kept as times.\<close>

definition hist_step :: "wal_rec \<Rightarrow> timed_map \<Rightarrow> timed_map" where
  "hist_step r m =
     (case r of (ttl, k, v) \<Rightarrow>
        if ttl = tombstoneTTL then m(k := None) else m(k \<mapsto> (v, if ttl = 0 then None else Some ttl)))"

definition history :: "wal_rec list \<Rightarrow> timed_map \<Rightarrow> timed_map" where
  "history rs m = foldl (\<lambda>m r. hist_step r m) m rs"

definition expired_set :: "int \<Rightarrow> wal_rec \<Rightarrow> bool" where
  "expired_set t r \<longleftrightarrow> fst r \<noteq> tombstoneTTL \<and> fst r \<noteq> 0 \<and> fst r \<le> t"

definition last_on :: "string \<Rightarrow> wal_rec list \<Rightarrow> wal_rec option" where
  "last_on k rs = (case filter (\<lambda>r. fst (snd r) = k) (rev rs) of [] \<Rightarrow> None | r # _ \<Rightarrow> Some r)"

lemma history_snoc: "history (rs @ [r]) m = hist_step r (history rs m)"
  and recovered_snoc: "recovered t (rs @ [r]) m = rec_step t r (recovered t rs m)"
  by (simp_all add: history_def recovered_def)

lemma last_on_snoc: "last_on k (rs @ [r]) = (if fst (snd r) = k then Some r else last_on k rs)"
  by (simp add: last_on_def)

lemma recovered_history:
  assumes "\<forall>r. last_on k rs = Some r \<longrightarrow> \<not> expired_set t r"
  shows "recovered t rs m k = history rs m k"
  using assms
proof (induction rs rule: rev_induct)
  case (snoc r rs)
  obtain ttl j v where r: "r = (ttl, j, v)" by (cases r)
  with snoc show ?case
    by (cases "j = k")
      (auto simp: history_snoc recovered_snoc last_on_snoc hist_step_def rec_step_def expired_set_def split: if_splits)
qed (simp add: recovered_def history_def)

text \<open>
  What a restart restores of a key is what the acknowledged history says, for every key whose
  last record is not a write that has expired meanwhile.
\<close>

theorem recovery_matches_history:
  assumes "log_of P i mode s xs p" "\<not> snapshotExists (snap_file (disk s i))"
    and "nonces_given (load_nonces v)" "0 \<le> load_now v" "truncate_ok v"
    and "loadable P e" "items e = Map.empty"
    and "\<forall>r. last_on k (map snd xs) = Some r \<longrightarrow> \<not> expired_set (load_now v) r"
  shows "\<exists>e' s'. LoadShard P H v i e s = Returns (None, e', s') \<and>
      (\<forall>t\<ge>load_now v. engine_view P e' t k = lookup_at (history (map snd xs) Map.empty) t k)"
proof -
  have "shows_from P e (load_now v) Map.empty"
    using assms(7) by (auto simp: shows_from_def engine_view_def lookup_at_def fun_eq_iff)
  from LoadShard_log [OF assms(1-6) this, of H] obtain e' s' where
    "LoadShard P H v i e s = Returns (None, e', s')"
    "shows_from P e' (load_now v) (recovered (load_now v) (map snd xs) Map.empty)" by blast
  with recovered_history [OF assms(8), of Map.empty] show ?thesis
    by (auto simp: shows_from_def lookup_at_def)
qed

text \<open>
  C38. The excluded case is a defect: replay skips an expired write instead of letting it erase
  the key, so a value it had replaced comes back. After \<^verbatim>\<open>SET k v1\<close> and
  \<^verbatim>\<open>SET k v2\<close> with an expiration that passes while the shard is down, the restarted
  engine answers \<open>v1\<close>, which no history allows.
\<close>

theorem expired_overwrite_resurrects:
  assumes "log_of P i mode s [(c1, (0, k, v1)), (c2, (x, k, v2))] p" "\<not> snapshotExists (snap_file (disk s i))"
    and "nonces_given (load_nonces v)" "0 \<le> load_now v" "truncate_ok v"
    and "loadable P e" "items e = Map.empty" "0 < x" "x \<le> load_now v" "load_now v < t"
  shows "\<exists>e' s'. LoadShard P H v i e s = Returns (None, e', s') \<and> engine_view P e' t k = Some v1 \<and>
      lookup_at (history [(0, k, v1), (x, k, v2)] Map.empty) t k = None"
proof -
  have "shows_from P e (load_now v) Map.empty"
    using assms(7) by (auto simp: shows_from_def engine_view_def lookup_at_def fun_eq_iff)
  from LoadShard_log [OF assms(1-6) this, of H] obtain e' s' where
    "LoadShard P H v i e s = Returns (None, e', s')"
    "shows_from P e' (load_now v) (recovered (load_now v) [(0, k, v1), (x, k, v2)] Map.empty)" by auto
  with assms(8-10) show ?thesis
    by (auto simp: shows_from_def lookup_at_def rec_step_def history_def hist_step_def tombstoneTTL_def)
qed

section \<open>Nonces of the encrypted log\<close>

lemma max_ctr_props: "\<forall>x\<in>set xs. fst x \<le> max_ctr xs" "max_ctr xs \<in> insert 0 (fst ` set xs)"
  using foldl_max_ge [of 0 "map fst xs"] foldl_max_in [of 0 "map fst xs"] by (auto simp: max_ctr_def)

lemma unat_less_less: "unat (a :: uint64) < B \<Longrightarrow> B < 2 ^ 64 \<Longrightarrow> unat (a + 1) = unat a + 1"
  by (simp add: unat_word_ariths)


text \<open>
  The claim of the code that nonces never repeat across crashes fails for a torn append: its
  counter is not counted on replay, so the next record is sealed under the nonce of the record
  whose first bytes already reached the disk.
\<close>

theorem torn_append_reuses_nonce:
  assumes "log_of P i (Some c) s xs []" "nonce_counter i s = max_ctr xs + 1"
    and "readNonceSidecar (nonce_file (disk s i)) \<le> nonce_counter i s"
    and "wal_do P (Some n) i op s = (Some WalIO, s1)"
    and "n < length (op_bytes P i (Some c) (nonce_counter i s, wal_op_rec op))"
    and "OpenShard i (Some c) (crash s1) = (None, s2)" "\<not> snapshotExists (snap_file (disk s1 i))"
    and "nonce_file (disk s1 i) = nonce_file (disk s i)"
    and "nonces_given (load_nonces v)" "0 \<le> load_now v" "truncate_ok v" "loadable P e" "items e = Map.empty"
  shows "\<exists>e' s3. LoadShard P H v i e s2 = Returns (None, e', s3) \<and>
      wal_nonce (nonce_counter i s3) i = wal_nonce (nonce_counter i s) i"
proof -
  let ?x = "(nonce_counter i s, wal_op_rec op)"
  note st = append_step [OF assms(1,4)]
  have "log_ok P (Some c) xs (take n (op_bytes P i (Some c) ?x))"
    using st torn_op [OF _ assms(5)] log_ok_append [of P "Some c" xs "[?x]" "[]"] log_ok_append [of P "Some c" xs "[]"]
    by auto
  then have s2: "log_of P i (Some c) s2 xs (take n (op_bytes P i (Some c) ?x))"
    "snap_file (disk s2 i) = snap_file (disk s1 i)" "nonce_file (disk s2 i) = nonce_file (disk s i)"
    using OpenShard_log [OF crash_simps(1) _ _ assms(6)] st assms(8) by auto
  have empty: "shows_from P e (load_now v) Map.empty"
    using assms(13) by (auto simp: shows_from_def engine_view_def lookup_at_def fun_eq_iff)
  have "\<not> snapshotExists (snap_file (disk s2 i))" using s2(2) assms(7) by simp
  then obtain e' s3 where "LoadShard P H v i e s2 = Returns (None, e', s3)"
    "nonce_counter i s3 = max (max_ctr xs + 1) (readNonceSidecar (nonce_file (disk s2 i)))"
    using LoadShard_log [OF s2(1) _ assms(9-12) empty, of H] by blast
  with assms(2,3) s2(3) show ?thesis by (auto simp: max_def)
qed

section \<open>Snapshots, small files, failed appends\<close>

text \<open>
  Taking a snapshot never changes the log: the file is truncated to its own current length.
  No acknowledged record can be lost to a snapshot, and none is ever compacted away either.
\<close>

theorem snapshot_keeps_log:
  "TakeSnapshot H v i e s = (r, s') \<Longrightarrow> wal_bytes (disk s' j) = wal_bytes (disk s j)"
  by (auto simp: TakeSnapshot_def truncateWALLocked_def zeros_def Let_def split: if_splits prod.splits sum.splits option.splits)

text \<open>
  A shard whose log file holds one to three bytes, which is what a crash during the very
  first append or during the write of the magic leaves, cannot be opened again: the header read
  fails before the recovery that would cut such a tail.
\<close>

theorem OpenShard_rejects_short_log:
  assumes "persist s" "0 < length (wal_bytes (disk s i))" "length (wal_bytes (disk s i)) < 4"
  shows "OpenShard i ce s = (Some WalHeaderRead, s)"
  using assms by (auto simp: OpenShard_def Let_def)

lemma le_bytes_4:
  "le_bytes 4 n = [char_of (n mod 256), char_of (n div 256 mod 256), char_of (n div 256 div 256 mod 256),
     char_of (n div 256 div 256 div 256 mod 256)]"
proof -
  have "(4::nat) = Suc (Suc (Suc (Suc 0)))" by simp
  then show ?thesis by (simp only: le_bytes.simps)
qed


section \<open>Appends succeed\<close>

definition fits :: "crypto_engine option \<Rightarrow> wal_rec \<Rightarrow> bool" where
  "fits mode r = (case mode of None \<Rightarrow> rec_ok r | Some c \<Rightarrow> sealable r)"

lemma sealable_fits: "sealable r \<Longrightarrow> fits mode r"
  by (auto simp: fits_def sealable_def split: option.split)

lemma seal_record_total:
  assumes "aead_laws P" "crypto_wf c" "enabled c"
  shows "seal_record P c ctr i (encode_rec r) =
      (if length (encode_rec r) + 28 < 2 ^ 32 then Inr (sealed_bytes P c i (ctr, r)) else Inl WalRecordTooLarge)"
proof -
  have "length (Seal P (aead_key c) (wal_nonce ctr i) (encode_rec r)) = length (encode_rec r) + 16"
    using assms by (intro aead_Seal_length) (auto simp: crypto_wf_def)
  moreover have "SealWithCounter P c (wal_nonce ctr i) (encode_rec r) = Inr (Seal P (aead_key c) (wal_nonce ctr i) (encode_rec r))"
    using assms(3) by (simp add: SealWithCounter_def)
  ultimately show ?thesis
    by (auto simp: seal_record_def sealed_bytes_def sealed_frame_def simp del: encode_rec.simps)
qed

lemma append_bytes_total: "\<exists>s'. append_bytes tear i b s = (case tear of None \<Rightarrow> None | Some n \<Rightarrow> Some WalIO, s')"
  by (simp add: append_bytes_def split: option.split)

lemma wal_do_rec_ok: "persist s \<Longrightarrow> rec_ok (wal_op_rec op) \<Longrightarrow>
    wal_do P tear i op s = appendRecord P tear i (encode_rec (wal_op_rec op)) s"
  by (cases op) (auto simp: Write_def wal_Delete_def rec_ok_def)

lemma wal_do_total:
  assumes "log_of P i mode s xs []" "fits mode (wal_op_rec op)"
  shows "\<exists>s'. wal_do P tear i op s = (case tear of None \<Rightarrow> None | Some n \<Rightarrow> Some WalIO, s')"
proof -
  obtain h where h: "handles s i = Some h" "wal_crypto h = mode" "pendingCrypto h = None" "persist s"
    "log_ok P mode xs []" using assms(1) by (auto simp: log_of_def)
  have "rec_ok (wal_op_rec op)" using assms(2) by (auto simp: fits_def sealable_def split: option.splits)
  note do_eq = wal_do_rec_ok [OF h(4) this, of P tear i]
  show ?thesis
  proof (cases mode)
    case None
    with do_eq h append_bytes_total show ?thesis by (simp add: appendRecord_def)
  next
    case (Some c)
    with assms(2) h(5) have "seal_record P c (nonceCtr h) i (encode_rec (wal_op_rec op)) =
        Inr (sealed_bytes P c i (nonceCtr h, wal_op_rec op))"
      by (simp add: seal_record_total log_ok_def fits_def sealable_def del: encode_rec.simps)
    with do_eq h append_bytes_total Some show ?thesis by (simp add: appendRecord_def appendRecordEncrypted_def)
  qed
qed

lemma wal_do_refused:
  assumes "log_of P i mode s xs []" "\<not> fits mode (wal_op_rec op)" "wal_do P tear i op s = (r, s')"
  shows "r \<noteq> None \<and> log_of P i mode s' xs []"
proof -
  obtain h where h: "handles s i = Some h" "wal_crypto h = mode" "pendingCrypto h = None" "persist s"
    "log_ok P mode xs []" "wal_bytes (disk s i) = log_file P i mode xs []"
    using assms(1) by (auto simp: log_of_def)
  show ?thesis
  proof (cases "rec_ok (wal_op_rec op)")
    case True
    with assms(2) obtain c where c: "mode = Some c" "\<not> length (encode_rec (wal_op_rec op)) + 28 < 2 ^ 32"
      by (auto simp: fits_def sealable_def split: option.splits)
    with h have "seal_record P c (nonceCtr h) i (encode_rec (wal_op_rec op)) = Inl WalRecordTooLarge"
      by (simp add: seal_record_total log_ok_def del: encode_rec.simps)
    with h c assms(3) True have "r = Some WalRecordTooLarge" "s' = upd_handle i (h\<lparr>nonceCtr := nonceCtr h + 1\<rparr>) s"
      by (auto simp: wal_do_rec_ok appendRecord_def appendRecordEncrypted_def Let_def)
    with h show ?thesis by (auto simp: log_of_def)
  next
    case False
    then have "r \<noteq> None \<and> s' = s"
      using assms(3) h(4) unix_nano_range
      by (cases op) (auto simp: Write_def wal_Delete_def rec_ok_def tombstoneTTL_def split: if_splits)
    with assms(1) show ?thesis by simp
  qed
qed

lemma wal_do_log:
  assumes "log_of P i mode s xs []" "wal_do P None i op s = (r, s')"
  shows "(r = None \<longleftrightarrow> fits mode (wal_op_rec op)) \<and>
      log_of P i mode s' (if r = None then xs @ [(nonce_counter i s, wal_op_rec op)] else xs) []"
proof (cases "fits mode (wal_op_rec op)")
  case True
  then have r: "r = None" using wal_do_total [OF assms(1), of op None] assms(2) by auto
  from append_step [OF assms] r True show ?thesis
    unfolding log_of_def by (auto simp: log_file_snoc [symmetric] log_file_tail)
next
  case False
  with wal_do_refused [OF assms(1) _ assms(2)] show ?thesis by auto
qed

lemma wal_do_frame:
  assumes "wal_do P tear i op s = (r, s')" "j \<noteq> i"
  shows "disk s' j = disk s j \<and> handles s' j = handles s j"
  using assms
  by (cases op)
    (auto simp: Write_def wal_Delete_def appendRecord_def appendRecordEncrypted_def append_bytes_def Let_def
      split: if_splits option.splits sum.splits)

lemma wal_do_persist: "wal_do P tear i op s = (r, s') \<Longrightarrow> persist s' = persist s"
  by (cases op)
    (auto simp: Write_def wal_Delete_def appendRecord_def appendRecordEncrypted_def append_bytes_def Let_def
      split: if_splits option.splits sum.splits)

lemma log_of_frame:
  assumes "wal_do P tear i op s = (r, s')" "j \<noteq> i" "log_of P j mode s xs p"
  shows "log_of P j mode s' xs p"
  using wal_do_frame [OF assms(1,2)] wal_do_persist [OF assms(1)] assms(3) by (auto simp: log_of_def)

lemma wal_run_total:
  assumes "log_of P i mode s xs []" "list_all (\<lambda>op. sealable (wal_op_rec op)) ops"
  shows "\<exists>s'. wal_run P i ops s = Some s'"
  using assms
proof (induction ops arbitrary: s xs)
  case (Cons op ops)
  obtain s1 where s1: "wal_do P None i op s = (None, s1)"
    using wal_do_total [OF Cons.prems(1) sealable_fits, of op None] Cons.prems(2) by auto
  with wal_do_log [OF Cons.prems(1) s1] Cons show ?case by auto
qed simp

section \<open>Concrete runs\<close>

definition wal_key :: crypto_engine where
  "wal_key = \<lparr>aead_key = replicate 32 (CHR 0x07), keyFingerprint = zeros 16, enabled = True\<rparr>"

definition no_disk :: "uint32 \<Rightarrow> shard_disk" where
  "no_disk i = \<lparr>wal_file = None, nonce_file = None, snap_file = None\<rparr>"

definition opened :: "crypto_engine option \<Rightarrow> pstorage" where
  "opened mode = snd (OpenShard 0 mode (NewStorage True no_disk))"

definition load_at :: "int \<Rightarrow> load_env" where
  "load_at t = \<lparr>load_now = t, load_nonces = (\<lambda>i. Some (replicate 12 (CHR 0x01))), sidecar_fault = NoFault,
     truncate_ok = True, migrate_fault = NoFault, map_order = []\<rparr>"

lemma load_at_simps [simp]: "load_now (load_at t) = t" "nonces_given (load_nonces (load_at t))" "truncate_ok (load_at t)"
  by (simp_all add: load_at_def nonces_given_def)

lemma opened_log: "mode = None \<or> mode = Some wal_key \<Longrightarrow> log_of plain_prims 0 mode (opened mode) [] []"
  by (auto simp: opened_def OpenShard_def NewStorage_def no_disk_def wal_bytes_def log_of_def log_ok_def log_file_def
      wal_key_def crypto_wf_def rcodec.torn_def fcodec.torn_def upd_handle_def upd_disk_def Let_def)

lemma opened_files: "nonce_file (disk (opened mode) i) = None" "snap_file (disk (opened mode) i) = None"
  by (auto simp: opened_def OpenShard_def NewStorage_def no_disk_def wal_bytes_def Let_def)

lemma restart_loadable: "loadable plain_prims restart_engine"
  by (simp add: loadable_def store_ok_def decodable_def)

lemma OpenShard_sealed:
  assumes "persist s" "wal_bytes (disk s i) = log_file P i (Some c) xs p" "enabled c"
  shows "\<exists>s'. OpenShard i (Some c) s = (None, s')"
proof -
  have "log_file P i (Some c) xs p \<noteq> []" "take 4 (log_file P i (Some c) xs p) = walMagic"
    "\<not> length (log_file P i (Some c) xs p) < 4"
    by (simp_all add: log_file_def walMagic_def)
  with assms show ?thesis by (simp add: OpenShard_def Let_def)
qed

lemma torn_reopen:
  assumes "log_of P i (Some c) s xs []" "wal_do P (Some n) i op s = (Some WalIO, s1)"
  shows "\<exists>s'. OpenShard i (Some c) (crash s1) = (None, s')"
proof -
  have "enabled c" using assms(1) by (simp add: log_of_def log_ok_def)
  moreover have "wal_bytes (disk (crash s1) i) =
      log_file P i (Some c) xs (take n (op_bytes P i (Some c) (nonce_counter i s, wal_op_rec op)))"
    using append_step [OF assms] by simp
  ultimately show ?thesis using OpenShard_sealed [OF crash_simps(1)] by blast
qed

lemma append_keeps_files:
  assumes "wal_do P tear i op s = (r, s')"
  shows "nonce_file (disk s' j) = nonce_file (disk s j) \<and> snap_file (disk s' j) = snap_file (disk s j)"
  using assms
  by (cases op)
    (auto simp: Write_def wal_Delete_def appendRecord_def appendRecordEncrypted_def append_bytes_def Let_def
      split: if_splits option.splits sum.splits)

lemma wal_run_keeps_files:
  "wal_run P i ops s = Some s' \<Longrightarrow>
     nonce_file (disk s' j) = nonce_file (disk s j) \<and> snap_file (disk s' j) = snap_file (disk s j)"
proof (induction ops arbitrary: s)
  case (Cons op ops)
  then obtain s1 where "wal_do P None i op s = (None, s1)" "wal_run P i ops s1 = Some s'"
    by (auto split: prod.splits option.splits)
  with Cons.IH append_keeps_files show ?case by fastforce
qed simp

lemma small_ops [simp]:
  "sealable (wal_op_rec (WalSet ''k'' ''v'' None))" "sealable (wal_op_rec (WalSet ''k'' ''w'' (Some 5)))"
  "sealable (wal_op_rec (WalDel ''k''))"
  by (simp_all add: sealable_def rec_ok_def unix_nano_def tombstoneTTL_def)

lemma small_runs:
  "list_all (\<lambda>op. sealable (wal_op_rec op)) [WalSet ''k'' ''v'' None]"
  "list_all (\<lambda>op. sealable (wal_op_rec op)) [WalSet ''k'' ''v'' None, WalSet ''k'' ''w'' (Some 5)]"
  by (simp_all only: list.pred_inject small_ops simp_thms)

lemma no_snapshot [simp]: "\<not> snapshotExists None"
  by (simp add: snapshotExists_def)


lemma opened_run:
  assumes "mode = None \<or> mode = Some wal_key" "list_all (\<lambda>op. sealable (wal_op_rec op)) ops"
  obtains s ctrs where "wal_run plain_prims 0 ops (opened mode) = Some s" "length ctrs = length ops"
    "log_of plain_prims 0 mode s (zip ctrs (map wal_op_rec ops)) []" "snap_file (disk s 0) = None" "nonce_file (disk s 0) = None"
proof -
  note log = opened_log [OF assms(1)]
  obtain s where s: "wal_run plain_prims 0 ops (opened mode) = Some s"
    using wal_run_total [OF log assms(2)] by blast
  moreover obtain ctrs where "length ctrs = length ops" "log_of plain_prims 0 mode s ([] @ zip ctrs (map wal_op_rec ops)) []"
    using wal_run_log [OF log s] by blast
  moreover have "snap_file (disk s 0) = None" "nonce_file (disk s 0) = None"
    using wal_run_keeps_files [OF s, of 0] by (simp_all add: opened_files)
  ultimately show ?thesis using that by simp
qed

theorem recovery_matches_history_witness:
  "\<exists>s e' s'. wal_run plain_prims 0 [WalSet ''k'' ''v'' None] (opened None) = Some s \<and>
     LoadShard plain_prims (\<lambda>b. 0) (load_at 7) 0 restart_engine s = Returns (None, e', s') \<and>
     engine_view plain_prims e' 8 ''k'' = Some ''v''"
proof -
  obtain s ctrs where s: "wal_run plain_prims 0 [WalSet ''k'' ''v'' None] (opened None) = Some s"
    "length ctrs = 1" "log_of plain_prims 0 None s (zip ctrs [(0, ''k'', ''v'')]) []" "snap_file (disk s 0) = None"
    by (rule opened_run [OF disjI1 [OF refl] small_runs(1)]) (auto simp: unix_nano_def)
  have "map snd (zip ctrs [(0, ''k'', ''v'')]) = [(0::int, ''k'', ''v'')]" using s(2) by (cases ctrs) auto
  then have "\<exists>e' s'. LoadShard plain_prims (\<lambda>b. 0) (load_at 7) 0 restart_engine s = Returns (None, e', s') \<and>
      (\<forall>t\<ge>7. engine_view plain_prims e' t ''k'' = lookup_at (history [(0, ''k'', ''v'')] Map.empty) t ''k'')"
    using recovery_matches_history [OF s(3), of "load_at 7" restart_engine "''k''" "\<lambda>b. 0"] s(4) restart_loadable
    by (simp add: last_on_def expired_set_def)
  then show ?thesis using s(1)
    by (auto simp: history_def hist_step_def tombstoneTTL_def lookup_at_def intro!: exI [of _ s])
qed

theorem expired_overwrite_resurrects_witness:
  "\<exists>s e' s'. wal_run plain_prims 0 [WalSet ''k'' ''v'' None, WalSet ''k'' ''w'' (Some 5)] (opened (Some wal_key)) = Some s \<and>
     LoadShard plain_prims (\<lambda>b. 0) (load_at 7) 0 restart_engine s = Returns (None, e', s') \<and>
     engine_view plain_prims e' 8 ''k'' = Some ''v''"
proof -
  obtain s ctrs where s: "wal_run plain_prims 0 [WalSet ''k'' ''v'' None, WalSet ''k'' ''w'' (Some 5)] (opened (Some wal_key)) = Some s"
    "length ctrs = Suc (Suc 0)" "log_of plain_prims 0 (Some wal_key) s (zip ctrs [(0, ''k'', ''v''), (5, ''k'', ''w'')]) []"
    "snap_file (disk s 0) = None"
    by (rule opened_run [OF disjI2 [OF refl] small_runs(2)]) (auto simp: unix_nano_def)
  obtain c1 c2 where "ctrs = [c1, c2]" using s(2) by (auto simp: length_Suc_conv)
  then have "log_of plain_prims 0 (Some wal_key) s [(c1, (0, ''k'', ''v'')), (c2, (5, ''k'', ''w''))] []" using s(3) by simp
  from expired_overwrite_resurrects [OF this, of "load_at 7" restart_engine 8 "\<lambda>b. 0"] s show ?thesis
    by (auto simp: restart_loadable)
qed


theorem torn_append_reuses_nonce_witness:
  "\<exists>s s1 s2 e' s3. wal_do plain_prims None 0 (WalSet ''k'' ''v'' None) (opened (Some wal_key)) = (None, s) \<and>
     wal_do plain_prims (Some 9) 0 (WalDel ''k'') s = (Some WalIO, s1) \<and>
     OpenShard 0 (Some wal_key) (crash s1) = (None, s2) \<and>
     LoadShard plain_prims (\<lambda>b. 0) (load_at 7) 0 restart_engine s2 = Returns (None, e', s3) \<and>
     nonce_counter 0 s = 1 \<and> wal_nonce (nonce_counter 0 s3) 0 = wal_nonce 1 0"
proof -
  let ?m = "Some wal_key" and ?x = "(0 :: uint64, wal_op_rec (WalSet ''k'' ''v'' None))"
  note log = opened_log [of ?m, simplified]
  have c0: "nonce_counter 0 (opened ?m) = 0"
    by (simp add: nonce_counter_def opened_def OpenShard_def NewStorage_def no_disk_def wal_bytes_def wal_key_def Let_def)
  obtain s where s: "wal_do plain_prims None 0 (WalSet ''k'' ''v'' None) (opened ?m) = (None, s)"
    using wal_do_total [OF log sealable_fits [OF small_ops(1)], of None] by auto
  note st = append_step [OF log s, unfolded c0]
  have lg: "log_of plain_prims 0 ?m s [?x] []"
    unfolding log_of_def using st by (auto simp: log_file_def op_bytes_def)
  have c1: "nonce_counter 0 s = 1" using st by (auto simp: nonce_counter_def)
  have files: "nonce_file (disk s 0) = None" "snap_file (disk s 0) = None"
    using append_keeps_files [OF s, of 0] by (simp_all add: opened_files)
  obtain s1 where s1: "wal_do plain_prims (Some 9) 0 (WalDel ''k'') s = (Some WalIO, s1)"
    using wal_do_total [OF lg sealable_fits [OF small_ops(3)], of "Some 9"] by auto
  obtain s2 where s2: "OpenShard 0 ?m (crash s1) = (None, s2)" using torn_reopen [OF lg s1] by blast
  have files1: "nonce_file (disk s1 0) = None" "snap_file (disk s1 0) = None"
    using append_keeps_files [OF s1, of 0] files by simp_all
  have len: "9 < length (op_bytes plain_prims 0 ?m (nonce_counter 0 s, wal_op_rec (WalDel ''k'')))"
    by (simp add: op_bytes_def sealed_bytes_def sealed_frame_def frame_bytes_def)
  have "\<exists>e' s3. LoadShard plain_prims (\<lambda>b. 0) (load_at 7) 0 restart_engine s2 = Returns (None, e', s3) \<and>
      wal_nonce (nonce_counter 0 s3) 0 = wal_nonce (nonce_counter 0 s) 0"
    using torn_append_reuses_nonce [OF lg _ _ s1 len s2, of "load_at 7" restart_engine "\<lambda>b. 0"]
    by (simp add: c1 files files1 readNonceSidecar_def max_ctr_def restart_loadable)
  then show ?thesis using s s1 s2 c1 by auto
qed

theorem OpenShard_rejects_short_log_witness:
  "OpenShard 3 None (NewStorage True (\<lambda>i. no_disk i\<lparr>wal_file := Some ''ab''\<rparr>)) =
     (Some WalHeaderRead, NewStorage True (\<lambda>i. no_disk i\<lparr>wal_file := Some ''ab''\<rparr>))"
  by (rule OpenShard_rejects_short_log) (simp_all add: NewStorage_def)


theorem snapshot_keeps_log_witness:
  "\<exists>r s'. TakeSnapshot (\<lambda>b. 0) \<lparr>snap_forked = False, snap_pipe_ok = True, snap_fault = NoFault,
       snap_sidecar_fault = NoFault, snap_now = 7, snap_order = []\<rparr> 0 restart_engine (opened None) = (r, s') \<and>
     wal_bytes (disk s' 0) = wal_bytes (disk (opened None) 0)"
  using snapshot_keeps_log [of "\<lambda>b. 0" _ 0 restart_engine "opened None" _ _ 0] by (meson surj_pair)

end
