(* ===== verification/Shard.thy ===== *)
theory Shard
  imports Envelope Wal_Recovery
begin

text \<open>
  The shard layer: \<^verbatim>\<open>src/internal/shard\<close> (a shard owns an engine and writes through
  the shared write-ahead log), \<^verbatim>\<open>src/internal/router\<close> (FNV-1a routing of keys to
  shards) and the \<^verbatim>\<open>RouterStore\<close> of \<^verbatim>\<open>src/server/server.go\<close>, which is
  the store the command handlers see. The router is an instance of the store contract, so the
  refinement of the timed map carries over to it.
\<close>

section \<open>A shard\<close>

datatype shard_error =
    ErrShardStopped | ShardWal wal_error | ShardEngine storage_error | ShardEnvelope env_error
  | ShardCrypto crypto_error

record response =
  resp_value :: "bytes option"
  resp_ok :: bool
  resp_err :: "shard_error option"

record shard =
  ID :: uint32
  Engine :: engine
  connectedClients :: int
  totalConnections :: uint64
  bytesRead :: uint64
  bytesWritten :: uint64

definition IncConnectedClients :: "shard \<Rightarrow> shard" where
  "IncConnectedClients s = s\<lparr>connectedClients := int64 (connectedClients s + 1)\<rparr>"

definition DecConnectedClients :: "shard \<Rightarrow> shard" where
  "DecConnectedClients s = s\<lparr>connectedClients := int64 (connectedClients s - 1)\<rparr>"

definition IncTotalConnections :: "shard \<Rightarrow> shard" where
  "IncTotalConnections s = s\<lparr>totalConnections := totalConnections s + 1\<rparr>"

definition AddBytesRead :: "uint64 \<Rightarrow> shard \<Rightarrow> shard" where
  "AddBytesRead n s = s\<lparr>bytesRead := bytesRead s + n\<rparr>"

definition AddBytesWritten :: "uint64 \<Rightarrow> shard \<Rightarrow> shard" where
  "AddBytesWritten n s = s\<lparr>bytesWritten := bytesWritten s + n\<rparr>"

definition CmdGet :: string where "CmdGet = ''GET''"

definition CmdSet :: string where "CmdSet = ''SET''"

definition CmdDel :: string where "CmdDel = ''DEL''"

text \<open>
  What one request sees of the world: the clock when the expiration for the log is computed, when
  the existence of the key is probed and when the engine operates, the nonce, and how far the two
  log appends get.
\<close>

record exec_env =
  exp_now :: int
  pre_now :: int
  op_now :: int
  op_nonce :: "bytes option"
  write_tear :: "nat option"
  undo_tear :: "nat option"

definition failed :: "shard_error \<Rightarrow> response" where
  "failed err = \<lparr>resp_value = None, resp_ok = False, resp_err = Some err\<rparr>"

definition Execute :: "prims \<Rightarrow> exec_env \<Rightarrow> string \<Rightarrow> string \<Rightarrow> bytes \<Rightarrow> duration \<Rightarrow> shard \<Rightarrow> pstorage \<Rightarrow>
    (response \<times> shard \<times> pstorage) go" where
  "Execute P v op key val ttl sh st =
     (if op = CmdGet then
        (case Get P (op_now v) key (Engine sh) of
           (r, e) \<Rightarrow> Returns (\<lparr>resp_value = r, resp_ok = (r \<noteq> None), resp_err = None\<rparr>, sh\<lparr>Engine := e\<rparr>, st))
      else if op = CmdSet then
        (case Get P (pre_now v) key (Engine sh) of
           (old, e1) \<Rightarrow>
             (case (if persist st then Write P (write_tear v) (ID sh) key val (deadline (exp_now v) ttl) st else (None, st)) of
                (Some err, st1) \<Rightarrow> Returns (failed (ShardWal err), sh\<lparr>Engine := e1\<rparr>, st1)
              | (None, st1) \<Rightarrow>
                  go_bind (Set P (op_now v) (op_nonce v) key val ttl e1) (\<lambda>(r, e2).
                    case r of
                      None \<Rightarrow> Returns (\<lparr>resp_value = None, resp_ok = True, resp_err = None\<rparr>, sh\<lparr>Engine := e2\<rparr>, st1)
                    | Some err \<Rightarrow>
                        Returns (failed (ShardEngine err), sh\<lparr>Engine := e2\<rparr>,
                          if persist st1 \<and> old = None then snd (wal_Delete P (undo_tear v) (ID sh) key st1) else st1))))
      else if op = CmdDel then
        (case (if persist st then wal_Delete P (write_tear v) (ID sh) key st else (None, st)) of
           (Some err, st1) \<Rightarrow> Returns (failed (ShardWal err), sh, st1)
         | (None, st1) \<Rightarrow>
             (case Delete (op_now v) key (Engine sh) of
                (b, e) \<Rightarrow> Returns (\<lparr>resp_value = None, resp_ok = b, resp_err = None\<rparr>, sh\<lparr>Engine := e\<rparr>, st1)))
      else Returns (failed ErrShardStopped, sh, st))"

definition Shard_Stop :: "shard \<Rightarrow> shard" where
  "Shard_Stop sh = sh\<lparr>Engine := Close (Engine sh)\<rparr>"

section \<open>Starting a shard\<close>

record run_cfg =
  cfg_uint_size :: nat
  cfg_max_mem :: uint64
  cfg_num_shards :: uint64
  cfg_evict_ticker :: duration
  cfg_evict_slots :: uint32
  cfg_encryption :: bool
  cfg_envelope :: bool

record run_env =
  run_io :: io_env
  run_dek :: "bytes option"
  run_wrap_nonce :: "bytes option"
  run_load :: load_env

definition envelopeFileName :: "uint32 \<Rightarrow> string" where
  "envelopeFileName i = ''shard-'' @ dec_nat (unat i) @ ''.env''"

text \<open>
  The data key of a shard in envelope mode: loaded from the envelope file, or generated and stored
  when there is none yet. Any other failure of the load ends the start.
\<close>

definition shard_dek :: "prims \<Rightarrow> run_env \<Rightarrow> uint32 \<Rightarrow> bytes \<Rightarrow> dir \<Rightarrow> (shard_error + bytes) \<times> dir" where
  "shard_dek P v i key d =
     (case NewEnvelope P key of
        Inl err \<Rightarrow> (Inl (ShardEnvelope err), d)
      | Inr env \<Rightarrow>
          (case Load P (run_io v) (envelopeFileName i) env d of
             Inr (k, env') \<Rightarrow> (Inr k, d)
           | Inl EnvNotExist \<Rightarrow>
               (case GenerateDEK (run_dek v) env of
                  Inl err \<Rightarrow> (Inl (ShardEnvelope err), d)
                | Inr env1 \<Rightarrow>
                    (case Store P (run_io v) (run_wrap_nonce v) (envelopeFileName i) env1 d of
                       (Some err, d1) \<Rightarrow> (Inl (ShardEnvelope err), d1)
                     | (None, d1) \<Rightarrow> (Inr (DEK env1), d1)))
           | Inl err \<Rightarrow> (Inl (ShardEnvelope err), d)))"

definition shard_crypto :: "prims \<Rightarrow> run_env \<Rightarrow> run_cfg \<Rightarrow> uint32 \<Rightarrow> bytes \<Rightarrow> crypto_engine option \<Rightarrow> dir \<Rightarrow>
    (shard_error + crypto_engine option) \<times> dir" where
  "shard_crypto P v cfg i key ce d =
     (if cfg_encryption cfg \<and> cfg_envelope cfg then
        (case shard_dek P v i key d of
           (Inl err, d1) \<Rightarrow> (Inl err, d1)
         | (Inr k, d1) \<Rightarrow>
             (case NewCryptoEngine P k of
                Inl err \<Rightarrow> (Inl (ShardCrypto err), d1)
              | Inr c \<Rightarrow> (Inr (Some c), d1)))
      else (Inr ce, d))"

definition new_shard :: "uint32 \<Rightarrow> engine \<Rightarrow> shard" where
  "new_shard i e =
     \<lparr>ID = i, Engine = e, connectedClients = 0, totalConnections = 0, bytesRead = 0, bytesWritten = 0\<rparr>"

definition Run :: "prims \<Rightarrow> (bytes \<Rightarrow> uint64) \<Rightarrow> run_env \<Rightarrow> run_cfg \<Rightarrow> uint32 \<Rightarrow> bytes \<Rightarrow> crypto_engine option \<Rightarrow>
    dir \<Rightarrow> pstorage \<Rightarrow> ((shard_error + shard) \<times> dir \<times> pstorage) go" where
  "Run P H v cfg i key ce d st =
     (if cfg_max_mem cfg > 0 \<and> cfg_num_shards cfg = 0 then Panics
      else let mb = (if cfg_max_mem cfg > 0 then cfg_max_mem cfg div cfg_num_shards cfg else cfg_max_mem cfg) in
        (case shard_crypto P v cfg i key ce d of
           (Inl err, d1) \<Rightarrow> Returns (Inl err, d1, st)
         | (Inr c, d1) \<Rightarrow>
             (let e = NewEngine (cfg_uint_size cfg) (cfg_evict_ticker cfg) (cfg_evict_slots cfg) mb c in
              if persist st then
                (case OpenShard i c st of
                   (Some err, st1) \<Rightarrow> Returns (Inl (ShardWal err), d1, st1)
                 | (None, st1) \<Rightarrow>
                     go_bind (LoadShard P H (run_load v) i e st1) (\<lambda>(r, e1, st2).
                       case r of
                         Some err \<Rightarrow> Returns (Inl (ShardWal err), d1, st2)
                       | None \<Rightarrow> Returns (Inr (new_shard i e1), d1, st2)))
              else Returns (Inr (new_shard i e), d1, st))))"

section \<open>Routing\<close>

record router =
  shards :: "shard list"
  pstore :: pstorage

definition numShards :: "router \<Rightarrow> uint32" where
  "numShards r = of_nat (length (shards r))"

definition hashKey :: "string \<Rightarrow> uint32" where
  "hashKey key = foldl (\<lambda>h c. xor h (of_char c) * 16777619) 2166136261 key"

definition route :: "router \<Rightarrow> string \<Rightarrow> nat" where
  "route r key = unat (hashKey key mod numShards r)"

definition Dispatch :: "prims \<Rightarrow> exec_env \<Rightarrow> string \<Rightarrow> string \<Rightarrow> bytes \<Rightarrow> duration \<Rightarrow> router \<Rightarrow>
    (response \<times> router) go" where
  "Dispatch P v op key val ttl r =
     (if numShards r = 0 \<or> length (shards r) \<le> route r key then Panics
      else go_bind (Execute P v op key val ttl (shards r ! route r key) (pstore r)) (\<lambda>(x, sh, st).
             Returns (x, r\<lparr>shards := (shards r)[route r key := sh], pstore := st\<rparr>)))"

definition rs_Get :: "prims \<Rightarrow> exec_env \<Rightarrow> string \<Rightarrow> router \<Rightarrow> (bytes option \<times> router) go" where
  "rs_Get P v key r =
     go_bind (Dispatch P v CmdGet key [] 0 r) (\<lambda>(x, r'). Returns (if resp_ok x then resp_value x else None, r'))"

definition rs_Set :: "prims \<Rightarrow> exec_env \<Rightarrow> string \<Rightarrow> bytes \<Rightarrow> duration \<Rightarrow> router \<Rightarrow> (shard_error option \<times> router) go" where
  "rs_Set P v key val ttl r = go_bind (Dispatch P v CmdSet key val ttl r) (\<lambda>(x, r'). Returns (resp_err x, r'))"

definition rs_Delete :: "prims \<Rightarrow> exec_env \<Rightarrow> string \<Rightarrow> router \<Rightarrow> (bool \<times> router) go" where
  "rs_Delete P v key r = go_bind (Dispatch P v CmdDel key [] 0 r) (\<lambda>(x, r'). Returns (resp_ok x, r'))"

section \<open>The steps of a shard\<close>

definition exec_ok :: "exec_env \<Rightarrow> bool" where
  "exec_ok v \<longleftrightarrow> pre_now v \<le> op_now v \<and> nonce_ok (op_now v, op_nonce v) \<and> write_tear v = None \<and> undo_tear v = None"

text \<open>The engine after the existence probe of \<^verbatim>\<open>SET\<close>: expired items may be gone.\<close>

definition probed :: "prims \<Rightarrow> exec_env \<Rightarrow> string \<Rightarrow> engine \<Rightarrow> engine" where
  "probed P v k e = snd (Get P (pre_now v) k e)"

abbreviation set_rec :: "exec_env \<Rightarrow> string \<Rightarrow> bytes \<Rightarrow> duration \<Rightarrow> wal_op" where
  "set_rec v k x ttl \<equiv> WalSet k x (deadline (exp_now v) ttl)"

lemma wal_part [simp]:
  "(if persist st then Write P tear i k x ttl st else (None, st)) = Write P tear i k x ttl st"
  "(if persist st then wal_Delete P tear i k st else (None, st)) = wal_Delete P tear i k st"
  by (simp_all add: Write_def wal_Delete_def)

lemma probed_props:
  assumes "store_ok P e"
  shows "store_ok P (probed P v k e)" "engine_inv (probed P v k e)" "crypto (probed P v k e) = crypto e"
    and "maxBytes (probed P v k e) = maxBytes e" "dom (items (probed P v k e)) \<subseteq> dom (items e)"
    and "pre_now v \<le> t \<Longrightarrow> engine_view P (probed P v k e) t = engine_view P e t"
proof -
  have inv: "engine_inv e" using assms by (simp add: store_ok_def)
  have pr: "prunes (pre_now v) e (probed P v k e)" unfolding probed_def by (rule Get_prunes)
  show "engine_inv (probed P v k e)" unfolding probed_def by (rule Get_inv [OF inv])
  with prunes_ok [OF assms pr] show "store_ok P (probed P v k e)" by simp
  show "crypto (probed P v k e) = crypto e" "maxBytes (probed P v k e) = maxBytes e"
    using pr by (auto simp: prunes_def)
  show "dom (items (probed P v k e)) \<subseteq> dom (items e)"
  proof
    fix j assume "j \<in> dom (items (probed P v k e))"
    moreover have "items (probed P v k e) j = items e j \<or> items (probed P v k e) j = None"
      using pr by (auto simp: prunes_def)
    ultimately show "j \<in> dom (items e)" by (auto simp: dom_def)
  qed
  show "pre_now v \<le> t \<Longrightarrow> engine_view P (probed P v k e) t = engine_view P e t" using prunes_view [OF pr] .
qed

lemma Execute_Set_cases:
  assumes "store_ok P (Engine sh)" "exec_ok v"
  obtains
    (wal) err st1 where "wal_do P None (ID sh) (set_rec v k x ttl) st = (Some err, st1)"
      "Execute P v CmdSet k x ttl sh st =
         Returns (failed (ShardWal err), sh\<lparr>Engine := probed P v k (Engine sh)\<rparr>, st1)"
  | (refused) err st1 where "wal_do P None (ID sh) (set_rec v k x ttl) st = (None, st1)"
      "Execute P v CmdSet k x ttl sh st =
         Returns (failed (ShardEngine err), sh\<lparr>Engine := probed P v k (Engine sh)\<rparr>,
           if persist st1 \<and> engine_view P (Engine sh) (pre_now v) k = None
           then snd (wal_do P None (ID sh) (WalDel k) st1) else st1)"
  | (stored) c e' st1 where "wal_do P None (ID sh) (set_rec v k x ttl) st = (None, st1)"
      "Execute P v CmdSet k x ttl sh st =
         Returns (\<lparr>resp_value = None, resp_ok = True, resp_err = None\<rparr>, sh\<lparr>Engine := e'\<rparr>, st1)"
      "stored k \<lparr>Value = c, Expiration = deadline (op_now v) ttl\<rparr> (probed P v k (Engine sh)) e'"
      "DecryptInPlaceWithDst P (crypto (probed P v k (Engine sh))) c = Inr x"
proof -
  let ?e = "probed P v k (Engine sh)"
  note pr = probed_props [OF assms(1), where v = v and k = k]
  have get: "Get P (pre_now v) k (Engine sh) = (engine_view P (Engine sh) (pre_now v) k, ?e)"
    by (simp add: probed_def prod_eq_iff Get_result)
  obtain r st1 where w: "wal_do P None (ID sh) (set_rec v k x ttl) st = (r, st1)" by fastforce
  have ops: "CmdSet \<noteq> CmdGet" by (simp add: CmdSet_def CmdGet_def)
  have tears: "write_tear v = None" "undo_tear v = None" using assms(2) by (simp_all add: exec_ok_def)
  show thesis
  proof (cases r)
    case (Some err)
    with w get ops tears show thesis by (intro wal) (auto simp: Execute_def)
  next
    case None
    have ok: "aead_laws P" "crypto_wf (crypto ?e)" using pr(1) by (auto simp: store_ok_def engine_inv_def)
    have nonce: "\<forall>n. op_nonce v = Some n \<longrightarrow> length n = NonceSize"
      using assms(2) by (simp add: exec_ok_def nonce_ok_def)
    show thesis
    proof (cases rule: Set_cases [OF pr(2), of k x P "op_now v" "op_nonce v" ttl])
      case 1
      with w get ops tears None show thesis by (intro refused) (auto simp: Execute_def)
    next
      case (2 err)
      with w get ops tears None show thesis by (intro refused) (auto simp: Execute_def)
    next
      case (3 c e')
      with w get ops tears None DecryptInPlaceWithDst_EncryptInPlace [OF ok nonce 3(1)] show thesis
        by (intro stored) (auto simp: Execute_def)
    qed
  qed
qed

lemma Execute_Get_eq:
  "Execute P v CmdGet k x ttl sh st =
     Returns (\<lparr>resp_value = engine_view P (Engine sh) (op_now v) k,
         resp_ok = (engine_view P (Engine sh) (op_now v) k \<noteq> None), resp_err = None\<rparr>,
       sh\<lparr>Engine := snd (Get P (op_now v) k (Engine sh))\<rparr>, st)"
  by (simp add: Execute_def Get_result [symmetric] case_prod_beta)

lemma Execute_Del_eq:
  assumes "store_ok P (Engine sh)" "exec_ok v" "wal_do P None (ID sh) (WalDel k) st = (r, st1)"
  shows "Execute P v CmdDel k x ttl sh st =
     (case r of
        Some err \<Rightarrow> Returns (failed (ShardWal err), sh, st1)
      | None \<Rightarrow> Returns (\<lparr>resp_value = None, resp_ok = (engine_view P (Engine sh) (op_now v) k \<noteq> None), resp_err = None\<rparr>,
          sh\<lparr>Engine := snd (Delete (op_now v) k (Engine sh))\<rparr>, st1))"
proof -
  have "decodable P (Engine sh)" using assms(1) by (simp add: store_ok_def)
  from Delete_result [OF this, of "op_now v" k] show ?thesis
    using assms(2,3)
    by (auto simp: Execute_def exec_ok_def CmdDel_def CmdGet_def CmdSet_def case_prod_beta split: option.split)
qed

section \<open>The router as a store\<close>

text \<open>
  A shard that can serve: its engine is well formed and, with persistence on, its log is open
  without a torn tail and every key it holds is short enough for a tombstone record.
\<close>

definition shard_ready :: "prims \<Rightarrow> shard \<Rightarrow> pstorage \<Rightarrow> bool" where
  "shard_ready P sh st \<longleftrightarrow> store_ok P (Engine sh) \<and>
     (persist st \<longrightarrow> (\<exists>mode xs. log_of P (ID sh) mode st xs [] \<and>
        (\<forall>k\<in>dom (items (Engine sh)). fits mode (tombstoneTTL, k, []))))"

lemma shard_ready_store: "shard_ready P sh st \<Longrightarrow> store_ok P (Engine sh)"
  by (simp add: shard_ready_def)

lemma fits_tombstone: "fits mode (ttl, k, x) \<Longrightarrow> fits mode (tombstoneTTL, k, [])"
  by (auto simp: fits_def sealable_def rec_ok_def tombstoneTTL_def split: option.splits)

lemma not_persist_wal_do: "\<not> persist st \<Longrightarrow> wal_do P tear i op st = (None, st)"
  by (cases op) (simp_all add: Write_def wal_Delete_def)

lemma shard_ready_wal_do:
  assumes "shard_ready P sh st" "wal_do P None (ID sh) op st = (r, st')" "store_ok P e'"
    and "dom (items e') \<subseteq> dom (items (Engine sh)) \<union> (if r = None then {fst (snd (wal_op_rec op))} else {})"
  shows "shard_ready P (sh\<lparr>Engine := e'\<rparr>) st'"
proof (cases "persist st")
  case True
  then obtain mode xs where log: "log_of P (ID sh) mode st xs []"
    and ks: "\<forall>k\<in>dom (items (Engine sh)). fits mode (tombstoneTTL, k, [])"
    using assms(1) by (auto simp: shard_ready_def)
  note w = wal_do_log [OF log assms(2)]
  have "fits mode (tombstoneTTL, k, [])" if "k \<in> dom (items e')" for k
  proof (cases "k \<in> dom (items (Engine sh))")
    case False
    with that assms(4) have "r = None" "k = fst (snd (wal_op_rec op))" by (auto split: if_splits)
    with w have "fits mode (fst (wal_op_rec op), k, snd (snd (wal_op_rec op)))" by simp
    then show ?thesis by (rule fits_tombstone)
  qed (use ks in blast)
  with w assms(3) show ?thesis by (auto simp: shard_ready_def)
next
  case False
  with assms not_persist_wal_do [OF False, of P None "ID sh" op] show ?thesis by (simp add: shard_ready_def)
qed

lemma shard_ready_frame:
  assumes "shard_ready P sh2 st" "wal_do P tear i op st = (r, st')" "ID sh2 \<noteq> i"
  shows "shard_ready P sh2 st'"
  using assms log_of_frame [OF assms(2,3)] wal_do_persist [OF assms(2)] unfolding shard_ready_def by blast

text \<open>What an operation on one shard does to that shard, to its contents and to the others.\<close>

definition shard_step :: "prims \<Rightarrow> int \<Rightarrow> string \<Rightarrow> (int \<Rightarrow> bytes option) \<Rightarrow> shard \<Rightarrow> pstorage \<Rightarrow> shard \<Rightarrow> pstorage \<Rightarrow> bool" where
  "shard_step P c k y sh st sh' st' \<longleftrightarrow>
     ID sh' = ID sh \<and> shard_ready P sh' st' \<and>
     (\<forall>t\<ge>c. engine_view P (Engine sh') t = (engine_view P (Engine sh) t)(k := y t)) \<and>
     (\<forall>sh2. ID sh2 \<noteq> ID sh \<longrightarrow> shard_ready P sh2 st \<longrightarrow> shard_ready P sh2 st')"

lemma shard_get:
  assumes "shard_ready P sh st" "exec_ok v"
  shows "\<exists>x sh'. Execute P v CmdGet k [] 0 sh st = Returns (x, sh', st) \<and>
      (if resp_ok x then resp_value x else None) = engine_view P (Engine sh) (op_now v) k \<and>
      shard_step P (op_now v) k (\<lambda>t. engine_view P (Engine sh) t k) sh st sh' st"
proof -
  let ?v = "v\<lparr>pre_now := op_now v\<rparr>"
  note pr = probed_props [OF shard_ready_store [OF assms(1)], where v = ?v and k = k]
  have "shard_ready P (sh\<lparr>Engine := probed P ?v k (Engine sh)\<rparr>) st"
    using assms(1) pr(1,5) by (auto simp: shard_ready_def)
  with pr(6) show ?thesis
    by (auto simp: Execute_Get_eq shard_step_def probed_def)
qed

lemma shard_del:
  assumes "shard_ready P sh st" "exec_ok v"
  shows "\<exists>x sh' st'. Execute P v CmdDel k [] 0 sh st = Returns (x, sh', st') \<and>
      resp_ok x = (engine_view P (Engine sh) (op_now v) k \<noteq> None) \<and>
      shard_step P (op_now v) k (\<lambda>t. None) sh st sh' st'"
proof -
  note st = shard_ready_store [OF assms(1)]
  obtain r st1 where w: "wal_do P None (ID sh) (WalDel k) st = (r, st1)" by fastforce
  note frame = shard_ready_frame [OF _ w]
  show ?thesis
  proof (cases r)
    case None
    let ?e = "snd (Delete (op_now v) k (Engine sh))"
    have "store_ok P ?e" using st Delete_inv by (auto simp: store_ok_def decodable_def)
    then have "shard_ready P (sh\<lparr>Engine := ?e\<rparr>) st1"
      by (rule shard_ready_wal_do [OF assms(1) w]) auto
    moreover have "engine_view P ?e t = (engine_view P (Engine sh) t)(k := None)" for t
      by (intro ext) (auto simp: engine_view_def split: option.split)
    ultimately show ?thesis using None frame by (auto simp: Execute_Del_eq [OF st assms(2) w] shard_step_def)
  next
    case (Some err)
    have "items (Engine sh) k = None"
    proof (cases "persist st")
      case True
      then obtain mode xs where log: "log_of P (ID sh) mode st xs []"
        and ks: "\<forall>k\<in>dom (items (Engine sh)). fits mode (tombstoneTTL, k, [])"
        using assms(1) by (auto simp: shard_ready_def)
      have "\<not> fits mode (tombstoneTTL, k, [])" using wal_do_log [OF log w] Some by simp
      with ks show ?thesis by auto
    qed (use w Some in \<open>simp add: wal_Delete_def\<close>)
    then have none: "engine_view P (Engine sh) t k = None" for t by (simp add: engine_view_def)
    have "shard_ready P (sh\<lparr>Engine := Engine sh\<rparr>) st1" by (rule shard_ready_wal_do [OF assms(1) w st]) simp
    with Some none frame show ?thesis
      by (auto simp: Execute_Del_eq [OF st assms(2) w] shard_step_def failed_def fun_eq_iff)
  qed
qed

lemma shard_set:
  assumes "shard_ready P sh st" "exec_ok v"
  shows "\<exists>x sh' st'. Execute P v CmdSet k y ttl sh st = Returns (x, sh', st') \<and>
      shard_step P (op_now v) k
        (\<lambda>t. if resp_err x = None then (if past t (deadline (op_now v) ttl) then None else Some y)
             else engine_view P (Engine sh) t k) sh st sh' st'"
proof -
  note st = shard_ready_store [OF assms(1)]
  note pr = probed_props [OF st, where v = v and k = k]
  have le: "pre_now v \<le> op_now v" using assms(2) by (simp add: exec_ok_def)
  show ?thesis
  proof (cases rule: Execute_Set_cases [OF st assms(2), of k y ttl st])
    case (1 err st1)
    have "shard_ready P (sh\<lparr>Engine := probed P v k (Engine sh)\<rparr>) st1"
      by (rule shard_ready_wal_do [OF assms(1) 1(1) pr(1)]) (use pr(5) in auto)
    with 1 pr(6) le shard_ready_frame [OF _ 1(1)] show ?thesis by (auto simp: shard_step_def failed_def)
  next
    case (2 err st1)
    let ?sh = "sh\<lparr>Engine := probed P v k (Engine sh)\<rparr>"
    have r1: "shard_ready P ?sh st1"
      by (rule shard_ready_wal_do [OF assms(1) 2(1) pr(1)]) (use pr(5) in auto)
    obtain r2 st2 where w2: "wal_do P None (ID sh) (WalDel k) st1 = (r2, st2)" by fastforce
    have "shard_ready P (?sh\<lparr>Engine := probed P v k (Engine sh)\<rparr>) st2"
      by (rule shard_ready_wal_do [OF r1 _ pr(1), where op = "WalDel k" and r = r2]) (use w2 in auto)
    then have "shard_ready P ?sh st2" by simp
    moreover have "shard_ready P sh2 st2 \<and> shard_ready P sh2 st1" if "ID sh2 \<noteq> ID sh" "shard_ready P sh2 st" for sh2
      using shard_ready_frame [OF _ 2(1)] shard_ready_frame [OF _ w2] that by blast
    moreover have "snd (wal_do P None (ID sh) (WalDel k) st1) = st2" using w2 by simp
    ultimately show ?thesis using 2(2) r1 pr(6) le by (auto simp: shard_step_def failed_def)
  next
    case (3 c e' st1)
    have ok: "store_ok P e'" using stored_ok [OF pr(1) 3(3,4)] .
    have "dom (items e') \<subseteq> insert k (dom (items (Engine sh)))" using 3(3) pr(5) by (auto simp: stored_def)
    then have "shard_ready P (sh\<lparr>Engine := e'\<rparr>) st1" by (intro shard_ready_wal_do [OF assms(1) 3(1) ok]) auto
    with 3 stored_view [OF 3(3,4)] pr(6) le shard_ready_frame [OF _ 3(1)] show ?thesis
      by (auto simp: shard_step_def)
  qed
qed

definition router_ok :: "prims \<Rightarrow> router \<Rightarrow> bool" where
  "router_ok P r \<longleftrightarrow> 0 < length (shards r) \<and> length (shards r) < 2 ^ 32 \<and> distinct (map ID (shards r)) \<and>
     (\<forall>sh\<in>set (shards r). shard_ready P sh (pstore r))"

definition router_view :: "prims \<Rightarrow> router \<Rightarrow> int \<Rightarrow> string \<Rightarrow> bytes option" where
  "router_view P r t k = engine_view P (Engine (shards r ! route r k)) t k"

lemma unat_numShards: "length (shards r) < 2 ^ 32 \<Longrightarrow> unat (numShards r) = length (shards r)"
  unfolding numShards_def by (rule unat_of_nat_less) simp

lemma route_less:
  assumes "0 < length (shards r)" "length (shards r) < 2 ^ 32"
  shows "route r k < length (shards r)"
  using assms by (simp add: route_def unat_mod unat_numShards)

lemma numShards_pos: "0 < length (shards r) \<Longrightarrow> length (shards r) < 2 ^ 32 \<Longrightarrow> numShards r \<noteq> 0"
  using unat_numShards [of r] by auto

lemma dispatch_step:
  assumes "router_ok P r" "Execute P v op k x ttl (shards r ! route r k) (pstore r) = Returns (a, sh', st')"
    and "shard_step P c k y (shards r ! route r k) (pstore r) sh' st'"
  shows "\<exists>r'. Dispatch P v op k x ttl r = Returns (a, r') \<and> router_ok P r' \<and>
      (\<forall>t\<ge>c. router_view P r' t = (router_view P r t)(k := y t))"
proof -
  let ?n = "route r k" and ?r = "r\<lparr>shards := (shards r)[route r k := sh'], pstore := st'\<rparr>"
  have len: "0 < length (shards r)" "length (shards r) < 2 ^ 32" "distinct (map ID (shards r))"
    and ready: "\<And>sh. sh \<in> set (shards r) \<Longrightarrow> shard_ready P sh (pstore r)"
    using assms(1) by (auto simp: router_ok_def)
  have n: "?n < length (shards r)" using route_less [OF len(1,2)] .
  have step: "ID sh' = ID (shards r ! ?n)" "shard_ready P sh' st'"
    "\<And>t. c \<le> t \<Longrightarrow> engine_view P (Engine sh') t = (engine_view P (Engine (shards r ! ?n)) t)(k := y t)"
    "\<And>sh2. ID sh2 \<noteq> ID (shards r ! ?n) \<Longrightarrow> shard_ready P sh2 (pstore r) \<Longrightarrow> shard_ready P sh2 st'"
    using assms(3) unfolding shard_step_def by blast+
  have rt: "route ?r j = route r j" for j by (simp add: route_def numShards_def)
  have "map ID ((shards r)[?n := sh']) = map ID (shards r)"
    using step(1) n by (simp add: map_update list_update_same_conv)
  moreover have "shard_ready P ((shards r)[?n := sh'] ! m) st'" if "m < length (shards r)" for m
  proof (cases "m = ?n")
    case False
    then have "ID (shards r ! m) \<noteq> ID (shards r ! ?n)"
      using that n len(3) by (metis length_map nth_eq_iff_index_eq nth_map)
    with step(4) ready [of "shards r ! m"] that False show ?thesis by simp
  qed (use step(2) n in simp)
  ultimately have "router_ok P ?r"
    using len unfolding router_ok_def by (auto simp: in_set_conv_nth simp del: map_update)
  moreover have "router_view P ?r t = (router_view P r t)(k := y t)" if "c \<le> t" for t
  proof
    fix j
    show "router_view P ?r t j = ((router_view P r t)(k := y t)) j"
      using step(3) [OF that] n unfolding router_view_def rt
      by (cases "route r j = ?n") auto
  qed
  moreover have "Dispatch P v op k x ttl r = Returns (a, ?r)"
    using assms(2) n numShards_pos [OF len(1,2)] by (simp add: Dispatch_def)
  ultimately show ?thesis by blast
qed

lemma routed_ready: "router_ok P r \<Longrightarrow> shard_ready P (shards r ! route r k) (pstore r)"
  using route_less [of r k] by (simp add: router_ok_def)

interpretation rstore: kv_store "rs_Get P" "rs_Set P" "rs_Delete P" op_now exec_ok "router_ok P" "router_view P" for P
proof
  fix r :: router and v :: exec_env and k
  assume ok: "router_ok P r" and v: "exec_ok v"
  let ?sh = "shards r ! route r k"
  note ready = routed_ready [OF ok, of k]
  show "\<exists>r'. rs_Get P v k r = Returns (router_view P r (op_now v) k, r') \<and> router_ok P r' \<and>
      (\<forall>t\<ge>op_now v. router_view P r' t = router_view P r t)"
  proof -
    obtain x sh' where x: "Execute P v CmdGet k [] 0 ?sh (pstore r) = Returns (x, sh', pstore r)"
      "(if resp_ok x then resp_value x else None) = engine_view P (Engine ?sh) (op_now v) k"
      "shard_step P (op_now v) k (\<lambda>t. engine_view P (Engine ?sh) t k) ?sh (pstore r) sh' (pstore r)"
      using shard_get [OF ready v, of k] by blast
    obtain r' where "Dispatch P v CmdGet k [] 0 r = Returns (x, r')" "router_ok P r'"
      "\<forall>t\<ge>op_now v. router_view P r' t = router_view P r t"
      using dispatch_step [OF ok x(1,3)] by (auto simp: router_view_def [symmetric])
    then show ?thesis
      using x(2) by (intro exI [of _ r']) (simp add: rs_Get_def router_view_def [symmetric])
  qed
  show "\<exists>r'. rs_Delete P v k r = Returns (router_view P r (op_now v) k \<noteq> None, r') \<and> router_ok P r' \<and>
      (\<forall>t\<ge>op_now v. router_view P r' t = (router_view P r t)(k := None))"
  proof -
    obtain x sh' st' where x: "Execute P v CmdDel k [] 0 ?sh (pstore r) = Returns (x, sh', st')"
      "resp_ok x = (engine_view P (Engine ?sh) (op_now v) k \<noteq> None)"
      "shard_step P (op_now v) k (\<lambda>t. None) ?sh (pstore r) sh' st'"
      using shard_del [OF ready v, of k] by blast
    from dispatch_step [OF ok x(1,3)] x(2) show ?thesis
      by (auto simp: rs_Delete_def router_view_def [symmetric])
  qed
  fix y :: bytes and ttl :: duration
  obtain x sh' st' where x: "Execute P v CmdSet k y ttl ?sh (pstore r) = Returns (x, sh', st')"
    "shard_step P (op_now v) k
        (\<lambda>t. if resp_err x = None then (if past t (deadline (op_now v) ttl) then None else Some y)
             else engine_view P (Engine ?sh) t k) ?sh (pstore r) sh' st'"
    using shard_set [OF ready v, of k y ttl] by blast
  from dispatch_step [OF ok x] show "\<exists>a r'. rs_Set P v k y ttl r = Returns (a, r') \<and> router_ok P r' \<and>
      (\<forall>t\<ge>op_now v. router_view P r' t =
         (if a = None then (router_view P r t)(k := if past t (deadline (op_now v) ttl) then None else Some y)
          else router_view P r t))"
    by (cases "resp_err x") (auto simp: rs_Set_def router_view_def [symmetric])
qed


definition exec_at :: "int \<Rightarrow> exec_env" where
  "exec_at t = \<lparr>exp_now = t, pre_now = t, op_now = t, op_nonce = Some (replicate 12 (CHR 0x01)),
     write_tear = None, undo_tear = None\<rparr>"

lemma exec_at_simps [simp]: "exec_ok (exec_at t)" "op_now (exec_at t) = t" "exp_now (exec_at t) = t"
  "op_nonce (exec_at t) = Some (replicate 12 (CHR 0x01))"
  by (simp_all add: exec_at_def exec_ok_def nonce_ok_def)

definition two_shards :: router where
  "two_shards = \<lparr>shards = [new_shard 0 restart_engine, new_shard 1 engine_enc],
     pstore = snd (OpenShard 1 (Some wal_key) (opened None))\<rparr>"

lemma two_shards_ok: "router_ok plain_prims two_shards"
proof -
  let ?st = "snd (OpenShard 1 (Some wal_key) (opened None))"
  have files: "disk (opened None) 1 = no_disk 1" "persist (opened None)"
    by (simp_all add: opened_def OpenShard_def NewStorage_def Let_def)
  have "log_of plain_prims 0 None ?st [] []"
    using opened_log [of None] files by (auto simp: OpenShard_def log_of_def Let_def no_disk_def wal_bytes_def)
  moreover have "log_of plain_prims 1 (Some wal_key) ?st [] []"
    using files by (auto simp: OpenShard_def log_of_def Let_def no_disk_def wal_bytes_def wal_key_def log_ok_def
        log_file_def crypto_wf_def fcodec.torn_def)
  moreover have "items engine_enc = Map.empty" by (simp add: engine_enc_def NewEngine_def)
  ultimately show ?thesis
    using engine_enc_ok restart_loadable
    by (auto simp: router_ok_def two_shards_def shard_ready_def new_shard_def loadable_def)
qed

lemma two_shards_empty: "router_view plain_prims two_shards t k = None"
proof -
  have "shards two_shards ! route two_shards k \<in> set (shards two_shards)"
    using route_less [of two_shards k] two_shards_ok by (auto simp: router_ok_def intro: nth_mem)
  then have "items (Engine (shards two_shards ! route two_shards k)) = Map.empty"
    by (auto simp: two_shards_def new_shard_def engine_enc_def NewEngine_def)
  then show ?thesis by (simp add: router_view_def engine_view_def)
qed


section \<open>Durability\<close>

definition request :: "prims \<Rightarrow> exec_env \<Rightarrow> kv_op \<Rightarrow> shard \<Rightarrow> pstorage \<Rightarrow> (response \<times> shard \<times> pstorage) go" where
  "request P v op sh st =
     (case op of
        KGet k \<Rightarrow> Execute P v CmdGet k [] 0 sh st
      | KSet k x ttl \<Rightarrow> Execute P v CmdSet k x ttl sh st
      | KDel k \<Rightarrow> Execute P v CmdDel k [] 0 sh st)"

fun requests :: "prims \<Rightarrow> (exec_env \<times> kv_op) list \<Rightarrow> shard \<Rightarrow> pstorage \<Rightarrow> (response list \<times> shard \<times> pstorage) go" where
  "requests P [] sh st = Returns ([], sh, st)"
| "requests P ((v, op) # rs) sh st =
     go_bind (request P v op sh st) (\<lambda>(x, sh1, st1).
       go_bind (requests P rs sh1 st1) (\<lambda>(xs, sh2, st2). Returns (x # xs, sh2, st2)))"

text \<open>
  A request whose nonce is available, that sees one clock reading, and whose expiration fits the
  signed 64 bit nanoseconds the log stores.
\<close>

definition timely :: "exec_env \<times> kv_op \<Rightarrow> bool" where
  "timely r = (case r of (v, op) \<Rightarrow> exec_ok v \<and> op_nonce v \<noteq> None \<and> exp_now v = op_now v \<and> 0 \<le> op_now v \<and>
     (case op of KSet k x ttl \<Rightarrow> op_now v + ttl < 2 ^ 63 | _ \<Rightarrow> True))"

text \<open>The engine shows what the log says.\<close>

definition in_step :: "prims \<Rightarrow> crypto_engine option \<Rightarrow> int \<Rightarrow> shard \<Rightarrow> pstorage \<Rightarrow> (uint64 \<times> wal_rec) list \<Rightarrow> bool" where
  "in_step P mode t sh st xs \<longleftrightarrow> log_of P (ID sh) mode st xs [] \<and> loadable P (Engine sh) \<and>
     shows_from P (Engine sh) t (history (map snd xs) Map.empty)"

lemma lookup_hist_set:
  assumes "0 \<le> t0" "t0 + ttl < 2 ^ 63"
  shows "lookup_at (hist_step (unix_nano (deadline t0 ttl), k, x) m) t =
      (lookup_at m t)(k := if past t (deadline t0 ttl) then None else Some x)"
  using assms
  by (auto simp: hist_step_def unix_nano_def deadline_def tombstoneTTL_def lookup_at_def fun_eq_iff)

lemma lookup_hist_del: "lookup_at (hist_step (tombstoneTTL, k, []) m) t = (lookup_at m t)(k := None)"
  by (auto simp: hist_step_def lookup_at_def fun_eq_iff)

lemma shows_from_mono: "shows_from P e t m \<Longrightarrow> t \<le> u \<Longrightarrow> shows_from P e u m"
  by (auto simp: shows_from_def)

lemma probed_loadable: "loadable P e \<Longrightarrow> loadable P (probed P v k e)"
  using probed_props [of P e] by (simp add: loadable_def)

lemma not_refused:
  assumes "loadable P (Engine sh)" "exec_ok v" "op_nonce v \<noteq> None"
    and "wal_do P None (ID sh) (set_rec v k x ttl) st = (None, st1)"
  shows "Execute P v CmdSet k x ttl sh st \<noteq> Returns (failed (ShardEngine err), a)"
proof -
  obtain n where n: "op_nonce v = Some n" "length n = NonceSize"
    using assms(2,3) by (auto simp: exec_ok_def nonce_ok_def)
  obtain e' where "Set P (op_now v) (Some n) k x ttl (probed P v k (Engine sh)) = Returns (None, e')"
    using Set_unlimited [of P "probed P v k (Engine sh)" "Some n" n "op_now v" k x ttl] probed_loadable [OF assms(1), of v k]
    by (auto simp: loadable_def)
  with assms(2,4) n(1) show ?thesis
    by (auto simp: Execute_def CmdSet_def CmdGet_def exec_ok_def failed_def probed_def case_prod_beta)
qed

lemma request_in_step:
  assumes "in_step P mode t sh st xs" "timely (v, op)" "t \<le> op_now v"
  shows "\<exists>x sh' st' ys. request P v op sh st = Returns (x, sh', st') \<and> ID sh' = ID sh \<and> in_step P mode (op_now v) sh' st' ys \<and>
      snap_file (disk st' (ID sh)) = snap_file (disk st (ID sh))"
proof -
  have log: "log_of P (ID sh) mode st xs []" and ld: "loadable P (Engine sh)"
    and sh: "shows_from P (Engine sh) (op_now v) (history (map snd xs) Map.empty)"
    using assms(1,3) shows_from_mono by (auto simp: in_step_def)
  have v: "exec_ok v" "op_nonce v \<noteq> None" "exp_now v = op_now v" "0 \<le> op_now v" "pre_now v \<le> op_now v"
    using assms(2) by (auto simp: timely_def exec_ok_def)
  have st: "store_ok P (Engine sh)" using ld by (simp add: loadable_def)
  show ?thesis
  proof (cases op)
    case (KGet k)
    let ?v = "v\<lparr>pre_now := op_now v\<rparr>"
    note pr = probed_props(6) [OF st, where v = ?v and k = k] probed_loadable [OF ld, where v = ?v and k = k]
    have "in_step P mode (op_now v) (sh\<lparr>Engine := probed P ?v k (Engine sh)\<rparr>) st xs"
      using log pr sh by (auto simp: in_step_def shows_from_def)
    then show ?thesis using KGet by (auto simp: request_def Execute_Get_eq probed_def)
  next
    case (KSet k x ttl)
    have rng: "op_now v + ttl < 2 ^ 63" using assms(2) KSet by (simp add: timely_def)
    note pr = probed_props [OF st, where v = v and k = k]
    have psh: "shows_from P (probed P v k (Engine sh)) (op_now v) (history (map snd xs) Map.empty)"
      using sh pr(6) v(5) by (auto simp: shows_from_def)
    show ?thesis
    proof (cases rule: Execute_Set_cases [OF st v(1), of k x ttl st])
      case (1 err st1)
      from wal_do_log [OF log 1(1)] have "in_step P mode (op_now v) (sh\<lparr>Engine := probed P v k (Engine sh)\<rparr>) st1 xs"
        using psh probed_loadable [OF ld] by (simp add: in_step_def)
      with 1 KSet append_keeps_files [OF 1(1)] show ?thesis by (auto simp: request_def)
    next
      case (2 err st1)
      with not_refused [OF ld v(1,2) 2(1)] show ?thesis by blast
    next
      case (3 c e' st1)
      let ?r = "(unix_nano (deadline (op_now v) ttl), k, x)"
      have "log_of P (ID sh) mode st1 (xs @ [(nonce_counter (ID sh) st, ?r)]) []"
        using wal_do_log [OF log 3(1)] v(3) by simp
      moreover have "loadable P e'"
        using stored_ok [OF pr(1) 3(3,4)] 3(3) pr(4) ld by (simp add: loadable_def stored_def)
      moreover have "shows_from P e' (op_now v) (hist_step ?r (history (map snd xs) Map.empty))"
        using stored_view [OF 3(3,4)] psh lookup_hist_set [OF v(4) rng] by (simp add: shows_from_def)
      ultimately have "in_step P mode (op_now v) (sh\<lparr>Engine := e'\<rparr>) st1 (xs @ [(nonce_counter (ID sh) st, ?r)])"
        by (simp add: in_step_def history_snoc)
      with 3 KSet append_keeps_files [OF 3(1)] show ?thesis by (auto simp: request_def)
    qed
  next
    case (KDel k)
    obtain r st1 where w: "wal_do P None (ID sh) (WalDel k) st = (r, st1)" by fastforce
    note wl = wal_do_log [OF log w]
    show ?thesis
    proof (cases r)
      case None
      let ?e = "snd (Delete (op_now v) k (Engine sh))" and ?r = "(tombstoneTTL, k, [] :: bytes)"
      have "loadable P ?e" using ld Delete_inv by (auto simp: loadable_def store_ok_def decodable_def)
      moreover have "engine_view P ?e t = (engine_view P (Engine sh) t)(k := None)" for t
        by (intro ext) (auto simp: engine_view_def split: option.split)
      then have "shows_from P ?e (op_now v) (hist_step ?r (history (map snd xs) Map.empty))"
        using sh by (simp add: shows_from_def lookup_hist_del)
      ultimately have "in_step P mode (op_now v) (sh\<lparr>Engine := ?e\<rparr>) st1 (xs @ [(nonce_counter (ID sh) st, ?r)])"
        using wl None by (simp add: in_step_def history_snoc)
      with None KDel append_keeps_files [OF w] show ?thesis
        by (auto simp: request_def Execute_Del_eq [OF st v(1) w])
    next
      case (Some err)
      then have "in_step P mode (op_now v) sh st1 xs" using wl ld sh by (simp add: in_step_def)
      with Some KDel append_keeps_files [OF w] show ?thesis
        by (auto simp: request_def Execute_Del_eq [OF st v(1) w])
    qed
  qed
qed

lemma requests_in_step:
  assumes "in_step P mode t sh st xs" "list_all timely rs" "times_from t (map (\<lambda>r. op_now (fst r)) rs)"
  shows "\<exists>a sh' st' ys u. requests P rs sh st = Returns (a, sh', st') \<and> ID sh' = ID sh \<and> in_step P mode u sh' st' ys \<and>
      u = last (t # map (\<lambda>r. op_now (fst r)) rs) \<and> snap_file (disk st' (ID sh)) = snap_file (disk st (ID sh))"
  using assms
proof (induction rs arbitrary: t sh st xs)
  case (Cons r rs)
  obtain v op where r: "r = (v, op)" by fastforce
  obtain x sh1 st1 ys where 1: "request P v op sh st = Returns (x, sh1, st1)" "ID sh1 = ID sh"
    "in_step P mode (op_now v) sh1 st1 ys" "snap_file (disk st1 (ID sh)) = snap_file (disk st (ID sh))"
    using request_in_step [OF Cons.prems(1), of v op] Cons.prems(2,3) r by auto
  obtain a sh2 st2 zs u where "requests P rs sh1 st1 = Returns (a, sh2, st2)" "ID sh2 = ID sh1"
    "in_step P mode u sh2 st2 zs" "u = last (op_now v # map (\<lambda>r. op_now (fst r)) rs)"
    "snap_file (disk st2 (ID sh1)) = snap_file (disk st1 (ID sh1))"
    using Cons.IH [OF 1(3)] Cons.prems(2,3) r by (simp only: list.pred_inject list.map times_from.simps fst_conv) blast
  with 1 r show ?case by auto
qed auto

lemma history_last:
  assumes "history rs Map.empty k = Some (x, e)"
  obtains ttl where "last_on k rs = Some (ttl, k, x)" "e = (if ttl = 0 then None else Some ttl)" "ttl \<noteq> tombstoneTTL"
  using assms
proof (induction rs arbitrary: thesis rule: rev_induct)
  case (snoc r rs)
  obtain ttl j y where r: "r = (ttl, j, y)" by (cases r)
  show ?case
  proof (cases "j = k")
    case True
    with snoc.prems r show ?thesis by (auto simp: history_snoc hist_step_def last_on_snoc split: if_splits)
  next
    case False
    with snoc r show ?thesis by (auto simp: history_snoc hist_step_def last_on_snoc split: if_splits)
  qed
qed (simp add: history_def)



section \<open>A refused write and the next start\<close>

lemma Set_too_large:
  assumes "engine_inv e" "items e = Map.empty" "\<not> enabled (crypto e)" "0 < maxBytes e"
    and "unat (maxBytes e) < length k + length x" "length k + length x < 2 ^ 64"
  shows "Set P now rnd k x ttl e = Returns (Some ErrEngineFull, e)"
proof -
  have "allocatedBytes e = 0" using assms(1,2) by (simp add: engine_inv_def total_bytes_def)
  moreover have "unat (of_nat (length k + length x) :: uint64) = length k + length x"
    using assms(6) by (intro unat_of_nat_less) simp
  ultimately have "engine_full e (length k + length x)"
    using assms(4,5) by (simp add: engine_full_def word_less_nat_alt)
  with assms(3) show ?thesis by (simp add: Set_def)
qed

lemma LoadShard_refused:
  assumes "log_of P i None s ((c, (0, k, x)) # xs) []" "\<not> snapshotExists (snap_file (disk s i))"
    and "Set P (load_now v) (load_nonces v 0) k x 0 e = Returns (Some err, e)"
  shows "LoadShard P H v i e s = Returns (Some (WalEngine err), e, s)"
proof -
  obtain h where h: "persist s" "handles s i = Some h" "wal_crypto h = None"
    and f: "wal_bytes (disk s i) = encode_rec (0, k, x) @ concat (map encode_rec (map snd xs))" "rec_ok (0, k, x)"
    using assms(1) by (auto simp: log_of_def log_file_def log_ok_def simp del: encode_rec.simps)
  have "plain_loop P (load_now v) (load_nonces v) (wal_bytes (disk s i)) (stats0 0) e =
      Returns ((Some err, count_record (length (encode_rec (0, k, x))) (Rejected err) (stats0 0)), e)"
    unfolding f(1)
    by (subst plain_loop.simps)
      (simp add: rcodec.dec_enc [OF f(2)] applyRecord_def tombstoneTTL_def stats0_def assms(3) del: encode_rec.simps)
  with h assms(2) show ?thesis
    by (simp add: LoadShard_def replayWAL_def replayWALPlaintext_def)
qed

lemma refused_set_log:
  assumes "log_of P (ID sh) None st [] []" "store_ok P (Engine sh)" "items (Engine sh) = Map.empty"
    and "\<not> enabled (crypto (Engine sh))" "0 < maxBytes (Engine sh)" "exec_ok v"
    and "unat (maxBytes (Engine sh)) < length k + length x" "length k + length x < 2 ^ 32"
  shows "\<exists>sh1 st1 c ys. Execute P v CmdSet k x 0 sh st = Returns (failed (ShardEngine ErrEngineFull), sh1, st1) \<and>
      log_of P (ID sh) None st1 ((c, (0, k, x)) # ys) [] \<and>
      snap_file (disk st1 (ID sh)) = snap_file (disk st (ID sh))"
proof -
  note pr = probed_props [OF assms(2), where v = v and k = k]
  let ?e = "probed P v k (Engine sh)"
  have "items ?e = Map.empty" using pr(5) assms(3) by auto
  then have full: "Set P (op_now v) (op_nonce v) k x 0 ?e = Returns (Some ErrEngineFull, ?e)"
    using Set_too_large [OF pr(2)] pr(3,4) assms(4,5,7,8) by simp
  obtain r s1 where w: "wal_do P None (ID sh) (set_rec v k x 0) st = (r, s1)" by fastforce
  have "fits None (0, k, x)" using assms(8) by (simp add: fits_def rec_ok_def)
  then have r: "r = None" "log_of P (ID sh) None s1 [(nonce_counter (ID sh) st, (0, k, x))] []"
    using wal_do_log [OF assms(1) w] by (auto simp: deadline_def unix_nano_def)
  obtain r2 s2 where w2: "wal_do P None (ID sh) (WalDel k) s1 = (r2, s2)" by fastforce
  have log2: "\<exists>ys. log_of P (ID sh) None s2 ((nonce_counter (ID sh) st, (0, k, x)) # ys) []"
    using wal_do_log [OF r(2) w2] by (cases r2) auto
  have none: "engine_view P (Engine sh) (pre_now v) k = None" using assms(3) by (simp add: engine_view_def)
  have "persist s1" using r(2) by (simp add: log_of_def)
  with full w w2 r(1) none assms(6)
  have "Execute P v CmdSet k x 0 sh st = Returns (failed (ShardEngine ErrEngineFull), sh\<lparr>Engine := ?e\<rparr>, s2)"
    using Get_result [of P "pre_now v" k "Engine sh"]
    by (auto simp: Execute_def CmdSet_def CmdGet_def exec_ok_def probed_def case_prod_beta)
  with log2 append_keeps_files [OF w] append_keeps_files [OF w2] show ?thesis by auto
qed

lemma OpenShard_plain:
  assumes "log_of P i None s ((c, (ttl, k, x)) # ys) []" "length k < 2 ^ 24"
  shows "\<exists>s'. OpenShard i None (crash s) = (None, s')"
proof -
  have f: "wal_bytes (disk s i) = le_bytes 4 (length k) @ drop 4 (wal_bytes (disk s i))"
    using assms(1) by (simp add: log_of_def log_file_def rec_header_def)
  have "le_bytes 4 (length k) ! 3 = CHR 0x00"
    using assms(2) by (simp add: le_bytes_4 div_mult2_eq [symmetric] char_of_def)
  then have "le_bytes 4 (length k) \<noteq> walMagic" by (auto simp: walMagic_def)
  moreover have "take 4 (wal_bytes (disk s i)) = le_bytes 4 (length k)" by (subst f) simp
  moreover have "\<not> length (wal_bytes (disk s i)) < 4" by (subst f) simp
  ultimately show ?thesis by (auto simp: OpenShard_def Let_def)
qed



section \<open>Data keys across restarts\<close>

lemma shard_dek_first_boot:
  assumes "length key = keySize" "map_of d (envelopeFileName i) = None" "shard_dek P v i key d = (Inr k, d1)"
  obtains e0 where "NewEnvelope P key = Inr e0" "GenerateDEK (Some k) e0 = Inr (e0\<lparr>dek := k\<rparr>)"
    "Store P (run_io v) (run_wrap_nonce v) (envelopeFileName i) (e0\<lparr>dek := k\<rparr>) d = (None, d1)"
proof -
  obtain e0 where e0: "NewEnvelope P key = Inr e0" using NewEnvelope_returns [OF assms(1)] by blast
  then have en: "env_enabled e0" using NewEnvelope_key [OF assms(1)] by blast
  then have "Load P (run_io v) (envelopeFileName i) e0 d = Inl EnvNotExist" using assms(2) by (simp add: Load_def)
  with assms(3) e0 en show thesis
    by (intro that) (auto simp: shard_dek_def GenerateDEK_def DEK_def split: option.splits prod.splits)
qed

text \<open>
  C32. In envelope mode a shard keeps its data key: after a first boot that generated one, every
  later boot with the same key encryption key gets the same data key and writes nothing, and a
  boot with another key encryption key is refused instead of generating a fresh data key over the
  existing data.
\<close>

theorem shard_key_stable:
  assumes "aead_laws P" "sha_ok P" "nonces_ok (run_wrap_nonce v)" "length key = keySize"
    and "map_of d (envelopeFileName i) = None" "shard_dek P v i key d = (Inr k, d1)" "\<not> fails (run_io w) ReadFile"
  shows "shard_dek P w i key d1 = (Inr k, d1) \<and>
      (\<forall>key'. length key' = keySize \<longrightarrow> FingerprintBytes P key' \<noteq> FingerprintBytes P key \<longrightarrow>
         shard_dek P w i key' d1 = (Inl (ShardEnvelope EnvFingerprint), d1))"
proof -
  obtain e0 where e0: "NewEnvelope P key = Inr e0" "GenerateDEK (Some k) e0 = Inr (e0\<lparr>dek := k\<rparr>)"
    "Store P (run_io v) (run_wrap_nonce v) (envelopeFileName i) (e0\<lparr>dek := k\<rparr>) d = (None, d1)"
    using shard_dek_first_boot [OF assms(4-6)] by blast
  note sl = Store_Load [OF assms(1-4) e0 assms(7)]
  have "shard_dek P w i key' d1 = (Inl (ShardEnvelope EnvFingerprint), d1)"
    if len: "length key' = keySize" and fp: "FingerprintBytes P key' \<noteq> FingerprintBytes P key" for key'
  proof -
    obtain e' where e': "NewEnvelope P key' = Inr e'" using NewEnvelope_returns [OF len] by blast
    with sl len fp have "Load P (run_io w) (envelopeFileName i) e' d1 = Inl EnvFingerprint" by blast
    with e' show ?thesis by (simp add: shard_dek_def)
  qed
  with sl e0(1) show ?thesis by (simp add: shard_dek_def)
qed

definition boot_env :: "bytes \<Rightarrow> run_env" where
  "boot_env k = \<lparr>run_io = no_faults, run_dek = Some k, run_wrap_nonce = Some nonce0, run_load = load_at 0\<rparr>"

theorem shard_key_stable_witness:
  "\<exists>d1. shard_dek plain_prims (boot_env ''first'') 3 kekA [] = (Inr ''first'', d1) \<and>
     shard_dek plain_prims (boot_env ''second'') 3 kekA d1 = (Inr ''first'', d1) \<and>
     shard_dek plain_prims (boot_env ''second'') 3 kekB d1 = (Inl (ShardEnvelope EnvFingerprint), d1)"
proof -
  obtain d1 where d1: "shard_dek plain_prims (boot_env ''first'') 3 kekA [] = (Inr ''first'', d1)"
    by (simp add: shard_dek_def NewEnvelope_env_of boot_env_def GenerateDEK_def DEK_def Load_def Store_def env_encrypt_def
        EncryptInPlace_def env_of_def no_faults_def sync_dir_def Let_def)
  moreover have "\<not> fails (run_io (boot_env ''second'')) ReadFile" "nonces_ok (run_wrap_nonce (boot_env ''first''))"
    by (simp_all add: boot_env_def no_faults_def)
  ultimately show ?thesis
    using shard_key_stable [OF plain_prims_laws plain_sha, of "boot_env ''first''" kekA "[]" 3 "''first''" d1 "boot_env ''second''"]
      fingerprints_differ key_lengths
    by (metis map_of.simps(1))
qed

end
