(* ===== verification/Rbac_Policy.thy ===== *)
theory Rbac_Policy
  imports Rbac_Role "HOL-Library.AList"
begin

text \<open>
  The policy store of \<^verbatim>\<open>src/internal/rbac\<close>: users and password options
  (\<^verbatim>\<open>user.go\<close>), the policy snapshot and its role resolution, the claim rules for tokens
  and the atomic store (\<^verbatim>\<open>policy.go\<close>), the policy file (\<^verbatim>\<open>config.go\<close>), the
  administrative operations (\<^verbatim>\<open>manager.go\<close>), the counters (\<^verbatim>\<open>metrics.go\<close>)
  and the ACL LOG ring buffer (\<^verbatim>\<open>log.go\<close>). YAML and bcrypt are parameters. Maps are
  association lists; addresses of roles stand for the pointers the code compares.
\<close>

section \<open>Users\<close>

record user =
  user_role :: string
  PasswordHash :: bytes

definition password_opt :: "(bytes \<Rightarrow> bytes option) \<Rightarrow> bytes \<Rightarrow> rbac_error + bytes" where
  "password_opt hash opt =
     (if ToUpper opt = ''NOPASS'' then Inr []
      else if length opt > 1 \<and> opt ! 0 = CHR ''>'' then
        (case hash (drop 1 opt) of None \<Rightarrow> Inl HashFailure | Some h \<Rightarrow> Inr h)
      else Inl BadPasswordOption)"

fun passwords_from :: "(bytes \<Rightarrow> bytes option) \<Rightarrow> bytes \<Rightarrow> bytes list \<Rightarrow> rbac_error + bytes" where
  "passwords_from hash acc [] = Inr acc"
| "passwords_from hash acc (opt # opts) =
     (case password_opt hash opt of Inl err \<Rightarrow> Inl err | Inr h \<Rightarrow> passwords_from hash h opts)"

definition PasswordFromOpts :: "(bytes \<Rightarrow> bytes option) \<Rightarrow> bytes list \<Rightarrow> rbac_error + bytes" where
  "PasswordFromOpts hash opts = passwords_from hash [] opts"

section \<open>Claim rules\<close>

record oauth_rule =
  claim :: string
  match_exact :: string
  match_prefix :: string
  match_suffix :: string
  rule_role :: role

definition HasSuffix :: "string \<Rightarrow> string \<Rightarrow> bool" where
  "HasSuffix s suf = (length suf \<le> length s \<and> drop (length s - length suf) s = suf)"

definition parseMatch :: "string \<Rightarrow> rbac_error + (string \<times> string \<times> string)" where
  "parseMatch m =
     (if count_list m (CHR ''*'') = 0 then Inr (m, [], [])
      else if HasPrefix m ''*'' then Inr ([], [], drop 1 m)
      else if HasSuffix m ''*'' then Inr ([], TrimSuffix m ''*'', [])
      else Inl BadMatch)"

definition matches :: "oauth_rule \<Rightarrow> string list \<Rightarrow> bool" where
  "matches r vs =
     list_ex (\<lambda>v.
       match_exact r \<noteq> [] \<and> v = match_exact r \<or>
       match_prefix r \<noteq> [] \<and> HasPrefix v (match_prefix r) \<or>
       match_suffix r \<noteq> [] \<and> HasSuffix v (match_suffix r) \<or>
       match_exact r = [] \<and> match_prefix r = [] \<and> match_suffix r = []) vs"

section \<open>The policy snapshot\<close>

record policy =
  Roles :: "(string \<times> role) list"
  Users :: "(string \<times> user) list"
  Default :: "role option"
  OAuthRules :: "oauth_rule list"

definition empty_policy :: policy where
  "empty_policy = \<lparr>Roles = [], Users = [], Default = None, OAuthRules = []\<rparr>"

definition RoleFor :: "policy option \<Rightarrow> string \<Rightarrow> role option" where
  "RoleFor po username =
     (case po of
        None \<Rightarrow> None
      | Some p \<Rightarrow>
          (case map_of (Users p) username of
             Some u \<Rightarrow> (case map_of (Roles p) (user_role u) of Some r \<Rightarrow> Some r | None \<Rightarrow> Default p)
           | None \<Rightarrow> Default p))"

definition UserFor :: "policy option \<Rightarrow> string \<Rightarrow> user option" where
  "UserFor po username = (case po of None \<Rightarrow> None | Some p \<Rightarrow> map_of (Users p) username)"

type_synonym claims = "(string \<times> string list) list"

definition RoleForClaims :: "policy option \<Rightarrow> claims \<Rightarrow> role option" where
  "RoleForClaims po cs =
     (case po of
        None \<Rightarrow> None
      | Some p \<Rightarrow>
          map_option rule_role
            (find (\<lambda>r. case map_of cs (claim r) of Some vs \<Rightarrow> matches r vs | None \<Rightarrow> False) (OAuthRules p)))"

definition NoPassDefault :: "policy option \<Rightarrow> bool" where
  "NoPassDefault po =
     (case po of
        None \<Rightarrow> False
      | Some p \<Rightarrow> (case map_of (Users p) ''default'' of Some u \<Rightarrow> length (PasswordHash u) = 0 | None \<Rightarrow> False))"

section \<open>The policy file\<close>

record file_user =
  fu_name :: string
  fu_password :: string
  fu_role :: string
  fu_nopass :: bool

record file_config =
  fc_roles :: "(string \<times> string list) list"
  fc_users :: "file_user list"
  fc_default :: string
  fc_oauth :: "(string \<times> string \<times> string) list"

definition isBcryptHash :: "(string \<Rightarrow> bool) \<Rightarrow> string \<Rightarrow> bool" where
  "isBcryptHash cost_ok h = (if length h < 59 then False else cost_ok h)"

fun build_roles :: "nat \<Rightarrow> (string \<times> string list) list \<Rightarrow> policy \<Rightarrow> rbac_error + policy" where
  "build_roles a [] p = Inr p"
| "build_roles a ((name, rules) # rs) p =
     (if name = [] then Inl NoName
      else if map_of (Roles p) name \<noteq> None then Inl Duplicate
      else (case ParseRole a name rules of
              Inl err \<Rightarrow> Inl err
            | Inr r \<Rightarrow> build_roles (a + 1) rs (p\<lparr>Roles := AList.update name r (Roles p)\<rparr>)))"

definition user_hash :: "(string \<Rightarrow> bool) \<Rightarrow> file_user \<Rightarrow> rbac_error + bytes" where
  "user_hash cost_ok u =
     (if fu_nopass u \<and> fu_password u \<noteq> [] then Inl BothPasswords
      else if fu_nopass u then Inr []
      else if fu_password u = [] then Inl NoPassword
      else if \<not> isBcryptHash cost_ok (fu_password u) then Inl NotBcrypt
      else Inr (fu_password u))"

fun build_users :: "(string \<Rightarrow> bool) \<Rightarrow> file_user list \<Rightarrow> policy \<Rightarrow> rbac_error + policy" where
  "build_users cost_ok [] p = Inr p"
| "build_users cost_ok (u # us) p =
     (if fu_name u = [] then Inl NoName
      else if map_of (Users p) (fu_name u) \<noteq> None then Inl Duplicate
      else if fu_role u \<noteq> [] \<and> map_of (Roles p) (fu_role u) = None then Inl UnknownRole
      else (case user_hash cost_ok u of
              Inl err \<Rightarrow> Inl err
            | Inr h \<Rightarrow>
                build_users cost_ok us
                  (p\<lparr>Users := AList.update (fu_name u) \<lparr>user_role = fu_role u, PasswordHash = h\<rparr> (Users p)\<rparr>)))"

definition build_default :: "string \<Rightarrow> policy \<Rightarrow> rbac_error + policy" where
  "build_default name p =
     (if name = [] then Inr p
      else (case map_of (Roles p) name of None \<Rightarrow> Inl BadDefault | Some r \<Rightarrow> Inr (p\<lparr>Default := Some r\<rparr>)))"

fun build_oauth :: "(string \<times> string \<times> string) list \<Rightarrow> policy \<Rightarrow> rbac_error + policy" where
  "build_oauth [] p = Inr p"
| "build_oauth ((cl, m, name) # rs) p =
     (if cl = [] \<or> m = [] \<or> name = [] then Inl BadOAuthRule
      else (case map_of (Roles p) name of
              None \<Rightarrow> Inl UnknownRole
            | Some r \<Rightarrow>
                (case parseMatch m of
                   Inl err \<Rightarrow> Inl err
                 | Inr (e, pre, suf) \<Rightarrow>
                     build_oauth rs (p\<lparr>OAuthRules := OAuthRules p @
                       [\<lparr>claim = cl, match_exact = e, match_prefix = pre, match_suffix = suf, rule_role = r\<rparr>]\<rparr>))))"

definition policy_build :: "(string \<Rightarrow> bool) \<Rightarrow> nat \<Rightarrow> file_config \<Rightarrow> rbac_error + policy" where
  "policy_build cost_ok a fc =
     (case build_roles a (fc_roles fc) empty_policy of
        Inl err \<Rightarrow> Inl err
      | Inr p1 \<Rightarrow>
          (case build_users cost_ok (fc_users fc) p1 of
             Inl err \<Rightarrow> Inl err
           | Inr p2 \<Rightarrow>
               (case build_default (fc_default fc) p2 of
                  Inl err \<Rightarrow> Inl err
                | Inr p3 \<Rightarrow> build_oauth (fc_oauth fc) p3)))"

definition policy_Parse :: "(bytes \<Rightarrow> file_config option) \<Rightarrow> (string \<Rightarrow> bool) \<Rightarrow> nat \<Rightarrow> bytes \<Rightarrow> rbac_error + policy" where
  "policy_Parse yaml cost_ok a data =
     (case yaml data of None \<Rightarrow> Inl ConfigSyntax | Some fc \<Rightarrow> policy_build cost_ok a fc)"

section \<open>The store\<close>

record auth_entry =
  Timestamp :: int
  entry_user :: string
  RemoteAddr :: string
  Reason :: string

record rbac_store =
  active :: "policy option"
  next_addr :: nat
  role_commands :: "nat \<Rightarrow> uint64"
  authFailures :: uint64
  deniedCommands :: uint64
  ring :: "auth_entry list"
  logHead :: nat
  logLen :: nat

text \<open>
  A policy from a file takes the addresses from \<open>next_addr\<close> on; the store is told how many
  roles it has.
\<close>

definition NewStore :: "policy option \<Rightarrow> nat \<Rightarrow> rbac_store" where
  "NewStore po n =
     \<lparr>active = po, next_addr = n, role_commands = (\<lambda>a. 0), authFailures = 0, deniedCommands = 0,
      ring = [], logHead = 0, logLen = 0\<rparr>"

definition Reload :: "policy \<Rightarrow> nat \<Rightarrow> rbac_store \<Rightarrow> rbac_store" where
  "Reload p n s = s\<lparr>active := Some p, next_addr := n\<rparr>"

definition reloadRBAC :: "(bytes \<Rightarrow> file_config option) \<Rightarrow> (string \<Rightarrow> bool) \<Rightarrow> bytes option \<Rightarrow> rbac_store \<Rightarrow> rbac_store" where
  "reloadRBAC yaml cost_ok contents s =
     (case contents of
        None \<Rightarrow> s
      | Some data \<Rightarrow>
          (case policy_Parse yaml cost_ok (next_addr s) data of
             Inl err \<Rightarrow> s
           | Inr p \<Rightarrow> Reload p (next_addr s + length (Roles p)) s))"

definition ResolveOAuthToken :: "rbac_store \<Rightarrow> claims option \<Rightarrow> (session \<times> string) option" where
  "ResolveOAuthToken s verified =
     (case verified of
        None \<Rightarrow> None
      | Some cs \<Rightarrow>
          (case RoleForClaims (active s) cs of
             None \<Rightarrow> None
           | Some r \<Rightarrow>
               (let subject = (case map_of cs ''sub'' of
                                 Some (sub # subs) \<Rightarrow> if sub \<noteq> [] then sub else ''default''
                               | _ \<Rightarrow> ''default'')
                in Some (NewSessionContext subject (Some r), subject))))"

definition CountCommand :: "session \<Rightarrow> rbac_store \<Rightarrow> rbac_store" where
  "CountCommand sc s =
     (case sess_role sc of
        None \<Rightarrow> s
      | Some r \<Rightarrow> s\<lparr>role_commands := (role_commands s)(role_addr r := role_commands s (role_addr r) + 1)\<rparr>)"

definition IncDenied :: "rbac_store \<Rightarrow> rbac_store" where
  "IncDenied s = s\<lparr>deniedCommands := deniedCommands s + 1\<rparr>"

definition RoleCommandCounts :: "rbac_store \<Rightarrow> (string \<times> uint64) list" where
  "RoleCommandCounts s =
     (case active s of None \<Rightarrow> [] | Some p \<Rightarrow> map (\<lambda>(n, r). (n, role_commands s (role_addr r))) (Roles p))"

section \<open>Administration\<close>

definition base_policy :: "rbac_store \<Rightarrow> policy" where
  "base_policy s = (case active s of Some p \<Rightarrow> p | None \<Rightarrow> empty_policy)"

definition CreateRole :: "string \<Rightarrow> string list \<Rightarrow> rbac_store \<Rightarrow> rbac_error option \<times> rbac_store" where
  "CreateRole name rules s =
     (case ParseRole (next_addr s) name rules of
        Inl err \<Rightarrow> (Some err, s)
      | Inr r \<Rightarrow>
          if active s \<noteq> None \<and> map_of (Roles (base_policy s)) name \<noteq> None then (Some RoleExists, s)
          else (None, s\<lparr>active := Some ((base_policy s)\<lparr>Roles := AList.update name r (Roles (base_policy s))\<rparr>),
                        next_addr := next_addr s + 1\<rparr>))"

definition SetUser :: "string \<Rightarrow> string \<Rightarrow> bytes \<Rightarrow> rbac_store \<Rightarrow> rbac_error option \<times> rbac_store" where
  "SetUser username roleName passHash s =
     (let p = base_policy s in
      if map_of (Roles p) roleName = None then (Some UnknownRole, s)
      else (None, s\<lparr>active :=
              Some (p\<lparr>Users := AList.update username \<lparr>user_role = roleName, PasswordHash = passHash\<rparr> (Users p)\<rparr>)\<rparr>))"

definition is_admin :: "policy option \<Rightarrow> string \<Rightarrow> bool" where
  "is_admin po username = (case RoleFor po username of Some r \<Rightarrow> bs_Has cmd_ACL (Permissions r) | None \<Rightarrow> False)"

definition hasOtherAdmin :: "policy \<Rightarrow> string \<Rightarrow> bool" where
  "hasOtherAdmin p username = list_ex (\<lambda>n. n \<noteq> username \<and> is_admin (Some p) n) (map fst (Users p))"

definition DelUser :: "string \<Rightarrow> rbac_store \<Rightarrow> rbac_error option \<times> rbac_store" where
  "DelUser username s =
     (case active s of
        None \<Rightarrow> (None, s)
      | Some p \<Rightarrow>
          if map_of (Users p) username = None then (None, s)
          else if is_admin (Some p) username \<and> \<not> hasOtherAdmin p username then (Some LastAdmin, s)
          else (None, s\<lparr>active := Some (p\<lparr>Users := AList.delete username (Users p)\<rparr>)\<rparr>))"

definition DeleteRole :: "string \<Rightarrow> rbac_store \<Rightarrow> rbac_error option \<times> rbac_store" where
  "DeleteRole name s =
     (case active s of
        None \<Rightarrow> (Some RoleMissing, s)
      | Some p \<Rightarrow>
          (case map_of (Roles p) name of
             None \<Rightarrow> (Some RoleMissing, s)
           | Some r \<Rightarrow>
               (None, s\<lparr>active := Some (p\<lparr>
                  Default := (case Default p of Some d \<Rightarrow> if role_addr d = role_addr r then None else Some d | None \<Rightarrow> None),
                  Roles := AList.delete name (Roles p)\<rparr>)\<rparr>)))"

section \<open>The ACL LOG ring\<close>

definition DefaultAuthLogCap :: nat where "DefaultAuthLogCap = 100"

definition no_entry :: auth_entry where
  "no_entry = \<lparr>Timestamp = 0, entry_user = [], RemoteAddr = [], Reason = []\<rparr>"

definition appendLocked :: "auth_entry \<Rightarrow> rbac_store \<Rightarrow> rbac_store" where
  "appendLocked e s =
     (let buf = (if ring s = [] then replicate DefaultAuthLogCap no_entry else ring s) in
      s\<lparr>ring := buf[logHead s := e], logHead := (logHead s + 1) mod length buf,
        logLen := (if logLen s < length buf then logLen s + 1 else logLen s)\<rparr>)"

definition LogAuthFailure :: "int \<Rightarrow> string \<Rightarrow> string \<Rightarrow> string \<Rightarrow> rbac_store \<Rightarrow> rbac_store" where
  "LogAuthFailure now username remote reason s =
     appendLocked \<lparr>Timestamp = now, entry_user = username, RemoteAddr = remote, Reason = reason\<rparr>
       (s\<lparr>authFailures := authFailures s + 1\<rparr>)"

definition LogDenied :: "int \<Rightarrow> string \<Rightarrow> string \<Rightarrow> string \<Rightarrow> string \<Rightarrow> rbac_store \<Rightarrow> rbac_store" where
  "LogDenied now username remote cmd key s =
     appendLocked \<lparr>Timestamp = now, entry_user = username, RemoteAddr = remote,
                   Reason = ''NOPERM command='' @ cmd @ '' key='' @ key\<rparr> s"

definition SeedAuthLog :: "auth_entry list \<Rightarrow> rbac_store \<Rightarrow> rbac_store" where
  "SeedAuthLog entries s = foldl (\<lambda>s e. appendLocked e s) s entries"

definition AuthLog :: "rbac_store \<Rightarrow> auth_entry list" where
  "AuthLog s =
     (if logLen s = 0 then []
      else let start0 = int (logHead s) - int (logLen s);
               start = nat (if start0 < 0 then start0 + int (length (ring s)) else start0)
        in map (\<lambda>i. ring s ! ((start + i) mod length (ring s))) [0..<logLen s])"

section \<open>The ring is a bounded list\<close>

definition newest :: "nat \<Rightarrow> 'a list \<Rightarrow> 'a list" where
  "newest n xs = drop (length xs - n) xs"

lemma newest_short: "length xs \<le> n \<Longrightarrow> newest n xs = xs"
  by (simp add: newest_def)

lemma newest_snoc_newest: "0 < n \<Longrightarrow> newest n (newest n xs @ [x]) = newest n (xs @ [x])"
  by (cases "length xs < n") (auto simp: newest_def Suc_diff_le)

definition ring_ok :: "rbac_store \<Rightarrow> bool" where
  "ring_ok s \<longleftrightarrow>
     ring s = [] \<and> logHead s = 0 \<and> logLen s = 0 \<or>
     length (ring s) = DefaultAuthLogCap \<and>
       (logLen s < DefaultAuthLogCap \<and> logHead s = logLen s \<or> logLen s = DefaultAuthLogCap \<and> logHead s < DefaultAuthLogCap)"

lemma AuthLog_filling:
  assumes "length (ring s) = DefaultAuthLogCap" "logHead s = logLen s" "logLen s < DefaultAuthLogCap"
  shows "AuthLog s = take (logLen s) (ring s)"
  using assms by (auto simp: AuthLog_def intro!: nth_equalityI)

lemma AuthLog_full:
  assumes "length (ring s) = DefaultAuthLogCap" "logLen s = DefaultAuthLogCap" "logHead s < DefaultAuthLogCap"
  shows "AuthLog s = map (\<lambda>i. ring s ! ((logHead s + i) mod DefaultAuthLogCap)) [0..<DefaultAuthLogCap]"
proof -
  have "nat (if int (logHead s) - int (logLen s) < 0 then int (logHead s) - int (logLen s) + int (length (ring s))
      else int (logHead s) - int (logLen s)) = logHead s"
    using assms by auto
  with assms show ?thesis by (simp add: AuthLog_def Let_def DefaultAuthLogCap_def)
qed

lemma append_filling:
  assumes "length buf = DefaultAuthLogCap" "n < DefaultAuthLogCap"
    and "ring s' = buf[n := e]" "logHead s' = (n + 1) mod DefaultAuthLogCap" "logLen s' = n + 1"
  shows "ring_ok s' \<and> AuthLog s' = take n buf @ [e]"
proof (cases "n + 1 < DefaultAuthLogCap")
  case True
  with assms AuthLog_filling [of s'] show ?thesis
    by (auto simp: ring_ok_def take_Suc_conv_app_nth)
next
  case False
  then have n: "n + 1 = DefaultAuthLogCap" using assms(2) by simp
  then have ok: "ring_ok s'" using assms by (simp add: ring_ok_def DefaultAuthLogCap_def)
  have "AuthLog s' = map (\<lambda>i. buf[n := e] ! (i mod DefaultAuthLogCap)) [0..<DefaultAuthLogCap]"
    using AuthLog_full [of s'] assms n by simp
  also have "\<dots> = take (n + 1) (buf[n := e])"
    using assms(1) n by (auto intro!: nth_equalityI)
  finally show ?thesis using ok assms(1,2) by (simp add: take_Suc_conv_app_nth)
qed

lemma append_full:
  assumes "length (ring s) = DefaultAuthLogCap" "logLen s = DefaultAuthLogCap" "logHead s < DefaultAuthLogCap"
  shows "ring_ok (appendLocked e s) \<and> AuthLog (appendLocked e s) = tl (AuthLog s) @ [e]"
proof -
  let ?n = DefaultAuthLogCap and ?h = "logHead s" and ?s = "appendLocked e s"
  have pos: "0 < ?n" by (simp add: DefaultAuthLogCap_def)
  have ne: "ring s \<noteq> []" using assms(1) pos by auto
  then have s': "ring ?s = (ring s)[?h := e]" "logHead ?s = (?h + 1) mod ?n" "logLen ?s = ?n"
    using assms by (simp_all add: appendLocked_def Let_def)
  have idx: "((?h + 1) mod ?n + i) mod ?n = (?h + Suc i) mod ?n" for i by (simp add: mod_simps)
  have log': "AuthLog ?s = map (\<lambda>i. (ring s)[?h := e] ! ((?h + Suc i) mod ?n)) [0..<?n]"
    using AuthLog_full [of ?s] assms s' pos unfolding idx [symmetric] by simp
  have "AuthLog ?s = tl (AuthLog s) @ [e]"
  proof (rule nth_equalityI)
    show "length (AuthLog ?s) = length (tl (AuthLog s) @ [e])"
      using log' AuthLog_full [OF assms] pos by simp
  next
    fix i assume "i < length (AuthLog ?s)"
    then have i: "i < ?n" using log' by simp
    show "AuthLog ?s ! i = (tl (AuthLog s) @ [e]) ! i"
    proof (cases "Suc i = ?n")
      case True
      then have "(?h + Suc i) mod ?n = ?h" using assms(3) by simp
      then show ?thesis using True i assms(1,3) unfolding log' AuthLog_full [OF assms]
        by (simp add: nth_append del: add_Suc_right)
    next
      case False
      with i have "Suc i < ?n" by simp
      then have "(?h + Suc i) mod ?n \<noteq> ?h" using assms(3) by (auto simp: mod_if)
      then show ?thesis using False i \<open>Suc i < ?n\<close> unfolding log' AuthLog_full [OF assms]
        by (simp add: nth_append nth_tl del: add_Suc_right)
    qed
  qed
  with s' assms pos show ?thesis by (simp add: ring_ok_def)
qed

lemma append_log:
  assumes "ring_ok s"
  shows "ring_ok (appendLocked e s) \<and> AuthLog (appendLocked e s) = newest DefaultAuthLogCap (AuthLog s @ [e])"
proof -
  consider (empty) "ring s = []" "logHead s = 0" "logLen s = 0"
    | (filling) "length (ring s) = DefaultAuthLogCap" "logHead s = logLen s" "logLen s < DefaultAuthLogCap"
    | (full) "length (ring s) = DefaultAuthLogCap" "logLen s = DefaultAuthLogCap" "logHead s < DefaultAuthLogCap"
    using assms by (auto simp: ring_ok_def)
  then show ?thesis
  proof cases
    case empty
    have "ring_ok (appendLocked e s) \<and> AuthLog (appendLocked e s) = take 0 (replicate DefaultAuthLogCap no_entry) @ [e]"
      by (rule append_filling) (use empty in \<open>simp_all add: appendLocked_def DefaultAuthLogCap_def\<close>)
    then show ?thesis using empty by (simp add: AuthLog_def newest_short DefaultAuthLogCap_def)
  next
    case filling
    have "ring_ok (appendLocked e s) \<and> AuthLog (appendLocked e s) = take (logLen s) (ring s) @ [e]"
    proof (rule append_filling [OF filling(1,3)])
      have "ring s \<noteq> []" using filling(1) by (auto simp: DefaultAuthLogCap_def)
      then show "ring (appendLocked e s) = (ring s)[logLen s := e]"
        "logHead (appendLocked e s) = (logLen s + 1) mod DefaultAuthLogCap" "logLen (appendLocked e s) = logLen s + 1"
        using filling by (simp_all add: appendLocked_def Let_def)
    qed
    then show ?thesis using filling AuthLog_filling [OF filling] by (simp add: newest_short)
  next
    case full
    have "length (AuthLog s) = DefaultAuthLogCap" using AuthLog_full [OF full] by simp
    then have "newest DefaultAuthLogCap (AuthLog s @ [e]) = tl (AuthLog s) @ [e]"
      by (simp add: newest_def drop_Suc DefaultAuthLogCap_def)
    with append_full [OF full, of e] show ?thesis by simp
  qed
qed

section \<open>Runs of the store\<close>

datatype store_op =
    OpCreateRole string "string list" | OpSetUser string string bytes | OpDelUser string | OpDeleteRole string
  | OpReload bytes | OpAuthFailure int string string string | OpDenied int string string string string
  | OpSeed "auth_entry list" | OpCount session | OpIncDenied

fun store_exec :: "(bytes \<Rightarrow> file_config option) \<Rightarrow> (string \<Rightarrow> bool) \<Rightarrow> store_op \<Rightarrow> rbac_store \<Rightarrow> rbac_store" where
  "store_exec yaml cost_ok (OpCreateRole n rs) s = snd (CreateRole n rs s)"
| "store_exec yaml cost_ok (OpSetUser u r h) s = snd (SetUser u r h s)"
| "store_exec yaml cost_ok (OpDelUser u) s = snd (DelUser u s)"
| "store_exec yaml cost_ok (OpDeleteRole n) s = snd (DeleteRole n s)"
| "store_exec yaml cost_ok (OpReload data) s = reloadRBAC yaml cost_ok (Some data) s"
| "store_exec yaml cost_ok (OpAuthFailure t u a r) s = LogAuthFailure t u a r s"
| "store_exec yaml cost_ok (OpDenied t u a c k) s = LogDenied t u a c k s"
| "store_exec yaml cost_ok (OpSeed es) s = SeedAuthLog es s"
| "store_exec yaml cost_ok (OpCount sc) s = CountCommand sc s"
| "store_exec yaml cost_ok OpIncDenied s = IncDenied s"

text \<open>The events an operation records, in order.\<close>

fun op_events :: "store_op \<Rightarrow> auth_entry list" where
  "op_events (OpAuthFailure t u a r) = [\<lparr>Timestamp = t, entry_user = u, RemoteAddr = a, Reason = r\<rparr>]"
| "op_events (OpDenied t u a c k) =
     [\<lparr>Timestamp = t, entry_user = u, RemoteAddr = a, Reason = ''NOPERM command='' @ c @ '' key='' @ k\<rparr>]"
| "op_events (OpSeed es) = es"
| "op_events op = []"

definition same_log :: "rbac_store \<Rightarrow> rbac_store \<Rightarrow> bool" where
  "same_log s s' \<longleftrightarrow> ring s' = ring s \<and> logHead s' = logHead s \<and> logLen s' = logLen s"

lemma same_log_AuthLog: "same_log s s' \<Longrightarrow> ring_ok s' = ring_ok s \<and> AuthLog s' = AuthLog s"
  by (simp add: same_log_def ring_ok_def AuthLog_def Let_def)

lemma quiet_ops:
  "op_events op = [] \<Longrightarrow> same_log s (store_exec yaml cost_ok op s)"
  by (cases op)
    (auto simp: same_log_def CreateRole_def SetUser_def DelUser_def DeleteRole_def reloadRBAC_def Reload_def CountCommand_def
      IncDenied_def SeedAuthLog_def Let_def split: option.split sum.split)

lemma seed_log:
  "ring_ok s \<Longrightarrow> ring_ok (SeedAuthLog es s) \<and>
     AuthLog (SeedAuthLog es s) = (if es = [] then AuthLog s else newest DefaultAuthLogCap (AuthLog s @ es))"
proof (induction es rule: rev_induct)
  case (snoc e es)
  have step: "SeedAuthLog (es @ [e]) s = appendLocked e (SeedAuthLog es s)" by (simp add: SeedAuthLog_def)
  have pos: "0 < DefaultAuthLogCap" by (simp add: DefaultAuthLogCap_def)
  show ?case
    unfolding step using snoc append_log [of "SeedAuthLog es s" e]
      newest_snoc_newest [OF pos, of "AuthLog s @ es" e] by auto
qed (simp add: SeedAuthLog_def)

lemma op_log:
  assumes "ring_ok s"
  shows "ring_ok (store_exec yaml cost_ok op s) \<and>
     AuthLog (store_exec yaml cost_ok op s) =
       (if op_events op = [] then AuthLog s else newest DefaultAuthLogCap (AuthLog s @ op_events op))"
proof (cases op)
  case (OpAuthFailure t u a r)
  have "same_log s (s\<lparr>authFailures := authFailures s + 1\<rparr>)" by (simp add: same_log_def)
  from same_log_AuthLog [OF this] show ?thesis using OpAuthFailure assms append_log by (simp add: LogAuthFailure_def)
next
  case (OpSeed es)
  then show ?thesis using seed_log [OF assms, of es] by simp
qed (use assms append_log [OF assms] same_log_AuthLog [OF quiet_ops, of op] in \<open>auto simp: LogDenied_def\<close>)

lemma newest_idem_append: "newest n (newest n xs @ ys) = newest n (xs @ ys)"
  by (cases "length xs \<le> n") (auto simp: newest_def add.commute)


section \<open>Well-formed policies\<close>

definition policy_wf :: "nat \<Rightarrow> policy \<Rightarrow> bool" where
  "policy_wf a p \<longleftrightarrow>
     distinct (map fst (Roles p)) \<and> distinct (map fst (Users p)) \<and> distinct (map (\<lambda>x. role_addr (snd x)) (Roles p)) \<and>
     list_all (\<lambda>x. role_name (snd x) = fst x \<and> role_addr (snd x) < a) (Roles p) \<and>
     (\<forall>d. Default p = Some d \<longrightarrow> d \<in> snd ` set (Roles p))"

definition store_wf :: "rbac_store \<Rightarrow> bool" where
  "store_wf s \<longleftrightarrow> (\<forall>p. active s = Some p \<longrightarrow> policy_wf (next_addr s) p)"

lemma ParseRole_fields: "ParseRole a name rules = Inr r \<Longrightarrow> role_addr r = a \<and> role_name r = name"
  by (auto simp: ParseRole_def split: if_splits sum.splits prod.splits)

lemma update_fresh: "map_of al k = None \<Longrightarrow> AList.update k v al = al @ [(k, v)]"
  by (induction al) (auto split: if_splits)

lemma policy_wf_mono: "policy_wf a p \<Longrightarrow> a \<le> b \<Longrightarrow> policy_wf b p"
  by (auto simp: policy_wf_def list_all_iff)

lemma policy_wf_add_role:
  assumes "policy_wf a p" "map_of (Roles p) name = None" "ParseRole a name rules = Inr r"
  shows "policy_wf (a + 1) (p\<lparr>Roles := AList.update name r (Roles p)\<rparr>)"
proof -
  have "name \<notin> fst ` set (Roles p)" using assms(2) by (simp add: map_of_eq_None_iff)
  moreover have "role_addr r \<notin> (\<lambda>x. role_addr (snd x)) ` set (Roles p)"
    using assms(1) ParseRole_fields [OF assms(3)] by (auto simp: policy_wf_def list_all_iff)
  ultimately show ?thesis
    using assms(1) ParseRole_fields [OF assms(3)]
    by (auto simp: policy_wf_def update_fresh [OF assms(2)] list_all_iff)
qed

lemma build_roles_wf:
  "build_roles a rs p = Inr p' \<Longrightarrow> policy_wf a p \<Longrightarrow>
     policy_wf (a + length rs) p' \<and> length (Roles p') = length (Roles p) + length rs"
proof (induction rs arbitrary: a p)
  case (Cons x rs)
  obtain name rules where x: "x = (name, rules)" by fastforce
  obtain r where r: "map_of (Roles p) name = None" "ParseRole a name rules = Inr r"
    "build_roles (a + 1) rs (p\<lparr>Roles := AList.update name r (Roles p)\<rparr>) = Inr p'"
    using Cons.prems(1) x by (auto split: if_splits sum.splits)
  from Cons.IH [OF r(3) policy_wf_add_role [OF Cons.prems(2) r(1,2)]] show ?case
    by (simp add: update_fresh [OF r(1)])
qed auto

lemma policy_wf_users:
  "policy_wf a p \<Longrightarrow> distinct (map fst us) \<Longrightarrow> policy_wf a (p\<lparr>Users := us\<rparr>)"
  by (simp add: policy_wf_def)

lemma build_users_wf:
  "build_users cost_ok us p = Inr p' \<Longrightarrow> policy_wf a p \<Longrightarrow> policy_wf a p' \<and> Roles p' = Roles p"
proof (induction us arbitrary: p)
  case (Cons u us)
  obtain h where h: "build_users cost_ok us (p\<lparr>Users := AList.update (fu_name u) \<lparr>user_role = fu_role u, PasswordHash = h\<rparr> (Users p)\<rparr>) = Inr p'"
    using Cons.prems(1) by (auto split: if_splits sum.splits)
  have "policy_wf a (p\<lparr>Users := AList.update (fu_name u) \<lparr>user_role = fu_role u, PasswordHash = h\<rparr> (Users p)\<rparr>)"
    using Cons.prems(2) by (intro policy_wf_users distinct_update) (auto simp: policy_wf_def)
  from Cons.IH [OF h this] show ?case by simp
qed simp

lemma build_oauth_wf:
  "build_oauth rs p = Inr p' \<Longrightarrow> policy_wf a p \<Longrightarrow> policy_wf a p' \<and> Roles p' = Roles p"
proof (induction rs arbitrary: p)
  case (Cons x rs)
  obtain cl m name where x: "x = (cl, m, name)" using prod_cases3 by blast
  obtain orules where o: "build_oauth rs (p\<lparr>OAuthRules := orules\<rparr>) = Inr p'"
    using Cons.prems(1) x by (auto split: if_splits sum.splits option.splits)
  have "policy_wf a (p\<lparr>OAuthRules := orules\<rparr>)" using Cons.prems(2) by (simp add: policy_wf_def)
  from Cons.IH [OF o this] show ?case by simp
qed simp

lemma build_default_wf:
  "build_default name p = Inr p' \<Longrightarrow> policy_wf a p \<Longrightarrow> policy_wf a p' \<and> Roles p' = Roles p"
proof (cases "map_of (Roles p) name")
  case (Some r)
  then have "r \<in> snd ` set (Roles p)" using map_of_SomeD image_eqI [of r snd "(name, r)"] by force
  then have "policy_wf a p \<Longrightarrow> policy_wf a (p\<lparr>Default := Some r\<rparr>)" by (simp add: policy_wf_def)
  then show "build_default name p = Inr p' \<Longrightarrow> policy_wf a p \<Longrightarrow> policy_wf a p' \<and> Roles p' = Roles p"
    using Some by (auto simp: build_default_def split: if_splits)
qed (auto simp: build_default_def split: if_splits)

lemma policy_build_wf:
  assumes "policy_build cost_ok a fc = Inr p"
  shows "policy_wf (a + length (Roles p)) p"
proof -
  obtain p1 p2 p3 where b: "build_roles a (fc_roles fc) empty_policy = Inr p1" "build_users cost_ok (fc_users fc) p1 = Inr p2"
    "build_default (fc_default fc) p2 = Inr p3" "build_oauth (fc_oauth fc) p3 = Inr p"
    using assms by (auto simp: policy_build_def split: sum.splits)
  have e: "policy_wf a empty_policy" "length (Roles empty_policy) = 0" by (simp_all add: policy_wf_def empty_policy_def)
  let ?n = "a + length (fc_roles fc)"
  have 1: "policy_wf ?n p1" "length (Roles p1) = length (fc_roles fc)" using build_roles_wf [OF b(1) e(1)] e(2) by auto
  have 2: "policy_wf ?n p2" "Roles p2 = Roles p1" using build_users_wf [OF b(2) 1(1)] by auto
  have 3: "policy_wf ?n p3" "Roles p3 = Roles p2" using build_default_wf [OF b(3) 2(1)] by auto
  have "policy_wf ?n p" "Roles p = Roles p3" using build_oauth_wf [OF b(4) 3(1)] by auto
  with 1 2 3 show ?thesis by simp
qed

lemma base_policy_wf: "store_wf s \<Longrightarrow> policy_wf (next_addr s) (base_policy s)"
  by (auto simp: store_wf_def base_policy_def policy_wf_def empty_policy_def split: option.split)

lemma DeleteRole_wf:
  assumes "policy_wf a p" "map_of (Roles p) name = Some r"
  shows "policy_wf a (p\<lparr>Default := (case Default p of Some d \<Rightarrow> if role_addr d = role_addr r then None else Some d | None \<Rightarrow> None),
      Roles := AList.delete name (Roles p)\<rparr>)"
proof -
  let ?rs = "AList.delete name (Roles p)"
  have sub: "set ?rs \<subseteq> set (Roles p)" by (auto simp: AList.delete_eq)
  have "d \<in> snd ` set ?rs" if d: "Default p = Some d" "role_addr d \<noteq> role_addr r" for d
  proof -
    obtain n where n: "(n, d) \<in> set (Roles p)" using assms(1) d(1) by (auto simp: policy_wf_def)
    moreover have "map_of (Roles p) n = Some d" using map_of_is_SomeI [OF _ n] assms(1) by (simp add: policy_wf_def)
    then have "n \<noteq> name" using d(2) assms(2) by auto
    ultimately show ?thesis by (auto simp: AList.delete_eq intro: image_eqI [of _ _ "(n, d)"])
  qed
  moreover have "distinct (map (\<lambda>x. role_addr (snd x)) ?rs)" "distinct (map fst ?rs)"
    using assms(1) by (auto simp: policy_wf_def AList.delete_eq distinct_map inj_on_def)
  ultimately show ?thesis
    using assms(1) sub by (auto simp: policy_wf_def list_all_iff split: option.split)
qed

lemma store_exec_wf:
  assumes "store_wf s"
  shows "store_wf (store_exec yaml cost_ok op s)"
proof (cases op)
  case (OpCreateRole n rs)
  have "policy_wf (next_addr s + 1) ((base_policy s)\<lparr>Roles := AList.update n r (Roles (base_policy s))\<rparr>)"
    if "ParseRole (next_addr s) n rs = Inr r" "active s \<noteq> None \<longrightarrow> map_of (Roles (base_policy s)) n = None" for r
  proof -
    have "map_of (Roles (base_policy s)) n = None"
      using that(2) by (cases "active s") (auto simp: base_policy_def empty_policy_def)
    from policy_wf_add_role [OF base_policy_wf [OF assms] this that(1)] show ?thesis .
  qed
  with assms OpCreateRole show ?thesis by (auto simp: CreateRole_def store_wf_def split: sum.split)
next
  case (OpSetUser u r h)
  have "distinct (map fst (AList.update u x (Users (base_policy s))))" for x
    using base_policy_wf [OF assms] by (intro distinct_update) (simp add: policy_wf_def)
  with policy_wf_users [OF base_policy_wf [OF assms]] assms OpSetUser show ?thesis
    by (auto simp: SetUser_def store_wf_def Let_def)
next
  case (OpDelUser u)
  have "policy_wf a (p\<lparr>Users := AList.delete u (Users p)\<rparr>)" if "policy_wf a p" for a p
    using that by (intro policy_wf_users) (simp_all add: policy_wf_def distinct_delete)
  with assms OpDelUser show ?thesis by (auto simp: DelUser_def store_wf_def split: option.split)
next
  case (OpDeleteRole n)
  with assms DeleteRole_wf show ?thesis by (auto simp: DeleteRole_def store_wf_def split: option.split)
next
  case (OpReload data)
  with assms policy_build_wf show ?thesis
    by (auto simp: reloadRBAC_def Reload_def policy_Parse_def store_wf_def split: option.split sum.split)
next
  case (OpSeed es)
  have "store_wf (SeedAuthLog es s)"
    using assms
  proof (induction es rule: rev_induct)
    case (snoc e es)
    then show ?case by (auto simp: SeedAuthLog_def store_wf_def appendLocked_def Let_def)
  qed (simp add: SeedAuthLog_def)
  with OpSeed show ?thesis by simp
qed (use assms in \<open>auto simp: store_wf_def LogAuthFailure_def LogDenied_def appendLocked_def CountCommand_def IncDenied_def Let_def
    split: option.split\<close>)

definition store_init :: "(string \<Rightarrow> bool) \<Rightarrow> rbac_store \<Rightarrow> bool" where
  "store_init cost_ok s \<longleftrightarrow> (\<exists>fc p. policy_build cost_ok 0 fc = Inr p \<and> s = NewStore (Some p) (length (Roles p)))"

definition store_step :: "(bytes \<Rightarrow> file_config option) \<Rightarrow> (string \<Rightarrow> bool) \<Rightarrow> rbac_store \<Rightarrow> rbac_store \<Rightarrow> bool" where
  "store_step yaml cost_ok s s' \<longleftrightarrow> (\<exists>op. s' = store_exec yaml cost_ok op s)"

interpretation rsys: step_system "store_init cost_ok" "store_step yaml cost_ok" store_wf for yaml cost_ok
proof
  fix s assume "store_init cost_ok s"
  then obtain fc p where "policy_build cost_ok 0 fc = Inr p" "s = NewStore (Some p) (length (Roles p))"
    by (auto simp: store_init_def)
  with policy_build_wf [of cost_ok 0 fc p] show "store_wf s" by (simp add: store_wf_def NewStore_def)
next
  fix s s' assume "store_wf s" "store_step yaml cost_ok s s'"
  then show "store_wf s'" using store_exec_wf by (auto simp: store_step_def)
qed


definition sample_config :: file_config where
  "sample_config =
     \<lparr>fc_roles = [(''admin'', [''+@all'']), (''reader'', [''+@read''])],
      fc_users = [\<lparr>fu_name = ''root'', fu_password = [], fu_role = ''admin'', fu_nopass = True\<rparr>],
      fc_default = ''reader'', fc_oauth = [(''groups'', ''admins'', ''admin'')]\<rparr>"

definition sample_store :: rbac_store where
  "sample_store =
     (case policy_build (\<lambda>h. True) 0 sample_config of
        Inr p \<Rightarrow> NewStore (Some p) (length (Roles p))
      | Inl err \<Rightarrow> NewStore None 0)"

lemma sample_builds: "\<exists>p. policy_build (\<lambda>h. True) 0 sample_config = Inr p"
proof -
  have "case policy_build (\<lambda>h. True) 0 sample_config of Inr p \<Rightarrow> True | Inl err \<Rightarrow> False" by code_simp
  then show ?thesis by (simp split: sum.splits)
qed

lemma sample_reach: "reach (store_init (\<lambda>h. True)) (store_step yaml (\<lambda>h. True)) sample_store"
proof (rule reach_init)
  obtain p where "policy_build (\<lambda>h. True) 0 sample_config = Inr p" using sample_builds by blast
  then show "store_init (\<lambda>h. True) sample_store"
    unfolding store_init_def by (intro exI [of _ sample_config] exI [of _ p]) (simp add: sample_store_def)
qed

lemma sample_active: "\<exists>p. active sample_store = Some p"
  using sample_builds by (auto simp: sample_store_def NewStore_def)


section \<open>Administrators\<close>

definition has_admin :: "rbac_store \<Rightarrow> bool" where
  "has_admin s \<longleftrightarrow> list_ex (is_admin (active s)) (map fst (Users (base_policy s)))"

text \<open>
  C25. Deleting users never removes the last administrator: while some user's effective role
  grants ACL management, the same holds after every \<^verbatim>\<open>DelUser\<close>, whether it succeeds or
  is refused.
\<close>

theorem DelUser_keeps_admin:
  assumes "has_admin s" "DelUser username s = (err, s')"
  shows "has_admin s'"
proof (cases "s' = s")
  case False
  then obtain p where p: "active s = Some p" "\<not> (is_admin (Some p) username \<and> \<not> hasOtherAdmin p username)"
    and s': "s' = s\<lparr>active := Some (p\<lparr>Users := AList.delete username (Users p)\<rparr>)\<rparr>"
    using assms(2) by (auto simp: DelUser_def split: option.splits if_splits)
  let ?p = "p\<lparr>Users := AList.delete username (Users p)\<rparr>"
  obtain n where n: "n \<in> set (map fst (Users p))" "n \<noteq> username" "is_admin (Some p) n"
    using assms(1) p by (auto simp: has_admin_def base_policy_def hasOtherAdmin_def list_ex_iff)
  then have "RoleFor (Some ?p) n = RoleFor (Some p) n" by (simp add: RoleFor_def delete_conv cong: option.case_cong)
  moreover have "n \<in> set (map fst (Users ?p))" using n by (auto simp: AList.delete_eq)
  ultimately have "is_admin (Some ?p) n" "n \<in> set (map fst (Users ?p))" using n(3) by (simp_all add: is_admin_def)
  then show ?thesis unfolding has_admin_def s' base_policy_def list_ex_iff by auto
qed (use assms in simp)

theorem DelUser_keeps_admin_witness:
  "\<exists>err s'. DelUser ''root'' sample_store = (err, s') \<and> err = Some LastAdmin \<and> has_admin s'"
proof -
  have "fst (DelUser ''root'' sample_store) = Some LastAdmin" "has_admin sample_store" by code_simp+
  then show ?thesis
    using DelUser_keeps_admin [of sample_store "''root''"] by (metis fst_conv surj_pair)
qed

text \<open>
  The guard does not extend to roles: \<^verbatim>\<open>DeleteRole\<close> removes the only role that
  grants ACL management without objection, and no user can administer the store any more.
\<close>

theorem DeleteRole_can_lock_out:
  assumes "active s = Some p" "DeleteRole name s = (None, s')" "store_wf s"
    and "\<And>n r. (n, r) \<in> set (Roles p) \<Longrightarrow> bs_Has cmd_ACL (Permissions r) \<Longrightarrow> n = name"
  shows "\<not> has_admin s'"
proof -
  obtain r where r: "map_of (Roles p) name = Some r" and
    s': "active s' = Some (p\<lparr>Default := (case Default p of Some d \<Rightarrow> if role_addr d = role_addr r then None else Some d | None \<Rightarrow> None),
      Roles := AList.delete name (Roles p)\<rparr>)"
    using assms(1,2) by (auto simp: DeleteRole_def split: option.splits)
  let ?p = "p\<lparr>Default := (case Default p of Some d \<Rightarrow> if role_addr d = role_addr r then None else Some d | None \<Rightarrow> None),
      Roles := AList.delete name (Roles p)\<rparr>"
  have wf: "policy_wf (next_addr s) ?p"
    using DeleteRole_wf [OF _ r] assms(1,3) by (simp add: store_wf_def)
  have none: "\<not> bs_Has cmd_ACL (Permissions x)" if "(n, x) \<in> set (Roles ?p)" for n x
    using assms(4) [of n x] that by (auto simp: AList.delete_eq)
  have "\<not> bs_Has cmd_ACL (Permissions x)" if rf: "RoleFor (Some ?p) u = Some x" for u x
  proof (cases "Default ?p = Some x")
    case True
    then have "x \<in> snd ` set (Roles ?p)" using wf by (simp add: policy_wf_def)
    then show ?thesis using none by auto
  next
    case False
    then obtain n where "map_of (Roles ?p) n = Some x" using rf by (auto simp: RoleFor_def split: option.splits)
    then show ?thesis using none map_of_SomeD by fast
  qed
  then show ?thesis unfolding has_admin_def s' is_admin_def list_ex_iff by (auto split: option.split)
qed

theorem DeleteRole_can_lock_out_witness:
  "\<exists>s'. has_admin sample_store \<and> DeleteRole ''admin'' sample_store = (None, s') \<and> \<not> has_admin s'"
proof -
  obtain p where p: "active sample_store = Some p" using sample_active by blast
  have "list_all (\<lambda>x. bs_Has cmd_ACL (Permissions (snd x)) \<longrightarrow> fst x = ''admin'') (Roles (base_policy sample_store))"
    by code_simp
  then have only: "n = ''admin''" if "(n, r) \<in> set (Roles p)" "bs_Has cmd_ACL (Permissions r)" for n r
    using that p by (auto simp: base_policy_def list_all_iff)
  have "fst (DeleteRole ''admin'' sample_store) = None" "has_admin sample_store" by code_simp+
  moreover have "store_wf sample_store" using rsys.reach_inv [OF sample_reach [of "\<lambda>b. None"]] .
  ultimately show ?thesis
    using DeleteRole_can_lock_out [OF p, of "''admin''"] only by (metis fst_conv surj_pair)
qed

section \<open>Claims\<close>

text \<open>
  A deleted role lives on in the claim rules: \<^verbatim>\<open>DeleteRole\<close> resets the default
  fallback but not the rules for tokens, so a token keeps resolving to the role after it was
  deleted from the policy.
\<close>

theorem claims_outlive_role:
  assumes "DeleteRole name s = (None, s')" "RoleForClaims (active s) cs = Some r" "role_name r = name"
  shows "RoleForClaims (active s') cs = Some r \<and> map_of (Roles (base_policy s')) (role_name r) = None"
  using assms by (auto simp: DeleteRole_def RoleForClaims_def base_policy_def delete_conv split: option.splits)

theorem claims_outlive_role_witness:
  "\<exists>s' r. DeleteRole ''admin'' sample_store = (None, s') \<and> bs_Has cmd_ACL (Permissions r) \<and>
     RoleForClaims (active s') [(''groups'', [''admins''])] = Some r \<and> map_of (Roles (base_policy s')) (role_name r) = None"
proof -
  let ?c = "[(''groups'', [''admins''])]"
  have "case RoleForClaims (active sample_store) ?c of Some r \<Rightarrow> role_name r = ''admin'' \<and> bs_Has cmd_ACL (Permissions r) | None \<Rightarrow> False"
    "fst (DeleteRole ''admin'' sample_store) = None" by code_simp+
  then obtain r s' where "RoleForClaims (active sample_store) ?c = Some r" "role_name r = ''admin''" "bs_Has cmd_ACL (Permissions r)"
    "DeleteRole ''admin'' sample_store = (None, s')"
    by (auto simp: prod_eq_iff split: option.splits)
  with claims_outlive_role show ?thesis by blast
qed

text \<open>A pattern with one star, as a specification: the star stands for any string.\<close>

definition glob :: "string \<Rightarrow> string \<Rightarrow> bool" where
  "glob m v \<longleftrightarrow>
     (if CHR ''*'' \<in> set m then (\<exists>a b w. m = a @ CHR ''*'' # b \<and> v = a @ w @ b) else v = m)"

lemma HasPrefix_iff: "HasPrefix v p \<longleftrightarrow> (\<exists>w. v = p @ w)"
  unfolding HasPrefix_def by (metis append_eq_conv_conj append_take_drop_id)

lemma HasSuffix_iff: "HasSuffix v p \<longleftrightarrow> (\<exists>w. v = w @ p)"
proof
  assume "HasSuffix v p"
  then have "v = take (length v - length p) v @ p" unfolding HasSuffix_def by (metis append_take_drop_id)
  then show "\<exists>w. v = w @ p" by blast
qed (auto simp: HasSuffix_def)

lemma glob_unique:
  assumes "m = a @ CHR ''*'' # b" "CHR ''*'' \<notin> set a" "CHR ''*'' \<notin> set b"
  shows "glob m v \<longleftrightarrow> (\<exists>w. v = a @ w @ b)"
proof -
  have "a' = a \<and> b' = b" if "m = a' @ CHR ''*'' # b'" for a' b'
    using that assms by (auto simp: append_eq_append_conv2 append_eq_Cons_conv Cons_eq_append_conv)
  with assms(1) show ?thesis by (auto simp: glob_def)
qed

text \<open>
  A claim rule matches as its pattern says: for a pattern with at most one star that the
  policy loader accepts, the compiled rule matches a claim exactly when one of its values fits the
  pattern with any string in place of the star.
\<close>

theorem claim_pattern_meaning:
  assumes "parseMatch m = Inr (e, p, s)" "m \<noteq> []" "count_list m (CHR ''*'') \<le> 1"
    and "match_exact r = e" "match_prefix r = p" "match_suffix r = s"
  shows "matches r vs \<longleftrightarrow> (\<exists>v. v \<in> set vs \<and> glob m v)"
proof -
  have one: "(match_exact r \<noteq> [] \<and> v = match_exact r \<or> match_prefix r \<noteq> [] \<and> HasPrefix v (match_prefix r) \<or>
      match_suffix r \<noteq> [] \<and> HasSuffix v (match_suffix r) \<or> match_exact r = [] \<and> match_prefix r = [] \<and> match_suffix r = []) =
    glob m v" for v
  proof (cases "count_list m (CHR ''*'') = 0")
    case True
    then have "CHR ''*'' \<notin> set m" by (simp add: count_list_0_iff)
    with True assms(1,2,4-6) show ?thesis by (auto simp: parseMatch_def glob_def)
  next
    case star: False
    show ?thesis
    proof (cases "HasPrefix m ''*''")
      case True
      then obtain b where b: "m = [] @ CHR ''*'' # b" by (auto simp: HasPrefix_iff)
      then have "CHR ''*'' \<notin> set b" using assms(3) count_list_0_iff [of b "CHR ''*''"] by simp
      from glob_unique [OF b _ this] show ?thesis
        using assms(1,4-6) star True b by (auto simp: parseMatch_def HasSuffix_iff)
    next
      case False
      with assms(1) star have suf: "HasSuffix m ''*''" and eps: "e = []" "s = []" "p = TrimSuffix m ''*''"
        by (auto simp: parseMatch_def split: if_splits)
      obtain a where a: "m = a @ CHR ''*'' # []" using suf by (auto simp: HasSuffix_iff)
      then have "CHR ''*'' \<notin> set a" using assms(3) count_list_0_iff [of a "CHR ''*''"] by simp
      moreover have "p = a" using a eps(3) by (simp add: TrimSuffix_def)
      moreover have "a \<noteq> []" using False a by (auto simp: HasPrefix_def)
      ultimately show ?thesis using glob_unique [OF a] eps assms(4-6) by (auto simp: HasPrefix_iff)
    qed
  qed
  show ?thesis unfolding matches_def one list_ex_iff by blast
qed

definition email_rule :: oauth_rule where
  "email_rule = \<lparr>claim = ''email'', match_exact = [], match_prefix = [], match_suffix = ''@example.com'',
     rule_role = \<lparr>role_addr = 0, role_name = ''staff'', Permissions = [], Namespaces = []\<rparr>\<rparr>"

theorem claim_pattern_meaning_witness:
  "parseMatch ''*@example.com'' = Inr ([], [], ''@example.com'') \<and> matches email_rule [''me@example.com''] \<and>
     (\<exists>v. v \<in> set [''me@example.com''] \<and> glob ''*@example.com'' v)"
proof -
  have "parseMatch ''*@example.com'' = Inr ([], [], ''@example.com'')" "count_list ''*@example.com'' (CHR ''*'') \<le> 1"
    "matches email_rule [''me@example.com'']"
    by code_simp+
  then show ?thesis
    using claim_pattern_meaning [of "''*@example.com''" "[]" "[]" "''@example.com''" email_rule] by (auto simp: email_rule_def)
qed

end
