(* ===== verification/Audit_Log.thy ===== *)
theory Audit_Log
  imports Tellstone_Prelude
begin

text \<open>
  The audit engine of \<^verbatim>\<open>src/internal/audit\<close> (\<^verbatim>\<open>audit.go\<close>,
  \<^verbatim>\<open>engine.go\<close>): which events pass the filter and what a failing sink does to later
  records. A record is the event, its message and its fields; the JSON encoder and the sink behind
  it are one function that says which write succeeds.
\<close>

datatype event_type = EventConnect | EventDisconnect | EventAuthSuccess | EventAuthFailure | EventACLDeny | EventCommand

record audit_entry =
  entry_event :: event_type
  entry_msg :: string
  entry_fields :: "(string \<times> string) list"

record log_engine =
  audit_enabled :: bool
  audit_filter :: "event_type list"
  sink_ok :: "nat \<Rightarrow> bool"
  attempts :: nat
  written :: "audit_entry list"
  firstErr :: bool

definition Record :: "event_type \<Rightarrow> string \<Rightarrow> (string \<times> string) list \<Rightarrow> log_engine \<Rightarrow> log_engine" where
  "Record ev msg fs e =
     (if \<not> audit_enabled e \<or> ev \<notin> set (audit_filter e) then e
      else if firstErr e then e
      else if sink_ok e (attempts e)
      then e\<lparr>attempts := attempts e + 1,
             written := written e @ [\<lparr>entry_event = ev, entry_msg = msg, entry_fields = fs\<rparr>]\<rparr>
      else e\<lparr>attempts := attempts e + 1, firstErr := True\<rparr>)"

lemma Record_frame [simp]:
  "audit_enabled (Record ev msg fs e) = audit_enabled e" "audit_filter (Record ev msg fs e) = audit_filter e"
  "sink_ok (Record ev msg fs e) = sink_ok e"
  by (simp_all add: Record_def)

end
