(* ===== verification/Command_Layer.thy ===== *)
theory Command_Layer
  imports Storage_Engine Rbac_Policy Audit_Log
begin

text \<open>
  The command layer of \<^verbatim>\<open>src/internal/command\<close>: the catalog and the gate
  (\<^verbatim>\<open>command.go\<close>) and the handlers (\<^verbatim>\<open>handlers.go\<close>). Handlers reach the
  storage only through the store contract of \<open>Store_Interface\<close>, whose operations are their
  first arguments; the i-th store call of a request sees the i-th environment.
\<close>

section \<open>Replies and commands\<close>

datatype 'err reply =
    RepOK | RepBulk bytes | RepNull | RepInt int | RepDenied string | RepErrorMsg string | RepStorageErr 'err

record ctx =
  Args :: "bytes list"
  ctx_TTL :: duration
  Session :: "session option"
  Remote :: string
  Protocol :: string

record 's cstate =
  kv :: 's
  pol :: "rbac_store option"
  aud :: "log_engine option"

datatype handler = HGet | HSet | HDel

record command =
  cmd_name :: string
  RbacID :: uint16
  Arity :: nat
  Handler :: handler

definition commands :: "command list" where
  "commands =
     [\<lparr>cmd_name = ''GET'', RbacID = cmd_Get, Arity = 2, Handler = HGet\<rparr>,
      \<lparr>cmd_name = ''SET'', RbacID = cmd_Set, Arity = 3, Handler = HSet\<rparr>,
      \<lparr>cmd_name = ''DEL'', RbacID = cmd_Del, Arity = 2, Handler = HDel\<rparr>]"

definition fold_byte :: "char \<Rightarrow> 8 word" where
  "fold_byte c = or (of_char c) 0x20"

definition equalFoldASCII :: "bytes \<Rightarrow> string \<Rightarrow> bool" where
  "equalFoldASCII a b = (length a = length b \<and> map fold_byte a = map fold_byte b)"

definition cmd_Lookup :: "bytes \<Rightarrow> command option" where
  "cmd_Lookup name = find (\<lambda>c. equalFoldASCII name (cmd_name c)) commands"

definition cmd_Keys :: "command \<Rightarrow> bytes list \<Rightarrow> bytes list" where
  "cmd_Keys cmd as = (case Handler cmd of HDel \<Rightarrow> drop 1 as | _ \<Rightarrow> take 1 (drop 1 as))"

section \<open>Handlers\<close>

definition wrong_args :: "string \<Rightarrow> string" where
  "wrong_args name = ''ERR wrong number of arguments for '' @ [CHR 0x27] @ name @ [CHR 0x27] @ '' command''"

definition get_handler :: "('env \<Rightarrow> string \<Rightarrow> 's \<Rightarrow> (bytes option \<times> 's) go) \<Rightarrow> 'env \<Rightarrow> bytes list \<Rightarrow> 's \<Rightarrow> ('err reply \<times> 's) go" where
  "get_handler sget v as s =
     (if length as \<noteq> 2 then Returns (RepErrorMsg (wrong_args ''get''), s)
      else go_bind (sget v (as ! 1) s) (\<lambda>(r, s'). Returns (case r of None \<Rightarrow> RepNull | Some x \<Rightarrow> RepBulk x, s')))"

definition parseSetTTL :: "bytes list \<Rightarrow> duration option" where
  "parseSetTTL as =
     (if length as = 3 then Some 0
      else (case Atoi (as ! 4) of
              None \<Rightarrow> None
            | Some v \<Rightarrow>
                if v \<le> 0 then None
                else if equalFoldASCII (as ! 3) ''EX'' then Some (int64 (v * second))
                else if equalFoldASCII (as ! 3) ''PX'' then Some (int64 (v * millisecond))
                else None))"

definition set_handler :: "('env \<Rightarrow> string \<Rightarrow> bytes \<Rightarrow> duration \<Rightarrow> 's \<Rightarrow> ('err option \<times> 's) go) \<Rightarrow> 'env \<Rightarrow> duration \<Rightarrow>
    bytes list \<Rightarrow> 's \<Rightarrow> ('err reply \<times> 's) go" where
  "set_handler sset v ttl_hint as s =
     (if length as \<noteq> 3 \<and> length as \<noteq> 5
      then Returns (RepErrorMsg (wrong_args ''set''), s)
      else case parseSetTTL as of
        None \<Rightarrow> Returns (RepErrorMsg ''ERR syntax error'', s)
      | Some ttl \<Rightarrow>
          go_bind (sset v (as ! 1) (as ! 2) (if ttl = 0 then ttl_hint else ttl) s) (\<lambda>(r, s').
            Returns (case r of None \<Rightarrow> RepOK | Some err \<Rightarrow> RepStorageErr err, s')))"

fun del_keys :: "('env \<Rightarrow> string \<Rightarrow> 's \<Rightarrow> (bool \<times> 's) go) \<Rightarrow> (nat \<Rightarrow> 'env) \<Rightarrow> bytes list \<Rightarrow> int \<Rightarrow> 's \<Rightarrow> (int \<times> 's) go" where
  "del_keys sdel vs [] n s = Returns (n, s)"
| "del_keys sdel vs (k # ks) n s =
     go_bind (sdel (vs 0) k s) (\<lambda>(b, s'). del_keys sdel (\<lambda>i. vs (Suc i)) ks (if b then n + 1 else n) s')"

definition del_handler :: "('env \<Rightarrow> string \<Rightarrow> 's \<Rightarrow> (bool \<times> 's) go) \<Rightarrow> (nat \<Rightarrow> 'env) \<Rightarrow> bytes list \<Rightarrow> 's \<Rightarrow> ('err reply \<times> 's) go" where
  "del_handler sdel vs as s =
     (if length as < 2 then Returns (RepErrorMsg (wrong_args ''del''), s)
      else go_bind (del_keys sdel vs (drop 1 as) 0 s) (\<lambda>(n, s'). Returns (RepInt n, s')))"

section \<open>The gate\<close>

definition denyKey :: "ctx \<Rightarrow> command \<Rightarrow> bytes option" where
  "denyKey c cmd =
     (case Session c of
        None \<Rightarrow> (case cmd_Keys cmd (Args c) of [] \<Rightarrow> None | k # ks \<Rightarrow> Some k)
      | Some sc \<Rightarrow> find (\<lambda>k. \<not> IsAllowed sc (RbacID cmd) k) (cmd_Keys cmd (Args c)))"

definition deny :: "int \<Rightarrow> ctx \<Rightarrow> command \<Rightarrow> bytes \<Rightarrow> rbac_store \<Rightarrow> 's cstate \<Rightarrow> 'err reply \<times> 's cstate" where
  "deny now c cmd key p st =
     (let usr = (case Session c of Some sc \<Rightarrow> Username sc | None \<Rightarrow> []); name = ToLower (cmd_name cmd) in
      (RepDenied name,
       st\<lparr>pol := Some (LogDenied now usr (Remote c) name key (IncDenied p)),
          aud := map_option (Record EventACLDeny ''command denied by rbac policy''
            [(''user'', usr), (''command'', name), (''key'', key), (''remote_addr'', Remote c), (''protocol'', Protocol c)]) (aud st)\<rparr>))"

definition auditCommand :: "ctx \<Rightarrow> command \<Rightarrow> log_engine option \<Rightarrow> log_engine option" where
  "auditCommand c cmd a =
     map_option (Record EventCommand ''command dispatched''
       [(''command'', ToLower (cmd_name cmd)), (''key'', if length (Args c) \<ge> 2 then Args c ! 1 else []),
        (''user'', case Session c of Some sc \<Rightarrow> Username sc | None \<Rightarrow> ''default''), (''remote_addr'', Remote c),
        (''protocol'', Protocol c)]) a"

definition run_handler :: "('env \<Rightarrow> string \<Rightarrow> 's \<Rightarrow> (bytes option \<times> 's) go) \<Rightarrow>
    ('env \<Rightarrow> string \<Rightarrow> bytes \<Rightarrow> duration \<Rightarrow> 's \<Rightarrow> ('err option \<times> 's) go) \<Rightarrow> ('env \<Rightarrow> string \<Rightarrow> 's \<Rightarrow> (bool \<times> 's) go) \<Rightarrow>
    (nat \<Rightarrow> 'env) \<Rightarrow> handler \<Rightarrow> ctx \<Rightarrow> 's \<Rightarrow> ('err reply \<times> 's) go" where
  "run_handler sget sset sdel vs h c s =
     (case h of
        HGet \<Rightarrow> get_handler sget (vs 0) (Args c) s
      | HSet \<Rightarrow> set_handler sset (vs 0) (ctx_TTL c) (Args c) s
      | HDel \<Rightarrow> del_handler sdel vs (Args c) s)"

definition cmd_Execute :: "('env \<Rightarrow> string \<Rightarrow> 's \<Rightarrow> (bytes option \<times> 's) go) \<Rightarrow>
    ('env \<Rightarrow> string \<Rightarrow> bytes \<Rightarrow> duration \<Rightarrow> 's \<Rightarrow> ('err option \<times> 's) go) \<Rightarrow> ('env \<Rightarrow> string \<Rightarrow> 's \<Rightarrow> (bool \<times> 's) go) \<Rightarrow>
    (nat \<Rightarrow> 'env) \<Rightarrow> int \<Rightarrow> ctx \<Rightarrow> 's cstate \<Rightarrow> ('err reply option \<times> 's cstate) go" where
  "cmd_Execute sget sset sdel vs now c st =
     (case Args c of
        [] \<Rightarrow> Returns (None, st)
      | name # rest \<Rightarrow>
          (case cmd_Lookup name of
             None \<Rightarrow> Returns (None, st)
           | Some cmd \<Rightarrow>
               if length (Args c) < Arity cmd
               then Returns (Some (RepErrorMsg (wrong_args (ToLower (cmd_name cmd)))), st)
               else (case (case pol st of None \<Rightarrow> None | Some p \<Rightarrow> map_option (\<lambda>k. (p, k)) (denyKey c cmd)) of
                       Some (p, key) \<Rightarrow> (case deny now c cmd key p st of (r, st') \<Rightarrow> Returns (Some r, st'))
                     | None \<Rightarrow>
                         (let p1 = (case (pol st, Session c) of
                                      (Some p, Some sc) \<Rightarrow> Some (CountCommand sc p)
                                    | (p, _) \<Rightarrow> p)
                          in go_bind (run_handler sget sset sdel vs (Handler cmd) c (kv st)) (\<lambda>(r, s').
                               Returns (Some r, st\<lparr>kv := s', pol := p1, aud := auditCommand c cmd (aud st)\<rparr>))))))"

section \<open>Handlers over a store\<close>

text \<open>What the handlers make of a store that meets the contract.\<close>

locale handler_store = kv_store sget sset sdel clock env_ok ok view
  for sget :: "'env \<Rightarrow> string \<Rightarrow> 's \<Rightarrow> (bytes option \<times> 's) go"
    and sset :: "'env \<Rightarrow> string \<Rightarrow> bytes \<Rightarrow> duration \<Rightarrow> 's \<Rightarrow> ('err option \<times> 's) go"
    and sdel and clock and env_ok and ok and view
begin

lemma get_handler_reply:
  assumes "ok s" "env_ok v"
  shows "\<exists>s'. get_handler sget v [c, k] s =
      Returns (case view s (clock v) k of None \<Rightarrow> RepNull | Some x \<Rightarrow> RepBulk x, s') \<and> ok s' \<and>
      (\<forall>t\<ge>clock v. view s' t = view s t)"
  using get_law [OF assms, of k] by (auto simp: get_handler_def)

lemma set_handler_reply:
  assumes "ok s" "env_ok v" "length as = 3 \<or> length as = 5" "parseSetTTL as = Some ttl"
  shows "\<exists>r s'. set_handler sset v hint as s = Returns (case r of None \<Rightarrow> RepOK | Some err \<Rightarrow> RepStorageErr err, s') \<and> ok s' \<and>
      (\<forall>t\<ge>clock v. view s' t =
         (if r = None then (view s t)(as ! 1 :=
             if past t (deadline (clock v) (if ttl = 0 then hint else ttl)) then None else Some (as ! 2)) else view s t))"
proof -
  obtain r s' where "sset v (as ! 1) (as ! 2) (if ttl = 0 then hint else ttl) s = Returns (r, s')" "ok s'"
    "\<forall>t\<ge>clock v. view s' t = (if r = None then (view s t)(as ! 1 :=
       if past t (deadline (clock v) (if ttl = 0 then hint else ttl)) then None else Some (as ! 2)) else view s t)"
    using set_law [OF assms(1,2)] by blast
  moreover have "\<not> (length as \<noteq> 3 \<and> length as \<noteq> 5)" using assms(3) by blast
  ultimately show ?thesis using assms(4) by (intro exI [of _ r] exI [of _ s']) (simp only: set_handler_def if_False option.case go_bind_simps prod.case simp_thms)
qed

lemma del_keys_count:
  assumes "ok s" "\<forall>i. env_ok (vs i) \<and> clock (vs i) = t"
  shows "\<exists>s'. del_keys sdel vs ks n s = Returns (n + int (card {k \<in> set ks. view s t k \<noteq> None}), s') \<and> ok s' \<and>
      (\<forall>u\<ge>t. view s' u = (\<lambda>k. if k \<in> set ks then None else view s u k))"
  using assms
proof (induction ks arbitrary: s n vs)
  case (Cons k ks)
  have v: "env_ok (vs 0)" "clock (vs 0) = t" using Cons.prems(2) by auto
  obtain s1 where s1: "sdel (vs 0) k s = Returns (view s t k \<noteq> None, s1)" "ok s1" "\<forall>u\<ge>t. view s1 u = (view s u)(k := None)"
    using del_law [OF Cons.prems(1) v(1), of k] v(2) by auto
  let ?n = "if view s t k \<noteq> None then n + 1 else n"
  obtain s2 where s2: "del_keys sdel (\<lambda>i. vs (Suc i)) ks ?n s1 = Returns (?n + int (card {j \<in> set ks. view s1 t j \<noteq> None}), s2)"
    "ok s2" "\<forall>u\<ge>t. view s2 u = (\<lambda>j. if j \<in> set ks then None else view s1 u j)"
    using Cons.IH [OF s1(2), of "\<lambda>i. vs (Suc i)" ?n] Cons.prems(2) by auto
  have old: "{j \<in> set ks. view s1 t j \<noteq> None} = {j \<in> set (k # ks). view s t j \<noteq> None} - {k}"
    using s1(3) by auto
  have "int (card {j \<in> set (k # ks). view s t j \<noteq> None}) =
      (if view s t k \<noteq> None then 1 else 0) + int (card {j \<in> set ks. view s1 t j \<noteq> None})"
  proof (cases "view s t k = None")
    case True
    then have "{j \<in> set (k # ks). view s t j \<noteq> None} - {k} = {j \<in> set (k # ks). view s t j \<noteq> None}" by auto
    with True old show ?thesis by simp
  next
    case False
    then have "card {j \<in> set (k # ks). view s t j \<noteq> None} = Suc (card ({j \<in> set (k # ks). view s t j \<noteq> None} - {k}))"
      by (intro card.remove) auto
    with False old show ?thesis by simp
  qed
  moreover have "\<forall>u\<ge>t. view s2 u = (\<lambda>j. if j \<in> set (k # ks) then None else view s u j)"
    using s1(3) s2(3) by auto
  ultimately show ?case using s1 s2 by (intro exI [of _ s2]) auto
qed auto

end

section \<open>What the gate guarantees\<close>

lemma denyKey_None:
  assumes "denyKey c cmd = None" "cmd_Keys cmd (Args c) \<noteq> []"
  obtains sc where "Session c = Some sc" "\<forall>k\<in>set (cmd_Keys cmd (Args c)). IsAllowed sc (RbacID cmd) k"
  using assms by (auto simp: denyKey_def find_None_iff split: option.splits list.splits)

lemma cmd_Lookup_Arity: "cmd_Lookup name = Some cmd \<Longrightarrow> 2 \<le> Arity cmd"
  by (auto simp: cmd_Lookup_def commands_def split: if_splits)

lemma cmd_Keys_nonempty:
  assumes "cmd_Lookup name = Some cmd" "\<not> length (Args c) < Arity cmd"
  shows "cmd_Keys cmd (Args c) \<noteq> []"
  using cmd_Lookup_Arity [OF assms(1)] assms(2) by (auto simp: cmd_Keys_def split: handler.split)

text \<open>
  C6. No data command reads or changes data without permission: with a policy configured, a
  request that changes the store or answers with anything but an error, a denial or a refusal to
  handle it comes from a session that may run this command on every key it names.
\<close>

theorem command_gate_sound:
  assumes "cmd_Execute sget sset sdel vs now c st = Returns (r, st')" "pol st = Some p"
    and "kv st' \<noteq> kv st \<or> (\<exists>rep. r = Some rep \<and> (\<forall>m. rep \<noteq> RepErrorMsg m \<and> rep \<noteq> RepDenied m))"
  shows "\<exists>sc cmd. Session c = Some sc \<and> cmd_Lookup (hd (Args c)) = Some cmd \<and>
      (\<forall>k\<in>set (cmd_Keys cmd (Args c)). IsAllowed sc (RbacID cmd) k)"
proof -
  obtain name rest where a: "Args c = name # rest"
    using assms by (cases "Args c") (auto simp: cmd_Execute_def)
  then obtain cmd where cmd: "cmd_Lookup name = Some cmd"
    using assms by (cases "cmd_Lookup name") (auto simp: cmd_Execute_def)
  have ar: "\<not> length (Args c) < Arity cmd" using assms a cmd by (auto simp: cmd_Execute_def)
  have "denyKey c cmd = None"
    using assms a cmd ar by (auto simp: cmd_Execute_def deny_def Let_def split: option.splits)
  then obtain sc where "Session c = Some sc" "\<forall>k\<in>set (cmd_Keys cmd (Args c)). IsAllowed sc (RbacID cmd) k"
    using denyKey_None cmd_Keys_nonempty [OF cmd ar] by blast
  with a cmd show ?thesis by auto
qed

text \<open>
  A denied request is recorded and has no effect: when the session lacks the right to some
  key, or there is no session, the store is untouched, the reply is the denial, the denial counter
  goes up by one and the newest ACL LOG entry names the user, the command and the first key refused.
\<close>

theorem command_denied:
  assumes "pol st = Some p" "ring_ok p" "Args c = name # rest" "cmd_Lookup name = Some cmd" "\<not> length (Args c) < Arity cmd"
    and "Session c = Some sc" "find (\<lambda>k. \<not> IsAllowed sc (RbacID cmd) k) (cmd_Keys cmd (Args c)) = Some key"
  shows "\<exists>p' a'. cmd_Execute sget sset sdel vs now c st =
        Returns (Some (RepDenied (ToLower (cmd_name cmd))), st\<lparr>pol := Some p', aud := a'\<rparr>) \<and>
      active p' = active p \<and> deniedCommands p' = deniedCommands p + 1 \<and>
      AuthLog p' = newest DefaultAuthLogCap (AuthLog p @
        [\<lparr>Timestamp = now, entry_user = Username sc, RemoteAddr = Remote c,
          Reason = ''NOPERM command='' @ ToLower (cmd_name cmd) @ '' key='' @ key\<rparr>])"
proof -
  let ?p = "LogDenied now (Username sc) (Remote c) (ToLower (cmd_name cmd)) key (IncDenied p)"
  have same: "same_log p (IncDenied p)" by (simp add: same_log_def IncDenied_def)
  have "ring_ok (IncDenied p)" using same_log_AuthLog [OF same] assms(2) by simp
  from append_log [OF this] have "AuthLog ?p = newest DefaultAuthLogCap (AuthLog p @
      [\<lparr>Timestamp = now, entry_user = Username sc, RemoteAddr = Remote c,
          Reason = ''NOPERM command='' @ ToLower (cmd_name cmd) @ '' key='' @ key\<rparr>])"
    using same_log_AuthLog [OF same] by (simp add: LogDenied_def)
  moreover have "active ?p = active p" "deniedCommands ?p = deniedCommands p + 1"
    by (simp_all add: LogDenied_def appendLocked_def IncDenied_def Let_def)
  moreover have "denyKey c cmd = Some key" using assms(6,7) by (simp add: denyKey_def)
  ultimately show ?thesis
    using assms by (simp add: cmd_Execute_def deny_def Let_def) blast
qed

definition cache_role :: role where
  "cache_role = (case ParseRole 0 ''cache'' cache_rules of Inr r \<Rightarrow> r)"

definition cache_session :: session where
  "cache_session = NewSessionContext ''ann'' (Some cache_role)"

definition cache_ctx :: "bytes list \<Rightarrow> ctx" where
  "cache_ctx as = \<lparr>Args = as, ctx_TTL = 0, Session = Some cache_session, Remote = ''r'', Protocol = ''resp''\<rparr>"

definition cache_state :: "engine cstate" where
  "cache_state = \<lparr>kv = engine0, pol = Some (NewStore None 0), aud = None\<rparr>"

abbreviation cache_exec :: "bytes list \<Rightarrow> (storage_error reply option \<times> engine cstate) go" where
  "cache_exec as \<equiv> cmd_Execute (engine_get plain_prims) (engine_set plain_prims) engine_del (\<lambda>i. (0, None)) 5 (cache_ctx as) cache_state"

theorem command_gate_sound_witness:
  "\<exists>st' cmd. cache_exec [''get'', ''cache:1''] = Returns (Some RepNull, st') \<and> cmd_Lookup ''get'' = Some cmd \<and>
     list_all (IsAllowed cache_session (RbacID cmd)) (cmd_Keys cmd [''get'', ''cache:1''])"
proof -
  have "case cache_exec [''get'', ''cache:1''] of Returns (r, st') \<Rightarrow> r = Some RepNull | Panics \<Rightarrow> False"
    unfolding cache_state_def engine0_def by code_simp
  then obtain st' where ex: "cache_exec [''get'', ''cache:1''] = Returns (Some RepNull, st')"
    by (auto split: go.splits prod.splits)
  have "pol cache_state = Some (NewStore None 0)" by (simp add: cache_state_def)
  from command_gate_sound [OF ex this] ex show ?thesis by (auto simp: cache_ctx_def list_all_iff)
qed

theorem command_denied_witness:
  "\<exists>p' a'. cache_exec [''DEL'', ''cache:1'', ''user:7'', ''x''] =
       Returns (Some (RepDenied ''del''), cache_state\<lparr>pol := Some p', aud := a'\<rparr>) \<and>
     map Reason (AuthLog p') = [''NOPERM command=del key=user:7''] \<and> deniedCommands p' = 1"
proof -
  let ?c = "cache_ctx [''DEL'', ''cache:1'', ''user:7'', ''x'']"
  let ?cmd = "\<lparr>cmd_name = ''DEL'', RbacID = cmd_Del, Arity = 2, Handler = HDel\<rparr>"
  have "cmd_Lookup ''DEL'' = Some ?cmd" by (simp add: cmd_Lookup_def commands_def equalFoldASCII_def fold_byte_def)
  moreover have "find (\<lambda>k. \<not> IsAllowed cache_session (RbacID ?cmd) k) (cmd_Keys ?cmd (Args ?c)) = Some ''user:7''"
    unfolding cache_ctx_def by code_simp
  moreover have "ToLower ''DEL'' = ''del''" by code_simp
  moreover have "ring_ok (NewStore None 0)" "AuthLog (NewStore None 0) = []" by (simp_all add: ring_ok_def NewStore_def AuthLog_def)
  ultimately show ?thesis
    using command_denied [of cache_state "NewStore None 0" ?c "''DEL''" "[''cache:1'', ''user:7'', ''x'']" ?cmd cache_session "''user:7''"
        "engine_get plain_prims" "engine_set plain_prims" engine_del "\<lambda>i. (0, None)" 5]
    by (auto simp: cache_state_def cache_ctx_def cache_session_def NewSessionContext_def newest_def DefaultAuthLogCap_def NewStore_def)
qed

end
