(* ===== verification/Server_Commands.thy ===== *)
theory Server_Commands
  imports Shard Command_Layer
begin

text \<open>
  The data commands on the sharded store: the handlers of the command layer, interpreted on the
  router, with the gate around them. What GET, SET and DEL answer and what they leave behind is
  stated over \<open>router_view\<close>, the contents of the store at a time.
\<close>

section \<open>Commands on the sharded store\<close>

type_synonym server_state = "router cstate"

definition permitted :: "ctx \<Rightarrow> command \<Rightarrow> 's cstate \<Rightarrow> bool" where
  "permitted c cmd st \<longleftrightarrow> pol st = None \<or> denyKey c cmd = None"

abbreviation server_exec :: "prims \<Rightarrow> (nat \<Rightarrow> exec_env) \<Rightarrow> int \<Rightarrow> ctx \<Rightarrow> server_state \<Rightarrow>
    (shard_error reply option \<times> server_state) go" where
  "server_exec P \<equiv> cmd_Execute (rs_Get P) (rs_Set P) (rs_Delete P)"

interpretation rcmd: handler_store "rs_Get P" "rs_Set P" "rs_Delete P" op_now exec_ok "router_ok P" "router_view P" for P
  by (intro handler_store.intro) (rule rstore.kv_store_axioms)

lemma cmd_Execute_permitted:
  assumes "cmd_Lookup (hd (Args c)) = Some cmd" "Arity cmd \<le> length (Args c)" "permitted c cmd st"
    and "run_handler sget sset sdel vs (Handler cmd) c (kv st) = Returns (r, s')"
  shows "\<exists>st'. cmd_Execute sget sset sdel vs now c st = Returns (Some r, st') \<and> kv st' = s' \<and>
      (pol st' = None \<longleftrightarrow> pol st = None)"
  using assms cmd_Lookup_Arity [OF assms(1)]
  by (cases "Args c") (auto simp: cmd_Execute_def permitted_def Let_def split: option.split)

lemma Lookup_GET: "cmd_Lookup ''GET'' = Some \<lparr>cmd_name = ''GET'', RbacID = cmd_Get, Arity = 2, Handler = HGet\<rparr>"
  and Lookup_SET: "cmd_Lookup ''SET'' = Some \<lparr>cmd_name = ''SET'', RbacID = cmd_Set, Arity = 3, Handler = HSet\<rparr>"
  and Lookup_DEL: "cmd_Lookup ''DEL'' = Some \<lparr>cmd_name = ''DEL'', RbacID = cmd_Del, Arity = 2, Handler = HDel\<rparr>"
  by (simp_all add: cmd_Lookup_def commands_def equalFoldASCII_def fold_byte_def)

lemma server_get:
  assumes "router_ok P (kv st)" "exec_ok (vs 0)" "Args c = [''GET'', k]" "\<forall>cmd. cmd_Lookup ''GET'' = Some cmd \<longrightarrow> permitted c cmd st"
  shows "\<exists>st'. server_exec P vs now c st =
      Returns (Some (case router_view P (kv st) (op_now (vs 0)) k of None \<Rightarrow> RepNull | Some x \<Rightarrow> RepBulk x), st') \<and>
      router_ok P (kv st') \<and> (\<forall>t\<ge>op_now (vs 0). router_view P (kv st') t = router_view P (kv st) t)"
proof -
  obtain s' where h: "(get_handler (rs_Get P) (vs 0) [''GET'', k] (kv st) :: (shard_error reply \<times> router) go) =
      Returns (case router_view P (kv st) (op_now (vs 0)) k of None \<Rightarrow> RepNull | Some x \<Rightarrow> RepBulk x, s')"
    "router_ok P s'" "\<forall>t\<ge>op_now (vs 0). router_view P s' t = router_view P (kv st) t"
    using rcmd.get_handler_reply [OF assms(1,2)] by blast
  with cmd_Execute_permitted [OF _ _ assms(4) [rule_format, OF Lookup_GET], of "rs_Get P" "rs_Set P" "rs_Delete P" vs _ s' now]
  obtain st' where "server_exec P vs now c st =
      Returns (Some (case router_view P (kv st) (op_now (vs 0)) k of None \<Rightarrow> RepNull | Some x \<Rightarrow> RepBulk x), st')" "kv st' = s'"
    using assms(3) by (simp add: run_handler_def Lookup_GET) blast
  with h show ?thesis by blast
qed

lemma server_set:
  assumes "router_ok P (kv st)" "exec_ok (vs 0)" "Args c = ''SET'' # k # x # opts" "length opts = 0 \<or> length opts = 2"
    and "parseSetTTL (Args c) = Some ttl" "\<forall>cmd. cmd_Lookup ''SET'' = Some cmd \<longrightarrow> permitted c cmd st"
  shows "\<exists>r st'. server_exec P vs now c st = Returns (Some (case r of None \<Rightarrow> RepOK | Some err \<Rightarrow> RepStorageErr err), st') \<and>
      router_ok P (kv st') \<and> (pol st' = None \<longleftrightarrow> pol st = None) \<and>
      (\<forall>t\<ge>op_now (vs 0). router_view P (kv st') t =
         (if r = None then (router_view P (kv st) t)(k :=
            if past t (deadline (op_now (vs 0)) (if ttl = 0 then ctx_TTL c else ttl)) then None else Some x)
          else router_view P (kv st) t))"
proof -
  have len: "length (Args c) = 3 \<or> length (Args c) = 5" using assms(3,4) by auto
  have k: "Args c ! 1 = k" "Args c ! 2 = x" using assms(3) by simp_all
  obtain r s' where
    h: "set_handler (rs_Set P) (vs 0) (ctx_TTL c) (Args c) (kv st) =
        Returns (case r of None \<Rightarrow> RepOK | Some err \<Rightarrow> RepStorageErr err, s')" "router_ok P s'"
      "\<forall>t\<ge>op_now (vs 0). router_view P s' t =
         (if r = None then (router_view P (kv st) t)(k :=
            if past t (deadline (op_now (vs 0)) (if ttl = 0 then ctx_TTL c else ttl)) then None else Some x)
          else router_view P (kv st) t)"
    using rcmd.set_handler_reply [OF assms(1,2) len assms(5), of "ctx_TTL c", unfolded k]
    by (elim exE conjE) (rule that)
  obtain st' where "server_exec P vs now c st = Returns (Some (case r of None \<Rightarrow> RepOK | Some err \<Rightarrow> RepStorageErr err), st')"
      "kv st' = s'" "pol st' = None \<longleftrightarrow> pol st = None"
    using cmd_Execute_permitted [OF _ _ assms(6) [rule_format, OF Lookup_SET], of "rs_Get P" "rs_Set P" "rs_Delete P" vs _ s' now]
      assms(3) h(1) by (simp add: run_handler_def Lookup_SET) metis
  with h show ?thesis by (intro exI [of _ r] exI [of _ st']) simp
qed

lemma server_del:
  assumes "router_ok P (kv st)" "\<forall>i. exec_ok (vs i) \<and> op_now (vs i) = t" "Args c = ''DEL'' # ks" "ks \<noteq> []"
    and "\<forall>cmd. cmd_Lookup ''DEL'' = Some cmd \<longrightarrow> permitted c cmd st"
  shows "\<exists>st'. server_exec P vs now c st =
        Returns (Some (RepInt (int (card {k \<in> set ks. router_view P (kv st) t k \<noteq> None}))), st') \<and>
      router_ok P (kv st') \<and>
      (\<forall>u\<ge>t. router_view P (kv st') u = (\<lambda>k. if k \<in> set ks then None else router_view P (kv st) u k))"
proof -
  from rcmd.del_keys_count [OF assms(1,2), of ks 0] obtain s' where
    h: "del_keys (rs_Delete P) vs ks 0 (kv st) = Returns (int (card {k \<in> set ks. router_view P (kv st) t k \<noteq> None}), s')"
      "router_ok P s'" "\<forall>u\<ge>t. router_view P s' u = (\<lambda>k. if k \<in> set ks then None else router_view P (kv st) u k)" by auto
  then have "(del_handler (rs_Delete P) vs (''DEL'' # ks) (kv st) :: (shard_error reply \<times> router) go) =
      Returns (RepInt (int (card {k \<in> set ks. router_view P (kv st) t k \<noteq> None})), s')"
    using assms(4) by (simp add: del_handler_def length_greater_0_conv Suc_le_eq flip: neq_Nil_conv)
  with cmd_Execute_permitted [OF _ _ assms(5) [rule_format, OF Lookup_DEL], of "rs_Get P" "rs_Set P" "rs_Delete P" vs _ s' now]
  obtain st' where "server_exec P vs now c st =
      Returns (Some (RepInt (int (card {k \<in> set ks. router_view P (kv st) t k \<noteq> None}))), st')" "kv st' = s'"
    using assms(3,4) by (simp add: run_handler_def Lookup_DEL Suc_le_eq) blast
  with h show ?thesis by blast
qed

lemma int64_wraps: "2 ^ 63 \<le> x \<Longrightarrow> x < 2 ^ 64 \<Longrightarrow> int64 x = x - 2 ^ 64"
proof -
  assume x: "2 ^ 63 \<le> x" "x < 2 ^ 64"
  have "(x + 2 ^ 63) mod 2 ^ 64 = (x - 2 ^ 63) mod 2 ^ 64" by (simp add: mod_eq_dvd_iff)
  also have "\<dots> = x - 2 ^ 63" using x by (intro mod_pos_pos_trivial) auto
  finally show "int64 x = x - 2 ^ 64" by (simp add: int64_def)
qed

lemma parse_EX:
  assumes "Atoi n = Some secs" "0 < secs"
  shows "parseSetTTL [''SET'', k, x, ''EX'', n] = Some (int64 (secs * second))"
  using assms by (simp add: parseSetTTL_def equalFoldASCII_def)

lemma server_set_EX:
  assumes "router_ok P (kv st)" "exec_ok (vs 0)" "Args c = [''SET'', k, x, ''EX'', n]" "Atoi n = Some secs" "0 < secs"
    and "int64 (secs * second) \<noteq> 0" "\<forall>cmd. cmd_Lookup ''SET'' = Some cmd \<longrightarrow> permitted c cmd st"
  obtains r st' where "server_exec P vs now c st = Returns (Some (case r of None \<Rightarrow> RepOK | Some err \<Rightarrow> RepStorageErr err), st')"
      "router_ok P (kv st')" "pol st' = None \<longleftrightarrow> pol st = None"
      "\<And>t. r = None \<Longrightarrow> op_now (vs 0) \<le> t \<Longrightarrow> router_view P (kv st') t k =
         (if past t (deadline (op_now (vs 0)) (int64 (secs * second))) then None else Some x)"
proof -
  have "parseSetTTL (Args c) = Some (int64 (secs * second))" using parse_EX [OF assms(4,5)] assms(3) by simp
  from server_set [where vs = vs and opts = "[''EX'', n]" and now = now, OF assms(1,2,3) _ this assms(7)] that assms(6)
  show ?thesis by fastforce
qed

end
