(* ===== verification/Frontend.thy ===== *)
theory Frontend
  imports Server_Commands
begin

text \<open>
  What the binary and the Redis front end share: the environment of one event (clock readings, the
  outcome of I/O, the password hash functions and the token provider, the rendering of times and
  error texts), the jobs of the password workers and their verdict, the shape test for tokens
  (\<^verbatim>\<open>IsJWT\<close> of \<^verbatim>\<open>src/internal/oauth/oauth.go\<close>), and the contract of a TLS
  connection's \<^verbatim>\<open>Read\<close>.
\<close>

section \<open>The environment of an event\<close>

record front_env =
  exec_envs :: "nat \<Rightarrow> exec_env"
  wall_clock :: int
  hash_pass :: "bytes \<Rightarrow> bytes option"
  check_pass :: "bytes \<Rightarrow> bytes \<Rightarrow> bool"
  verify_token :: "bytes \<Rightarrow> claims option"
  error_text :: "rbac_error \<Rightarrow> bytes"
  format_time :: "int \<Rightarrow> string"
  store_text :: "shard_error \<Rightarrow> string"
  peek_ok :: bool
  write_ok :: bool

definition env_ok :: "front_env \<Rightarrow> bool" where
  "env_ok v \<longleftrightarrow> peek_ok v \<and> write_ok v \<and> (\<exists>t. \<forall>i. exec_ok (exec_envs v i) \<and> op_now (exec_envs v i) = t)"

section \<open>Password workers\<close>

datatype action = ActNone | ActClose

record auth_job =
  job_conn :: nat
  job_password :: bytes
  job_passHash :: bytes
  job_session :: "session option"
  job_username :: string
  job_reason :: string
  job_oauth :: bool

definition authQueueCap :: nat where "authQueueCap = 256"

definition IsJWT :: "bytes \<Rightarrow> bool" where
  "IsJWT b = (length (filter (\<lambda>c. c = CHR ''.'') b) = 2 \<and> 5 \<le> length b)"

definition job_accepted :: "front_env \<Rightarrow> auth_job \<Rightarrow> rbac_store option \<Rightarrow> (session option \<times> string) option" where
  "job_accepted v job po =
     (if job_oauth job
      then (case po of
              None \<Rightarrow> None
            | Some ps \<Rightarrow> map_option (\<lambda>(s, n). (Some s, n)) (ResolveOAuthToken ps (verify_token v (job_password job))))
      else if job_passHash job = [] \<or> check_pass v (job_passHash job) (job_password job)
      then Some (job_session job, job_username job) else None)"

definition credentials_ok :: "front_env \<Rightarrow> auth_job \<Rightarrow> bool" where
  "credentials_ok v job =
     (if job_oauth job then verify_token v (job_password job) \<noteq> None
      else job_passHash job = [] \<or> check_pass v (job_passHash job) (job_password job))"

section \<open>Reading over TLS\<close>

text \<open>
  \<^verbatim>\<open>Conn.Read\<close> of \<^verbatim>\<open>src/internal/tls/conn.go\<close> after the handshake: nothing for an
  empty slice, at most one record otherwise, an error when no decrypted byte is at hand.
\<close>

datatype tls_error = ErrNotEnough | TLSFailure

record tls_env =
  record_len :: nat
  tls_fails :: bool

definition tls_Read :: "tls_env \<Rightarrow> nat \<Rightarrow> bytes \<Rightarrow> nat \<times> tls_error option" where
  "tls_Read t space avail =
     (if space = 0 then (0, None)
      else if avail = [] then (0, Some (if tls_fails t then TLSFailure else ErrNotEnough))
      else (max 1 (min (record_len t) (min space (length avail))), if tls_fails t then Some TLSFailure else None))"

section \<open>What bookkeeping leaves alone\<close>

lemma shard_counters [simp]: "Engine (AddBytesRead n s) = Engine s" "Engine (AddBytesWritten n s) = Engine s"
  "Engine (IncConnectedClients s) = Engine s" "Engine (DecConnectedClients s) = Engine s" "Engine (IncTotalConnections s) = Engine s"
  by (simp_all add: AddBytesRead_def AddBytesWritten_def IncConnectedClients_def DecConnectedClients_def IncTotalConnections_def)

lemma log_active [simp]: "active (LogAuthFailure now u a r ps) = active ps" "active (LogDenied now u a cmd k ps) = active ps"
  "active (IncDenied ps) = active ps" "active (CountCommand sc ps) = active ps"
  by (simp_all add: LogAuthFailure_def LogDenied_def appendLocked_def IncDenied_def CountCommand_def Let_def split: option.split)

text \<open>What the counters of a shard do not change: the readiness of the router and its contents.\<close>

definition same_data :: "router \<Rightarrow> router \<Rightarrow> bool" where
  "same_data r r' \<longleftrightarrow> map ID (shards r') = map ID (shards r) \<and> map Engine (shards r') = map Engine (shards r) \<and> pstore r' = pstore r"

lemma same_data_router:
  assumes "same_data r r'"
  shows "router_ok P r' = router_ok P r" "router_ok P r \<Longrightarrow> router_view P r' = router_view P r"
proof -
  have ids: "map ID (shards r') = map ID (shards r)" and engines: "map Engine (shards r') = map Engine (shards r)" and store: "pstore r' = pstore r"
    using assms by (simp_all add: same_data_def)
  have len: "length (shards r') = length (shards r)" using map_eq_imp_length_eq [OF ids] .
  have nth: "ID (shards r' ! i) = ID (shards r ! i)" "Engine (shards r' ! i) = Engine (shards r ! i)" if "i < length (shards r)" for i
    using arg_cong [OF ids, of "\<lambda>l. l ! i"] arg_cong [OF engines, of "\<lambda>l. l ! i"] that len by simp_all
  have "shard_ready P (shards r' ! i) (pstore r') = shard_ready P (shards r ! i) (pstore r)" if "i < length (shards r)" for i
    unfolding shard_ready_def nth [OF that] store ..
  then have "(\<forall>sh\<in>set (shards r'). shard_ready P sh (pstore r')) = (\<forall>sh\<in>set (shards r). shard_ready P sh (pstore r))"
    unfolding all_set_conv_all_nth len by simp
  then show "router_ok P r' = router_ok P r" unfolding router_ok_def ids len by simp
  show "router_view P r' = router_view P r" if ok: "router_ok P r"
  proof (intro ext)
    fix t k
    have "route r' k = route r k" using len by (simp add: route_def numShards_def)
    moreover have "route r k < length (shards r)" using ok route_less by (simp add: router_ok_def)
    ultimately show "router_view P r' t k = router_view P r t k" using nth by (simp add: router_view_def)
  qed
qed

lemma shard_counters_ID [simp]: "ID (AddBytesRead n s) = ID s" "ID (AddBytesWritten n s) = ID s"
  by (simp_all add: AddBytesRead_def AddBytesWritten_def)

lemma same_data_trans: "same_data r r1 \<Longrightarrow> same_data r1 r2 \<Longrightarrow> same_data r r2"
  by (simp add: same_data_def)

section \<open>A concrete environment\<close>

definition sample_env :: front_env where
  "sample_env = \<lparr>exec_envs = \<lambda>i. exec_at 0, wall_clock = 0, hash_pass = Some, check_pass = (=), verify_token = \<lambda>t. None,
     error_text = \<lambda>e. ''error'', format_time = \<lambda>t. ''2026-01-01T00:00:00Z'', store_text = \<lambda>e. ''storage failure'', peek_ok = True, write_ok = True\<rparr>"

definition quiet_log :: log_engine where
  "quiet_log = \<lparr>audit_enabled = False, audit_filter = [], sink_ok = \<lambda>i. True, attempts = 0, written = [], firstErr = False\<rparr>"

definition one_shard :: router where
  "one_shard = \<lparr>shards = [new_shard 0 engine0], pstore = NewStorage False (\<lambda>i. no_disk i)\<rparr>"

lemma sample_env_ok: "env_ok sample_env"
  by (auto simp: sample_env_def env_ok_def exec_at_def exec_ok_def nonce_ok_def)

end
