(* ===== verification/Binary_Protocol.thy ===== *)
theory Binary_Protocol
  imports Stream_Codec
begin

text \<open>
  The frames of the binary protocol, \<^verbatim>\<open>src/internal/network/protocol.go\<close>: a length of
  four bytes, a type byte and a payload, which for a request is an operation code, a key length, a
  TTL, the key and the value. A slice is the bytes it shows together with the bytes of its backing
  array behind it, because Go lets a slice be extended up to its capacity. The reader the blocking
  functions take is the bytes still to come, and running out of them is its error.
\<close>

unbundle bit_operations_syntax

section \<open>Messages\<close>

definition MsgPing :: char where "MsgPing = CHR 0x00"
definition MsgPong :: char where "MsgPong = CHR 0x01"
definition MsgRequest :: char where "MsgRequest = CHR 0x02"
definition MsgResponse :: char where "MsgResponse = CHR 0x03"
definition MsgAuth :: char where "MsgAuth = CHR 0x04"
definition MsgAuthOk :: char where "MsgAuthOk = CHR 0x05"
definition MsgAuthErr :: char where "MsgAuthErr = CHR 0x06"
definition MsgError :: char where "MsgError = CHR 0x07"

lemmas msg_types = MsgPing_def MsgPong_def MsgRequest_def MsgResponse_def MsgAuth_def MsgAuthOk_def MsgAuthErr_def MsgError_def

definition OpGet :: char where "OpGet = CHR 0x01"
definition OpSet :: char where "OpSet = CHR 0x02"
definition OpDelete :: char where "OpDelete = CHR 0x03"
definition OpRoleCreate :: char where "OpRoleCreate = CHR 0x04"
definition OpRoleSetUser :: char where "OpRoleSetUser = CHR 0x05"
definition OpRoleDelUser :: char where "OpRoleDelUser = CHR 0x06"
definition OpRoleDelete :: char where "OpRoleDelete = CHR 0x07"
definition OpRoleList :: char where "OpRoleList = CHR 0x08"
definition OpRoleGetUser :: char where "OpRoleGetUser = CHR 0x09"
definition OpACLSetUser :: char where "OpACLSetUser = CHR 0x0A"
definition OpACLDelUser :: char where "OpACLDelUser = CHR 0x0B"
definition OpACLList :: char where "OpACLList = CHR 0x0C"
definition OpACLLog :: char where "OpACLLog = CHR 0x0D"

lemmas op_codes = OpGet_def OpSet_def OpDelete_def OpRoleCreate_def OpRoleSetUser_def OpRoleDelUser_def OpRoleDelete_def
  OpRoleList_def OpRoleGetUser_def OpACLSetUser_def OpACLDelUser_def OpACLList_def OpACLLog_def

definition op_String :: "char \<Rightarrow> string" where
  "op_String p =
     (if p = OpGet then ''GET'' else if p = OpSet then ''SET'' else if p = OpDelete then ''DELETE''
      else if p = OpRoleCreate then ''ROLE CREATE'' else if p = OpRoleSetUser then ''ROLE SETUSER''
      else if p = OpRoleDelUser then ''ROLE DELUSER'' else if p = OpRoleDelete then ''ROLE DELETE''
      else if p = OpRoleList then ''ROLE LIST'' else if p = OpRoleGetUser then ''ROLE GETUSER''
      else if p = OpACLSetUser then ''ACL SETUSER'' else if p = OpACLDelUser then ''ACL DELUSER''
      else if p = OpACLList then ''ACL LIST'' else if p = OpACLLog then ''ACL LOG''
      else ''UNKNOWN'')"

record message =
  msg_Type :: char
  msg_Op :: char
  msg_TTL :: int
  msg_Key :: bytes
  msg_Value :: bytes
  msg_Payload :: bytes

definition message0 :: message where
  "message0 = \<lparr>msg_Type = CHR 0x00, msg_Op = CHR 0x00, msg_TTL = 0, msg_Key = [], msg_Value = [], msg_Payload = []\<rparr>"

datatype proto_error = ErrShortRead | ErrTooLong | ErrZeroLength | ErrBufferTooSmall | ErrMalformedFrame | ErrEOF

definition request_payload :: "message \<Rightarrow> bytes" where
  "request_payload m =
     msg_Op m # be_bytes 2 (length (msg_Key m)) @ be_bytes 8 (nat (msg_TTL m mod 2 ^ 64)) @ msg_Key m @ msg_Value m"

definition frame :: "char \<Rightarrow> bytes \<Rightarrow> bytes" where
  "frame t payload = be_bytes 4 (1 + length payload) @ t # payload"

definition Marshal :: "message \<Rightarrow> bytes" where
  "Marshal m = frame (msg_Type m) (if msg_Type m = MsgRequest then request_payload m else msg_Payload m)"

definition writeFastPathMax :: nat where "writeFastPathMax = 512"

text \<open>The calls of \<^verbatim>\<open>w.Write\<close>; the reply is on the wire when all of them succeed.\<close>

definition Write_calls :: "char \<Rightarrow> bytes \<Rightarrow> bytes list" where
  "Write_calls t payload =
     (let hdr = be_bytes 4 (1 + length payload) @ [t] in
      if length payload \<le> writeFastPathMax then [hdr @ payload] else [hdr, payload])"

section \<open>Reading\<close>

definition fill_request :: "bytes \<Rightarrow> message \<Rightarrow> message" where
  "fill_request raw out =
     out\<lparr>msg_Op := raw ! 0, msg_TTL := int64 (int (be_nat (take 8 (drop 3 raw))))\<rparr>"

definition key_len :: "bytes \<Rightarrow> nat" where
  "key_len raw = be_nat (take 2 (drop 1 raw))"

definition split_key :: "bytes \<Rightarrow> message \<Rightarrow> message" where
  "split_key raw out = out\<lparr>msg_Key := take (key_len raw) (drop 11 raw), msg_Value := drop (11 + key_len raw) raw\<rparr>"

text \<open>The part \<^verbatim>\<open>Decode\<close> and \<^verbatim>\<open>Read\<close> share: the fields of a payload.\<close>

definition fill_payload :: "bytes \<Rightarrow> message \<Rightarrow> proto_error option \<times> message" where
  "fill_payload raw out =
     (let out1 = out\<lparr>msg_Payload := raw\<rparr> in
      if msg_Type out = MsgRequest then
        if length raw < 11 then (Some ErrMalformedFrame, out1)
        else (let out2 = fill_request raw out1 in
              if length raw < 11 + key_len raw then (Some ErrMalformedFrame, out2) else (None, split_key raw out2))
      else (None, out1\<lparr>msg_Value := raw\<rparr>))"

definition Decode :: "bytes \<Rightarrow> bytes \<Rightarrow> uint64 \<Rightarrow> message \<Rightarrow> ((proto_error + nat) \<times> message) go" where
  "Decode data spare maxMsgSize out =
     (if length data < 5 then Returns (Inl ErrShortRead, out)
      else let len = of_nat (be_nat (take 4 data)) :: uint32 in
        if len = 0 then Returns (Inl ErrZeroLength, out)
        else if ucast len > maxMsgSize then Returns (Inl ErrTooLong, out)
        else if (of_nat (length data) :: uint32) < len + 4 then Returns (Inl ErrShortRead, out)
        else let out1 = out\<lparr>msg_Type := data ! 4\<rparr>; payloadLen = unat len - 1 in
          if payloadLen = 0 then Returns (Inr 0, out1)
          else if length (data @ spare) < 5 + payloadLen then Panics
          else case fill_payload (take payloadLen (drop 5 (data @ spare))) out1 of
            (Some err, out2) \<Rightarrow> Returns (Inl err, out2)
          | (None, out2) \<Rightarrow> Returns (Inr payloadLen, out2))"

definition ReadFull :: "nat \<Rightarrow> bytes \<Rightarrow> (bytes \<times> bytes) option" where
  "ReadFull n r = (if length r < n then None else Some (take n r, drop n r))"

definition Unmarshal :: "bytes \<Rightarrow> ((proto_error + message) \<times> bytes) go" where
  "Unmarshal r =
     (case ReadFull 4 r of
        None \<Rightarrow> Returns (Inl ErrEOF, [])
      | Some (lenBuf, r1) \<Rightarrow>
          (let len = be_nat lenBuf in
           if len = 0 then Returns (Inl ErrZeroLength, r1)
           else case ReadFull len r1 of
             None \<Rightarrow> Returns (Inl ErrEOF, [])
           | Some (data, r2) \<Rightarrow>
               (let raw = drop 1 data; m = message0\<lparr>msg_Type := data ! 0, msg_Payload := raw\<rparr> in
                if msg_Type m = MsgRequest then
                  if length raw < 11 then Returns (Inl ErrMalformedFrame, r2)
                  else if length raw < 11 + key_len raw then Panics
                  else Returns (Inr (split_key raw (fill_request raw m)), r2)
                else Returns (Inr (m\<lparr>msg_Value := raw\<rparr>), r2))))"

definition Read :: "bytes \<Rightarrow> nat \<Rightarrow> message \<Rightarrow> proto_error option \<times> message \<times> bytes" where
  "Read r bufLen out =
     (case ReadFull 4 r of
        None \<Rightarrow> (Some ErrEOF, out, [])
      | Some (lenBuf, r1) \<Rightarrow>
          (let len = be_nat lenBuf in
           if len = 0 then (Some ErrZeroLength, out, r1)
           else if (of_nat bufLen :: uint32) < of_nat len then (Some ErrBufferTooSmall, out, r1)
           else case ReadFull len r1 of
             None \<Rightarrow> (Some ErrEOF, out, [])
           | Some (data, r2) \<Rightarrow>
               (case fill_payload (drop 1 data) (out\<lparr>msg_Type := data ! 0\<rparr>) of (err, out') \<Rightarrow> (err, out', r2))))"

section \<open>Round trip\<close>

definition body :: "message \<Rightarrow> bytes" where
  "body m = (if msg_Type m = MsgRequest then request_payload m else msg_Payload m)"

lemma Marshal_body: "Marshal m = frame (msg_Type m) (body m)"
  by (simp add: Marshal_def body_def)

text \<open>
  A message as a decoder delivers it: a request keeps its raw payload, and what is no request has
  only a payload, which is also its value.
\<close>

definition normal :: "message \<Rightarrow> bool" where
  "normal m \<longleftrightarrow>
     (if msg_Type m = MsgRequest
      then msg_Payload m = request_payload m \<and> length (msg_Key m) < 2 ^ 16 \<and> - (2 ^ 63) \<le> msg_TTL m \<and> msg_TTL m < 2 ^ 63
      else msg_Op m = CHR 0x00 \<and> msg_TTL m = 0 \<and> msg_Key m = [] \<and> msg_Value m = msg_Payload m)"

definition wire_ok :: "uint64 \<Rightarrow> message \<Rightarrow> bool" where
  "wire_ok maxMsgSize m \<longleftrightarrow> normal m \<and> 1 + length (body m) \<le> unat maxMsgSize \<and> 5 + length (body m) < 2 ^ 32"

lemma int64_mod: "- (2 ^ 63) \<le> t \<Longrightarrow> t < 2 ^ 63 \<Longrightarrow> int64 (t mod 2 ^ 64) = t"
  unfolding int64_def mod_add_left_eq by simp

lemma request_parts:
  assumes "length (msg_Key m) < 2 ^ 16" "- (2 ^ 63) \<le> msg_TTL m" "msg_TTL m < 2 ^ 63"
  shows "key_len (request_payload m) = length (msg_Key m)"
    and "int64 (int (be_nat (take 8 (drop 3 (request_payload m))))) = msg_TTL m"
    and "drop 11 (request_payload m) = msg_Key m @ msg_Value m" "request_payload m ! 0 = msg_Op m"
    and "length (request_payload m) = 11 + length (msg_Key m) + length (msg_Value m)"
proof -
  let ?k = "be_bytes 2 (length (msg_Key m))" and ?t = "be_bytes 8 (nat (msg_TTL m mod 2 ^ 64))"
  have e: "request_payload m = (msg_Op m # ?k) @ ?t @ msg_Key m @ msg_Value m" by (simp add: request_payload_def)
  have "drop 3 (request_payload m) = ?t @ msg_Key m @ msg_Value m" unfolding e by (subst drop_append) simp
  moreover have "int (be_nat ?t) = msg_TTL m mod 2 ^ 64"
    using pos_mod_bound [of "2 ^ 64" "msg_TTL m"] by (subst be_nat_id) (auto simp: nat_less_iff)
  ultimately show "int64 (int (be_nat (take 8 (drop 3 (request_payload m))))) = msg_TTL m"
    using int64_mod [OF assms(2,3)] by simp
  show "key_len (request_payload m) = length (msg_Key m)"
    using assms(1) by (simp add: key_len_def request_payload_def be_nat_id)
  show "drop 11 (request_payload m) = msg_Key m @ msg_Value m" unfolding e by (subst drop_append) simp
qed (simp_all add: request_payload_def)

lemma message_eqI:
  "msg_Type m = msg_Type n \<Longrightarrow> msg_Op m = msg_Op n \<Longrightarrow> msg_TTL m = msg_TTL n \<Longrightarrow> msg_Key m = msg_Key n \<Longrightarrow>
   msg_Value m = msg_Value n \<Longrightarrow> msg_Payload m = msg_Payload n \<Longrightarrow> m = (n :: message)"
  by simp

lemma fill_body:
  assumes "normal m" "msg_Type out = msg_Type m" "msg_Op out = CHR 0x00" "msg_TTL out = 0" "msg_Key out = []"
  shows "fill_payload (body m) out = (None, m)"
proof (cases "msg_Type m = MsgRequest")
  case True
  with assms(1) have n: "msg_Payload m = request_payload m" "length (msg_Key m) < 2 ^ 16" "- (2 ^ 63) \<le> msg_TTL m" "msg_TTL m < 2 ^ 63"
    by (simp_all add: normal_def)
  note r = request_parts [OF n(2-4)]
  have "drop (11 + length (msg_Key m)) (request_payload m) = msg_Value m"
    using r(3) by (metis add.commute append_eq_conv_conj drop_drop)
  with True r n assms(2) show ?thesis
    by (auto simp: fill_payload_def body_def Let_def fill_request_def split_key_def intro!: message_eqI)
next
  case False
  with assms show ?thesis by (auto simp: fill_payload_def body_def normal_def Let_def intro!: message_eqI)
qed

lemma frame_head:
  assumes "1 + length b < 2 ^ 32"
  shows "be_nat (take 4 (frame t b @ r)) = 1 + length b" "(frame t b @ r) ! 4 = t" "drop 5 (frame t b @ r) = b @ r"
    "length (frame t b) = 5 + length b"
  using assms by (simp_all add: frame_def be_nat_id nth_append drop_append)

lemma len_word:
  assumes "4 \<le> length data"
  shows "unat (of_nat (be_nat (take 4 data)) :: uint32) = be_nat (take 4 data)"
  using be_nat_bound [of "take 4 data"] assms by (intro unat_of_nat_less) simp

lemma unat_ucast64 [simp]: "unat (ucast (x :: uint32) :: uint64) = unat x"
  by transfer (simp add: take_bit_eq_mod)

lemma word_plus4: "unat (x :: uint32) + 4 < 2 ^ 32 \<Longrightarrow> unat (x + 4) = unat x + 4"
  by (simp add: unat_word_ariths)

text \<open>Below four gigabytes \<^verbatim>\<open>Decode\<close> computes with the lengths as they are.\<close>

lemma Decode_nat:
  assumes "5 \<le> length d" "length d < 2 ^ 32" "be_nat (take 4 d) + 4 < 2 ^ 32"
  shows "Decode d spare mx out =
     (let len = be_nat (take 4 d); out1 = out\<lparr>msg_Type := d ! 4\<rparr> in
      if len = 0 then Returns (Inl ErrZeroLength, out)
      else if unat mx < len then Returns (Inl ErrTooLong, out)
      else if length d < len + 4 then Returns (Inl ErrShortRead, out)
      else if len = 1 then Returns (Inr 0, out1)
      else case fill_payload (take (len - 1) (drop 5 d)) out1 of
        (Some err, out2) \<Rightarrow> Returns (Inl err, out2)
      | (None, out2) \<Rightarrow> Returns (Inr (len - 1), out2))"
proof -
  let ?n = "be_nat (take 4 d)" and ?len = "of_nat (be_nat (take 4 d)) :: uint32"
  have len: "unat ?len = ?n" using assms(1) by (intro len_word) simp
  have zero: "?len = 0 \<longleftrightarrow> ?n = 0" using len by (metis unat_0 unat_eq_zero)
  have long: "ucast ?len > mx \<longleftrightarrow> unat mx < ?n" by (simp only: word_less_nat_alt unat_ucast64 len)
  have "unat (of_nat (length d) :: uint32) = length d" using assms(2) by (intro unat_of_nat_less) simp
  then have short: "(of_nat (length d) :: uint32) < ?len + 4 \<longleftrightarrow> length d < ?n + 4"
    using word_plus4 [of ?len] len assms(3) by (simp only: word_less_nat_alt)
  have five: "\<not> length d < 5" using assms(1) by simp
  show ?thesis
    unfolding Decode_def Let_def zero long short len if_not_P [OF five] using assms(1) by (auto split: prod.split option.split)
qed

lemma Decode_frame:
  assumes "wire_ok mx m" "length (Marshal m @ rest) < 2 ^ 32"
  shows "Decode (Marshal m @ rest) spare mx message0 = Returns (Inr (length (body m)), m)"
proof -
  have w: "normal m" "1 + length (body m) \<le> unat mx" "5 + length (body m) < 2 ^ 32" using assms(1) by (simp_all add: wire_ok_def)
  have h: "be_nat (take 4 (Marshal m @ rest)) = 1 + length (body m)" "(Marshal m @ rest) ! 4 = msg_Type m"
    "drop 5 (Marshal m @ rest) = body m @ rest" "length (Marshal m) = 5 + length (body m)"
    using frame_head [of "body m"] w(3) by (simp_all add: Marshal_body)
  have "fill_payload (body m) (message0\<lparr>msg_Type := msg_Type m\<rparr>) = (None, m)"
    by (rule fill_body [OF w(1)]) (simp_all add: message0_def)
  moreover have "body m = [] \<Longrightarrow> message0\<lparr>msg_Type := msg_Type m\<rparr> = m"
    using w(1) by (auto simp: body_def normal_def message0_def request_payload_def split: if_splits intro!: message_eqI)
  ultimately show ?thesis using assms(2) w(2,3) h by (subst Decode_nat) (simp_all add: Let_def)
qed

lemma Decode_torn:
  assumes "wire_ok mx m" "strict_prefix p (Marshal m)"
  shows "Decode p spare mx out = Returns (Inl ErrShortRead, out)"
proof (cases "length p < 5")
  case False
  have w: "1 + length (body m) \<le> unat mx" "5 + length (body m) < 2 ^ 32" using assms(1) by (simp_all add: wire_ok_def)
  obtain q where q: "Marshal m = p @ q" "q \<noteq> []" using assms(2) by (auto simp: strict_prefix_def prefix_def)
  have h: "be_nat (take 4 (Marshal m)) = 1 + length (body m)" "length (Marshal m) = 5 + length (body m)"
    using frame_head(1) [of "body m" "msg_Type m" "[]"] frame_head(4) [of "body m" "msg_Type m"] w(2) by (simp_all add: Marshal_body)
  have "length p + length q = 5 + length (body m)" "0 < length q" using q h(2) by (metis length_append, simp)
  then have "length p < 5 + length (body m)" by linarith
  moreover have "be_nat (take 4 p) = 1 + length (body m)" using h(1) q(1) False by simp
  ultimately show ?thesis using w False by (subst Decode_nat) (simp_all add: Let_def)
qed (simp add: Decode_def)

section \<open>Streams of frames\<close>

definition unmarshal_dec :: "bytes \<Rightarrow> (message \<times> nat) option" where
  "unmarshal_dec b =
     (case Unmarshal b of Returns (Inr m, r) \<Rightarrow> Some (m, length b - length r) | _ \<Rightarrow> None)"

definition frame_dec :: "uint64 \<Rightarrow> bytes \<Rightarrow> (message \<times> nat) option" where
  "frame_dec mx b = (case Decode b [] mx message0 of Returns (Inr n, m) \<Rightarrow> Some (m, 5 + n) | _ \<Rightarrow> None)"

lemma Unmarshal_frame:
  assumes "normal m" "5 + length (body m) < 2 ^ 32"
  shows "Unmarshal (Marshal m @ rest) = Returns (Inr m, rest)"
proof -
  let ?l = "be_bytes 4 (1 + length (body m))"
  have "ReadFull 4 (Marshal m @ rest) = Some (?l, msg_Type m # body m @ rest)"
    by (simp add: ReadFull_def Marshal_body frame_def)
  moreover have "be_nat ?l = 1 + length (body m)" using assms(2) by (intro be_nat_id) simp
  moreover have "ReadFull (1 + length (body m)) (msg_Type m # body m @ rest) = Some (msg_Type m # body m, rest)"
    by (simp add: ReadFull_def)
  moreover have "fill_payload (body m) (message0\<lparr>msg_Type := msg_Type m\<rparr>) = (None, m)"
    by (rule fill_body [OF assms(1)]) (simp_all add: message0_def)
  ultimately show ?thesis
    unfolding Unmarshal_def fill_payload_def by (auto simp: Let_def split: if_splits)
qed

lemma Unmarshal_torn:
  assumes "5 + length (body m) < 2 ^ 32" "strict_prefix p (Marshal m)"
  shows "Unmarshal p = Returns (Inl ErrEOF, [])"
proof (cases "length p < 4")
  case False
  obtain q where q: "Marshal m = p @ q" "q \<noteq> []" using assms(2) by (auto simp: strict_prefix_def prefix_def)
  have h: "be_nat (take 4 (Marshal m)) = 1 + length (body m)" "length (Marshal m) = 5 + length (body m)"
    using frame_head(1) [of "body m" "msg_Type m" "[]"] frame_head(4) [of "body m" "msg_Type m"] assms(1) by (simp_all add: Marshal_body)
  have "length p + length q = 5 + length (body m)" "0 < length q" using q h(2) by (metis length_append, simp)
  then have "length p - 4 < 1 + length (body m)" by linarith
  moreover have "be_nat (take 4 p) = 1 + length (body m)" using h(1) q(1) False by simp
  ultimately show ?thesis using False by (auto simp: Unmarshal_def ReadFull_def Let_def)
qed (simp add: Unmarshal_def ReadFull_def)

interpretation ucodec: stream_codec Marshal unmarshal_dec "wire_ok mx" for mx
proof unfold_locales
  fix m rest assume w: "wire_ok mx m"
  then show "unmarshal_dec (Marshal m @ rest) = Some (m, length (Marshal m))"
    using Unmarshal_frame [of m rest] by (simp add: unmarshal_dec_def wire_ok_def)
  show "Marshal m \<noteq> []" by (simp add: Marshal_def frame_def)
  fix p assume "strict_prefix p (Marshal m)"
  with w show "unmarshal_dec p = None" using Unmarshal_torn [of m p] by (simp add: unmarshal_dec_def wire_ok_def)
qed

lemma frame_dec_stream:
  assumes "list_all (wire_ok mx) ms" "frame_dec mx p = None" "length (concat (map Marshal ms) @ p) < 2 ^ 32"
  shows "decode_all (frame_dec mx) (concat (map Marshal ms) @ p) = (ms, p)"
  using assms(1,3)
proof (induction ms)
  case Nil
  then show ?case using assms(2) by (subst decode_all.simps) simp
next
  case (Cons m ms)
  have len: "length (Marshal m) = 5 + length (body m)"
    using frame_head(4) [of "body m" "msg_Type m"] Cons.prems(1) by (simp add: Marshal_body wire_ok_def)
  have "frame_dec mx (Marshal m @ concat (map Marshal ms) @ p) = Some (m, 5 + length (body m))"
    using Decode_frame [of mx m "concat (map Marshal ms) @ p" "[]"] Cons.prems by (simp add: frame_dec_def)
  with Cons len show ?case by (subst decode_all.simps) simp
qed

text \<open>
  C19. A stream of frames is read back as it was written: whatever messages are marshalled one
  behind another, and wherever the last one is cut off, both the blocking reader of the client and
  the buffer decoder of the server deliver exactly the complete messages, in order, and leave the
  incomplete tail for later.
\<close>

theorem frame_stream_round_trip:
  assumes "list_all (wire_ok mx) ms" "tail = [] \<or> (wire_ok mx m \<and> strict_prefix tail (Marshal m))"
    and "length (concat (map Marshal ms) @ tail) < 2 ^ 32"
  shows "decode_all (frame_dec mx) (concat (map Marshal ms) @ tail) = (ms, tail) \<and>
      decode_all unmarshal_dec (concat (map Marshal ms) @ tail) = (ms, tail)"
proof
  have "frame_dec mx tail = None"
    using assms(2) Decode_torn [of mx m tail "[]" message0] by (auto simp: frame_dec_def Decode_def)
  with assms(1,3) show "decode_all (frame_dec mx) (concat (map Marshal ms) @ tail) = (ms, tail)" by (blast intro: frame_dec_stream)
  have "ucodec.torn mx tail" using assms(2) by (auto simp: ucodec.torn_def)
  then show "decode_all unmarshal_dec (concat (map Marshal ms) @ tail) = (ms, tail)"
    using assms(1) by (intro ucodec.decode_all_enc) (simp_all add: unmarshal_dec_def Unmarshal_def ReadFull_def)
qed

definition sample_set :: message where
  "sample_set = (let m = \<lparr>msg_Type = MsgRequest, msg_Op = OpSet, msg_TTL = - 1, msg_Key = ''k'', msg_Value = ''value'', msg_Payload = []\<rparr>
     in m\<lparr>msg_Payload := request_payload m\<rparr>)"

definition sample_ping :: message where
  "sample_ping = message0"

lemma sample_frames_ok: "wire_ok 1024 sample_set" "wire_ok 1024 sample_ping"
  by (simp_all add: wire_ok_def normal_def body_def sample_set_def sample_ping_def message0_def msg_types request_payload_def Let_def)

theorem frame_stream_round_trip_witness:
  "decode_all (frame_dec 1024) (concat (map Marshal [sample_ping, sample_set]) @ take 7 (Marshal sample_set)) =
     ([sample_ping, sample_set], take 7 (Marshal sample_set))"
proof -
  have len: "length (Marshal sample_set) = 22" "length (Marshal sample_ping) = 5"
    by (simp_all add: Marshal_def frame_def sample_set_def sample_ping_def message0_def msg_types request_payload_def Let_def)
  then have "length (take 7 (Marshal sample_set)) \<noteq> length (Marshal sample_set)" by simp
  then have "strict_prefix (take 7 (Marshal sample_set)) (Marshal sample_set)"
    unfolding strict_prefix_def using take_is_prefix by metis
  then show ?thesis
    using frame_stream_round_trip [of 1024 "[sample_ping, sample_set]" "take 7 (Marshal sample_set)" sample_set] sample_frames_ok len
    by (simp add: len)
qed

section \<open>Bounds, agreement and panics\<close>

lemma Decode_too_long:
  assumes "5 \<le> length d" "unat mx < be_nat (take 4 d)"
  shows "Decode d spare mx out = Returns (Inl ErrTooLong, out)"
proof -
  let ?len = "of_nat (be_nat (take 4 d)) :: uint32"
  have len: "unat ?len = be_nat (take 4 d)" using assms(1) by (intro len_word) simp
  then have "?len \<noteq> 0" using assms(2) by (metis not_less_zero unat_0)
  moreover have "ucast ?len > mx" using assms(2) by (simp only: word_less_nat_alt unat_ucast64 len)
  ultimately show ?thesis using assms(1) by (simp add: Decode_def Let_def)
qed

lemma fill_payload_facts:
  assumes "fill_payload raw out = (fe, fm)"
  shows "fe \<noteq> Some ErrShortRead" "msg_Type fm = msg_Type out"
    "fe = None \<Longrightarrow> msg_Type out = MsgRequest \<Longrightarrow> 11 \<le> length raw \<and> take 11 raw @ msg_Key fm @ msg_Value fm = raw"
proof -
  have "take (key_len raw) (drop 11 raw) @ drop (11 + key_len raw) raw = drop 11 raw"
    by (subst add.commute, subst drop_drop [symmetric], rule append_take_drop_id)
  then show "fe = None \<Longrightarrow> msg_Type out = MsgRequest \<Longrightarrow> 11 \<le> length raw \<and> take 11 raw @ msg_Key fm @ msg_Value fm = raw"
    using assms by (auto simp: fill_payload_def Let_def fill_request_def split_key_def split: if_splits)
qed (use assms in \<open>auto simp: fill_payload_def Let_def fill_request_def split_key_def split: if_splits\<close>)

text \<open>
  C20. With a message limit below four gigabytes \<^verbatim>\<open>Decode\<close> is safe on every input: it
  never panics, a frame it accepts lies wholly inside the buffer and within the limit, key and value
  of a request are the rest of the payload behind its eleven fixed bytes, and when the buffer is too
  short for the announced frame it asks for more without touching the message.
\<close>

theorem Decode_in_bounds:
  assumes "length d < 2 ^ 32" "unat mx + 4 < 2 ^ 32"
  shows "\<exists>r m. Decode d spare mx out = Returns (r, m) \<and>
      (case r of
         Inr n \<Rightarrow> 5 + n \<le> length d \<and> n < unat mx \<and> msg_Type m = d ! 4 \<and>
           (0 < n \<and> msg_Type m = MsgRequest \<longrightarrow> take 11 (drop 5 d) @ msg_Key m @ msg_Value m = take n (drop 5 d))
       | Inl err \<Rightarrow> err = ErrShortRead \<longrightarrow> m = out \<and> (length d < 5 \<or> length d < be_nat (take 4 d) + 4))"
proof (cases "length d < 5")
  case False
  show ?thesis
  proof (cases "be_nat (take 4 d) + 4 < 2 ^ 32")
    case small: True
    let ?len = "be_nat (take 4 d)" and ?raw = "take (be_nat (take 4 d) - 1) (drop 5 d)"
    obtain fe fm where f: "fill_payload ?raw (out\<lparr>msg_Type := d ! 4\<rparr>) = (fe, fm)" by fastforce
    note facts = fill_payload_facts [OF f]
    have t: "11 \<le> length ?raw \<Longrightarrow> take 11 ?raw = take 11 (drop 5 d)" by simp
    have dec: "Decode d spare mx out =
        (if ?len = 0 then Returns (Inl ErrZeroLength, out)
         else if unat mx < ?len then Returns (Inl ErrTooLong, out)
         else if length d < ?len + 4 then Returns (Inl ErrShortRead, out)
         else if ?len = 1 then Returns (Inr 0, out\<lparr>msg_Type := d ! 4\<rparr>)
         else Returns (case fe of None \<Rightarrow> Inr (?len - 1) | Some err \<Rightarrow> Inl err, fm))"
      using False assms(1) small f by (subst Decode_nat) (simp_all add: Let_def split: option.split)
    consider "?len = 0 \<or> unat mx < ?len \<or> length d < ?len + 4 \<or> ?len = 1" | "1 < ?len" "?len \<le> unat mx" "?len + 4 \<le> length d"
      by linarith
    then show ?thesis
    proof cases
      case 1
      then show ?thesis unfolding dec using False by auto
    next
      case 2
      then have "Decode d spare mx out = Returns (case fe of None \<Rightarrow> Inr (?len - 1) | Some err \<Rightarrow> Inl err, fm)"
        unfolding dec by simp
      with 2 facts t show ?thesis by (cases fe) auto
    qed
  next
    case big: False
    then have "Decode d spare mx out = Returns (Inl ErrTooLong, out)" using False assms(2) by (intro Decode_too_long) simp_all
    then show ?thesis by simp
  qed
qed (simp add: Decode_def)

text \<open>
  The three readers agree: a frame the server's \<^verbatim>\<open>Decode\<close> accepts is read by the
  client's \<^verbatim>\<open>Unmarshal\<close> and \<^verbatim>\<open>Read\<close> as the same message, and they take the
  same bytes off the stream (an empty request, which only \<^verbatim>\<open>Decode\<close> accepts, apart).
\<close>

theorem readers_agree:
  assumes "length d < 2 ^ 32" "unat mx + 4 < 2 ^ 32" "Decode d [] mx message0 = Returns (Inr n, m)"
    and "0 < n \<or> d ! 4 \<noteq> MsgRequest" "n < bufLen" "bufLen < 2 ^ 32"
  shows "Unmarshal d = Returns (Inr m, drop (5 + n) d) \<and> Read d bufLen message0 = (None, m, drop (5 + n) d)"
proof -
  have five: "5 \<le> length d" using assms(3) by (auto simp: Decode_def split: if_splits)
  let ?len = "be_nat (take 4 d)" and ?m = "message0\<lparr>msg_Type := d ! 4\<rparr>"
  have small: "?len + 4 < 2 ^ 32"
    using Decode_too_long [OF five, of mx "[]" message0] assms(2,3) by (cases "unat mx < ?len") auto
  have dec: "?len \<noteq> 0" "?len + 4 \<le> length d" "n = ?len - 1" "fill_payload (take n (drop 5 d)) ?m = (None, m)"
    using assms(3,4) unfolding Decode_nat [OF five assms(1) small] Let_def
    by (auto simp: fill_payload_def message0_def split: if_splits prod.splits option.splits)
  have r4: "ReadFull 4 d = Some (take 4 d, drop 4 d)" using five by (simp add: ReadFull_def)
  have d4: "drop 4 d = d ! 4 # drop 5 d" using five Cons_nth_drop_Suc [of 4 d] by (simp add: eval_nat_numeral)
  have "take ?len (drop 4 d) = d ! 4 # take n (drop 5 d)" unfolding d4 dec(3) using dec(1) by (cases ?len) auto
  moreover have "drop ?len (drop 4 d) = drop (5 + n) d" using dec(1,3) by (simp add: add.commute)
  ultimately have rl: "ReadFull ?len (drop 4 d) = Some (d ! 4 # take n (drop 5 d), drop (5 + n) d)"
    using dec(2) by (simp add: ReadFull_def)
  have "unat (of_nat bufLen :: uint32) = bufLen" "unat (of_nat ?len :: uint32) = ?len"
    using assms(6) small by (simp_all add: unat_of_nat_less)
  then have buf: "\<not> (of_nat bufLen :: uint32) < of_nat ?len" using dec(1,3) assms(5) by (simp add: word_less_nat_alt)
  show ?thesis
    using dec(1,4) unfolding Unmarshal_def Read_def r4 option.case prod.case Let_def rl if_not_P [OF dec(1)] if_not_P [OF buf]
    by (auto simp: fill_payload_def Let_def split: if_splits)
qed

theorem readers_agree_witness:
  "Unmarshal (Marshal sample_set) = Returns (Inr sample_set, []) \<and> Read (Marshal sample_set) 64 message0 = (None, sample_set, [])"
proof -
  have len: "length (Marshal sample_set) = 22" "length (body sample_set) = 17"
    by (simp_all add: Marshal_def body_def frame_def sample_set_def msg_types request_payload_def Let_def)
  have "Decode (Marshal sample_set) [] 1024 message0 = Returns (Inr 17, sample_set)"
    using Decode_frame [of 1024 sample_set "[]" "[]"] sample_frames_ok(1) len by simp
  then show ?thesis using readers_agree [of "Marshal sample_set" 1024 17 sample_set 64] len by simp
qed

theorem Decode_in_bounds_witness:
  "\<exists>r m. Decode ''abcdefgh'' [] 1024 message0 = Returns (r, m)"
  using Decode_in_bounds [of "''abcdefgh''" 1024 "[]" message0] by auto

text \<open>
  \<^verbatim>\<open>Unmarshal\<close> trusts the key length of a request: a frame whose key length exceeds
  its payload makes it panic, where \<^verbatim>\<open>Decode\<close> and \<^verbatim>\<open>Read\<close> report a malformed frame.
\<close>

theorem Unmarshal_panics:
  assumes "length raw + 5 < 2 ^ 32" "11 \<le> length raw" "length raw < 11 + key_len raw"
  shows "Unmarshal (frame MsgRequest raw @ rest) = Panics \<and>
      fst (Read (frame MsgRequest raw @ rest) (Suc (length raw)) message0) = Some ErrMalformedFrame"
proof -
  let ?l = "be_bytes 4 (1 + length raw)"
  have "ReadFull 4 (frame MsgRequest raw @ rest) = Some (?l, MsgRequest # raw @ rest)"
    by (simp add: ReadFull_def frame_def)
  moreover have "be_nat ?l = 1 + length raw" using assms(1) by (intro be_nat_id) simp
  moreover have "ReadFull (1 + length raw) (MsgRequest # raw @ rest) = Some (MsgRequest # raw, rest)"
    by (simp add: ReadFull_def)
  ultimately show ?thesis
    using assms by (simp add: Unmarshal_def Read_def Let_def fill_payload_def fill_request_def)
qed

theorem Unmarshal_panics_witness:
  "Unmarshal (frame MsgRequest (CHR 0x01 # CHR 0xFF # CHR 0xFF # ''abcdefgh'')) = Panics"
proof -
  have "key_len (CHR 0x01 # CHR 0xFF # CHR 0xFF # ''abcdefgh'') = 65535" by (simp add: key_len_def be_nat_def)
  then show ?thesis using Unmarshal_panics [of "CHR 0x01 # CHR 0xFF # CHR 0xFF # ''abcdefgh''" "[]"] by simp
qed

end
