(* ===== verification/Admin_Codec.thy ===== *)
theory Admin_Codec
  imports Tellstone_Prelude
begin

text \<open>
  The payloads of the administration operations of the binary protocol,
  \<^verbatim>\<open>src/internal/network/role.go\<close> and \<^verbatim>\<open>acl.go\<close>: counted lists of tokens
  with two-byte lengths. A position in a payload is the bytes from there on. The locale
  \<open>token_codec\<close> is the contract of one field; records and lists of fields inherit it.
\<close>

definition MaxUint16 :: nat where "MaxUint16 = 65535"

section \<open>Fields and lists of fields\<close>

locale token_codec =
  fixes enc :: "'a \<Rightarrow> bytes option" and dec :: "bytes \<Rightarrow> ('a \<times> bytes) option"
  assumes dec_enc: "enc x = Some b \<Longrightarrow> dec (b @ rest) = Some (x, rest)"

fun enc_seq :: "('a \<Rightarrow> bytes option) \<Rightarrow> 'a list \<Rightarrow> bytes option" where
  "enc_seq enc [] = Some []"
| "enc_seq enc (x # xs) = (case enc x of None \<Rightarrow> None | Some b \<Rightarrow> map_option (\<lambda>bs. b @ bs) (enc_seq enc xs))"

fun dec_seq :: "(bytes \<Rightarrow> ('a \<times> bytes) option) \<Rightarrow> nat \<Rightarrow> bytes \<Rightarrow> ('a list \<times> bytes) option" where
  "dec_seq dec 0 p = Some ([], p)"
| "dec_seq dec (Suc n) p =
     (case dec p of None \<Rightarrow> None | Some (x, p') \<Rightarrow> map_option (\<lambda>(xs, q). (x # xs, q)) (dec_seq dec n p'))"

definition enc_list :: "('a \<Rightarrow> bytes option) \<Rightarrow> 'a list \<Rightarrow> bytes option" where
  "enc_list enc xs =
     (if MaxUint16 < length xs then None else map_option (\<lambda>b. be_bytes 2 (length xs) @ b) (enc_seq enc xs))"

definition dec_list :: "(bytes \<Rightarrow> ('a \<times> bytes) option) \<Rightarrow> bytes \<Rightarrow> ('a list \<times> bytes) option" where
  "dec_list dec p = (if length p < 2 then None else dec_seq dec (be_nat (take 2 p)) (drop 2 p))"

text \<open>A whole payload is one list with nothing behind it.\<close>

definition dec_whole :: "(bytes \<Rightarrow> ('a \<times> bytes) option) \<Rightarrow> bytes \<Rightarrow> 'a list option" where
  "dec_whole dec p = (case dec_list dec p of Some (xs, []) \<Rightarrow> Some xs | _ \<Rightarrow> None)"

lemma enc_seq_None_iff: "enc_seq enc xs = None \<longleftrightarrow> (\<exists>x\<in>set xs. enc x = None)"
  by (induction xs) (auto split: option.splits)

lemma enc_list_None_iff: "enc_list enc xs = None \<longleftrightarrow> MaxUint16 < length xs \<or> (\<exists>x\<in>set xs. enc x = None)"
  by (auto simp: enc_list_def enc_seq_None_iff)

context token_codec
begin

lemma dec_enc_seq: "enc_seq enc xs = Some b \<Longrightarrow> dec_seq dec (length xs) (b @ rest) = Some (xs, rest)"
proof (induction xs arbitrary: b)
  case (Cons x xs)
  then obtain b1 b2 where b: "enc x = Some b1" "enc_seq enc xs = Some b2" "b = b1 @ b2" by (auto split: option.splits)
  with Cons.IH dec_enc [of x b1 "b2 @ rest"] show ?case by simp
qed simp

lemma dec_enc_list: "enc_list enc xs = Some b \<Longrightarrow> dec_list dec (b @ rest) = Some (xs, rest)"
  using dec_enc_seq by (auto simp: enc_list_def dec_list_def be_nat_id MaxUint16_def split: if_splits)

lemma dec_enc_whole: "enc_list enc xs = Some b \<Longrightarrow> dec_whole dec b = Some xs"
  using dec_enc_list [of xs b "[]"] by (simp add: dec_whole_def)

end

section \<open>The codecs\<close>

definition enc_tok :: "bytes \<Rightarrow> bytes option" where
  "enc_tok b = (if MaxUint16 < length b then None else Some (be_bytes 2 (length b) @ b))"

definition decodeU16String :: "bytes \<Rightarrow> (bytes \<times> bytes) option" where
  "decodeU16String p =
     (if length p < 2 then None
      else let n = be_nat (take 2 p); p1 = drop 2 p in
        if length p1 < n then None else Some (take n p1, drop n p1))"

interpretation toks: token_codec enc_tok decodeU16String
  by unfold_locales (auto simp: enc_tok_def decodeU16String_def Let_def be_nat_id MaxUint16_def split: if_splits)

definition EncodeRoleArgs :: "bytes list \<Rightarrow> bytes option" where
  "EncodeRoleArgs as = enc_list enc_tok as"

definition DecodeRoleArgs :: "bytes \<Rightarrow> bytes list option" where
  "DecodeRoleArgs p = dec_whole decodeU16String p"

record role_user =
  ru_Role :: string
  ru_HasPass :: bool

definition pass_byte :: "bool \<Rightarrow> char" where
  "pass_byte b = (if b then CHR 0x01 else CHR 0x00)"

definition EncodeRoleGetUserResponse :: "role_user \<Rightarrow> bytes" where
  "EncodeRoleGetUserResponse u = be_bytes 2 (length (ru_Role u)) @ ru_Role u @ [pass_byte (ru_HasPass u)]"

definition DecodeRoleGetUserResponse :: "bytes \<Rightarrow> role_user option" where
  "DecodeRoleGetUserResponse p =
     (if length p < 3 then None
      else let n = be_nat (take 2 p) in
        if 2 + n + 1 \<noteq> length p then None
        else Some \<lparr>ru_Role = take n (drop 2 p), ru_HasPass = (p ! (2 + n) = CHR 0x01)\<rparr>)"

definition encodeList :: "bytes \<Rightarrow> bytes list \<Rightarrow> bytes option" where
  "encodeList buf xs = map_option (\<lambda>b. buf @ b) (enc_list enc_tok xs)"

definition decodeStringList :: "bytes \<Rightarrow> (bytes list \<times> bytes) option" where
  "decodeStringList p = dec_list decodeU16String p"

definition decodeByteList :: "bytes \<Rightarrow> (bytes list \<times> bytes) option" where
  "decodeByteList p = dec_list decodeU16String p"

record role_entry =
  re_Name :: string
  re_Commands :: "string list"
  re_Namespaces :: "bytes list"

definition enc_role_entry :: "role_entry \<Rightarrow> bytes option" where
  "enc_role_entry e =
     (case enc_tok (re_Name e) of
        None \<Rightarrow> None
      | Some buf \<Rightarrow> (case encodeList buf (re_Commands e) of None \<Rightarrow> None | Some buf1 \<Rightarrow> encodeList buf1 (re_Namespaces e)))"

definition dec_role_entry :: "bytes \<Rightarrow> (role_entry \<times> bytes) option" where
  "dec_role_entry p =
     (case decodeU16String p of
        None \<Rightarrow> None
      | Some (name, p1) \<Rightarrow>
          (case decodeStringList p1 of
             None \<Rightarrow> None
           | Some (cmds, p2) \<Rightarrow>
               map_option (\<lambda>(ns, p3). (\<lparr>re_Name = name, re_Commands = cmds, re_Namespaces = ns\<rparr>, p3)) (decodeByteList p2)))"

definition EncodeRoleListResponse :: "role_entry list \<Rightarrow> bytes option" where
  "EncodeRoleListResponse es = enc_list enc_role_entry es"

definition DecodeRoleListResponse :: "bytes \<Rightarrow> role_entry list option" where
  "DecodeRoleListResponse p = dec_whole dec_role_entry p"

record acl_user =
  au_Username :: string
  au_Role :: string
  au_HasPass :: bool
  au_Commands :: "string list"
  au_Namespaces :: "bytes list"

definition enc_acl_user :: "acl_user \<Rightarrow> bytes option" where
  "enc_acl_user u =
     (case enc_tok (au_Username u) of
        None \<Rightarrow> None
      | Some b1 \<Rightarrow>
          (case enc_tok (au_Role u) of
             None \<Rightarrow> None
           | Some b2 \<Rightarrow>
               (case encodeList (b1 @ b2 @ [pass_byte (au_HasPass u)]) (au_Commands u) of
                  None \<Rightarrow> None
                | Some buf \<Rightarrow> encodeList buf (au_Namespaces u))))"

definition dec_acl_user :: "bytes \<Rightarrow> (acl_user \<times> bytes) option" where
  "dec_acl_user p =
     (case decodeU16String p of
        None \<Rightarrow> None
      | Some (name, p1) \<Rightarrow>
          (case decodeU16String p1 of
             None \<Rightarrow> None
           | Some (role, p2) \<Rightarrow>
               (case p2 of
                  [] \<Rightarrow> None
                | c # p3 \<Rightarrow>
                    (case decodeStringList p3 of
                       None \<Rightarrow> None
                     | Some (cmds, p4) \<Rightarrow>
                         map_option (\<lambda>(ns, p5). (\<lparr>au_Username = name, au_Role = role, au_HasPass = (c = CHR 0x01),
                           au_Commands = cmds, au_Namespaces = ns\<rparr>, p5)) (decodeByteList p4)))))"

definition EncodeACLListResponse :: "acl_user list \<Rightarrow> bytes option" where
  "EncodeACLListResponse us = enc_list enc_acl_user us"

definition DecodeACLListResponse :: "bytes \<Rightarrow> acl_user list option" where
  "DecodeACLListResponse p = dec_whole dec_acl_user p"

record log_row =
  lr_Timestamp :: string
  lr_Username :: string
  lr_RemoteAddr :: string
  lr_Reason :: string

definition enc_log_row :: "log_row \<Rightarrow> bytes option" where
  "enc_log_row e = enc_seq enc_tok [lr_Timestamp e, lr_Username e, lr_RemoteAddr e, lr_Reason e]"

definition dec_log_row :: "bytes \<Rightarrow> (log_row \<times> bytes) option" where
  "dec_log_row p =
     (case dec_seq decodeU16String 4 p of
        Some ([ts, u, a, r], q) \<Rightarrow> Some (\<lparr>lr_Timestamp = ts, lr_Username = u, lr_RemoteAddr = a, lr_Reason = r\<rparr>, q)
      | _ \<Rightarrow> None)"

definition EncodeACLLogResponse :: "log_row list \<Rightarrow> bytes option" where
  "EncodeACLLogResponse es = enc_list enc_log_row es"

definition DecodeACLLogResponse :: "bytes \<Rightarrow> log_row list option" where
  "DecodeACLLogResponse p = dec_whole dec_log_row p"

section \<open>Round trips\<close>

lemma encodeList_Some: "encodeList buf xs = Some b \<longleftrightarrow> (\<exists>c. enc_list enc_tok xs = Some c \<and> b = buf @ c)"
  by (auto simp: encodeList_def)

interpretation roles: token_codec enc_role_entry dec_role_entry
  by unfold_locales
    (auto simp: enc_role_entry_def dec_role_entry_def encodeList_Some toks.dec_enc toks.dec_enc_list decodeStringList_def
      decodeByteList_def split: option.splits)

interpretation users: token_codec enc_acl_user dec_acl_user
  by unfold_locales
    (auto simp: enc_acl_user_def dec_acl_user_def encodeList_Some toks.dec_enc toks.dec_enc_list decodeStringList_def
      decodeByteList_def pass_byte_def split: option.splits)

interpretation rows: token_codec enc_log_row dec_log_row
proof unfold_locales
  fix e b rest assume "enc_log_row e = Some b"
  then have "dec_seq decodeU16String (length [lr_Timestamp e, lr_Username e, lr_RemoteAddr e, lr_Reason e]) (b @ rest) =
      Some ([lr_Timestamp e, lr_Username e, lr_RemoteAddr e, lr_Reason e], rest)"
    unfolding enc_log_row_def by (rule toks.dec_enc_seq)
  then show "dec_log_row (b @ rest) = Some (e, rest)" by (simp add: dec_log_row_def eval_nat_numeral del: dec_seq.simps)
qed

lemma enc_log_row_None_iff:
  "enc_log_row e = None \<longleftrightarrow> (\<exists>f\<in>{lr_Timestamp e, lr_Username e, lr_RemoteAddr e, lr_Reason e}. MaxUint16 < length f)"
  by (auto simp: enc_log_row_def enc_tok_def split: if_splits)



end
