(* ===== verification/Binary_Handler.thy ===== *)
theory Binary_Handler
  imports Frontend Binary_Protocol Admin_Codec
begin

text \<open>
  The data and administration handlers of the binary front end: \<^verbatim>\<open>networkHandler\<close> and the
  ROLE and ACL operations of \<^verbatim>\<open>src/server/server.go\<close>, and the reply encoder
  \<^verbatim>\<open>src/internal/network/binaryreply.go\<close>. The data commands run through the command
  layer on the sharded store. The text of an error and the rendering of a time in the server's time
  zone are part of the environment, as is the password hash function.
\<close>

section \<open>Replies\<close>

definition ResponseOK :: bytes where "ResponseOK = ''OK''"
definition ResponseNotFound :: bytes where "ResponseNotFound = ''NOT_FOUND''"
definition ResponseEmptyKey :: bytes where "ResponseEmptyKey = ''EMPTY_KEY''"
definition ResponseStorageFailure :: bytes where "ResponseStorageFailure = ''STORAGE_FAILURE''"
definition ResponseInvalidOpCode :: bytes where "ResponseInvalidOpCode = ''INVALID_OPCODE''"
definition ResponseAuthErr :: bytes where "ResponseAuthErr = ''INVALID_AUTH''"
definition ResponseNotAuthorized :: bytes where "ResponseNotAuthorized = ''NOT_AUTHORIZED''"

type_synonym bin_reply = "bytes option \<times> char"

text \<open>A pooled reply that no handler filled stays as \<^verbatim>\<open>Reset\<close> left it.\<close>

definition BinaryReply :: "'err reply option \<Rightarrow> bin_reply" where
  "BinaryReply r =
     (case r of
        None \<Rightarrow> (None, CHR 0x00)
      | Some RepOK \<Rightarrow> (Some ResponseOK, MsgResponse)
      | Some (RepBulk b) \<Rightarrow> (Some b, MsgResponse)
      | Some RepNull \<Rightarrow> (Some ResponseNotFound, MsgError)
      | Some (RepInt n) \<Rightarrow> (Some ResponseOK, MsgResponse)
      | Some (RepDenied cmd) \<Rightarrow> (Some ResponseNotAuthorized, MsgError)
      | Some (RepErrorMsg s) \<Rightarrow> (Some s, MsgError)
      | Some (RepStorageErr err) \<Rightarrow> (Some ResponseStorageFailure, MsgError))"

definition roleReply :: "front_env \<Rightarrow> rbac_error option \<Rightarrow> bin_reply" where
  "roleReply v r = (case r of None \<Rightarrow> (Some ResponseOK, MsgResponse) | Some err \<Rightarrow> (Some (error_text v err), MsgError))"

definition replyText :: "string \<Rightarrow> bin_reply" where
  "replyText s = (Some s, MsgError)"

section \<open>Administration\<close>

definition needs_password :: "string \<Rightarrow> string" where
  "needs_password op = op @ '' requires a '' @ [CHR 0x27] @ ''>password'' @ [CHR 0x27] @ '' or '' @ [CHR 0x27] @ ''nopass'' @ [CHR 0x27] @ '' option''"

definition roleCreate :: "front_env \<Rightarrow> message \<Rightarrow> rbac_store \<Rightarrow> bin_reply \<times> rbac_store" where
  "roleCreate v m p =
     (case DecodeRoleArgs (msg_Value m) of
        Some (name # rule # rules) \<Rightarrow> (case CreateRole name (rule # rules) p of (r, p') \<Rightarrow> (roleReply v r, p'))
      | _ \<Rightarrow> (replyText ''invalid ROLE CREATE arguments'', p))"

definition set_user_op :: "string \<Rightarrow> front_env \<Rightarrow> message \<Rightarrow> rbac_store \<Rightarrow> bin_reply \<times> rbac_store" where
  "set_user_op op v m p =
     (case DecodeRoleArgs (msg_Value m) of
        Some (name # role # opts) \<Rightarrow>
          if opts = [] then (replyText (needs_password op), p)
          else (case PasswordFromOpts (hash_pass v) opts of
                  Inl err \<Rightarrow> (roleReply v (Some err), p)
                | Inr h \<Rightarrow> (case SetUser name role h p of (r, p') \<Rightarrow> (roleReply v r, p')))
      | _ \<Rightarrow> (replyText (''invalid '' @ op @ '' arguments''), p))"

definition roleSetUser :: "front_env \<Rightarrow> message \<Rightarrow> rbac_store \<Rightarrow> bin_reply \<times> rbac_store" where
  "roleSetUser = set_user_op ''ROLE SETUSER''"

definition aclSetUser :: "front_env \<Rightarrow> message \<Rightarrow> rbac_store \<Rightarrow> bin_reply \<times> rbac_store" where
  "aclSetUser = set_user_op ''ACL SETUSER''"

definition del_user_op :: "string \<Rightarrow> front_env \<Rightarrow> message \<Rightarrow> rbac_store \<Rightarrow> bin_reply \<times> rbac_store" where
  "del_user_op op v m p =
     (case DecodeRoleArgs (msg_Value m) of
        Some [name] \<Rightarrow> (case DelUser name p of (r, p') \<Rightarrow> (roleReply v r, p'))
      | _ \<Rightarrow> (replyText (''invalid '' @ op @ '' arguments''), p))"

definition roleDelUser :: "front_env \<Rightarrow> message \<Rightarrow> rbac_store \<Rightarrow> bin_reply \<times> rbac_store" where
  "roleDelUser = del_user_op ''ROLE DELUSER''"

definition aclDelUser :: "front_env \<Rightarrow> message \<Rightarrow> rbac_store \<Rightarrow> bin_reply \<times> rbac_store" where
  "aclDelUser = del_user_op ''ACL DELUSER''"

definition roleDelete :: "front_env \<Rightarrow> message \<Rightarrow> rbac_store \<Rightarrow> bin_reply \<times> rbac_store" where
  "roleDelete v m p =
     (case DecodeRoleArgs (msg_Value m) of
        Some [name] \<Rightarrow> (case DeleteRole name p of (r, p') \<Rightarrow> (roleReply v r, p'))
      | _ \<Rightarrow> (replyText ''invalid ROLE DELETE arguments'', p))"

definition roleList :: "rbac_store \<Rightarrow> bin_reply" where
  "roleList p =
     (case active p of
        None \<Rightarrow> replyText ''rbac policy not loaded''
      | Some q \<Rightarrow>
          (let es = map (\<lambda>(n, r). \<lparr>re_Name = n, re_Commands = GrantedCommands r, re_Namespaces = Namespaces r\<rparr>) (Roles q)
           in case EncodeRoleListResponse (sort_key re_Name es) of
                None \<Rightarrow> replyText ''role rule exceeds the 64 KiB wire limit''
              | Some b \<Rightarrow> (Some b, MsgResponse)))"

definition roleGetUser :: "message \<Rightarrow> rbac_store \<Rightarrow> bin_reply" where
  "roleGetUser m p =
     (case DecodeRoleArgs (msg_Value m) of
        Some [name] \<Rightarrow>
          if active p = None then replyText ''rbac policy not loaded''
          else (case UserFor (active p) name of
                  None \<Rightarrow> replyText (''user '' @ [CHR 0x27] @ name @ [CHR 0x27] @ '' does not exist'')
                | Some u \<Rightarrow>
                    (Some (EncodeRoleGetUserResponse \<lparr>ru_Role = user_role u, ru_HasPass = (length (PasswordHash u) > 0)\<rparr>), MsgResponse))
      | _ \<Rightarrow> replyText ''invalid ROLE GETUSER arguments'')"

definition aclList :: "rbac_store \<Rightarrow> bin_reply" where
  "aclList p =
     (case active p of
        None \<Rightarrow> replyText ''rbac policy not loaded''
      | Some q \<Rightarrow>
          (let us = map (\<lambda>(n, u). \<lparr>au_Username = n, au_Role = user_role u, au_HasPass = (length (PasswordHash u) > 0),
                      au_Commands = (case RoleFor (Some q) n of None \<Rightarrow> [] | Some r \<Rightarrow> GrantedCommands r),
                      au_Namespaces = (case RoleFor (Some q) n of None \<Rightarrow> [] | Some r \<Rightarrow> Namespaces r)\<rparr>) (Users q)
           in case EncodeACLListResponse (sort_key au_Username us) of
                None \<Rightarrow> replyText ''acl rule exceeds the 64 KiB wire limit''
              | Some b \<Rightarrow> (Some b, MsgResponse)))"

definition log_row_of :: "front_env \<Rightarrow> auth_entry \<Rightarrow> log_row" where
  "log_row_of v e = \<lparr>lr_Timestamp = format_time v (Timestamp e), lr_Username = entry_user e, lr_RemoteAddr = RemoteAddr e, lr_Reason = Reason e\<rparr>"

definition aclLog :: "front_env \<Rightarrow> rbac_store \<Rightarrow> bin_reply" where
  "aclLog v p =
     (case EncodeACLLogResponse (map (log_row_of v) (AuthLog p)) of
        None \<Rightarrow> replyText ''acl log exceeds the 64 KiB wire limit''
      | Some b \<Rightarrow> (Some b, MsgResponse))"

section \<open>The handler\<close>

definition data_op :: "prims \<Rightarrow> front_env \<Rightarrow> bytes list \<Rightarrow> duration \<Rightarrow> string \<Rightarrow> router \<Rightarrow> (bin_reply \<times> router) go" where
  "data_op P v as ttl remote r =
     go_bind (cmd_Execute (rs_Get P) (rs_Set P) (rs_Delete P) (exec_envs v) (wall_clock v)
         \<lparr>Args = as, ctx_TTL = ttl, Session = None, Remote = remote, Protocol = ''binary''\<rparr> \<lparr>kv = r, pol = None, aud = None\<rparr>)
       (\<lambda>(rep, st). Returns (BinaryReply rep, kv st))"

definition admin_op :: "front_env \<Rightarrow> message \<Rightarrow> rbac_store \<Rightarrow> bin_reply \<times> rbac_store" where
  "admin_op v m p =
     (if msg_Op m = OpRoleCreate then roleCreate v m p
      else if msg_Op m = OpRoleSetUser then roleSetUser v m p
      else if msg_Op m = OpRoleDelUser then roleDelUser v m p
      else if msg_Op m = OpRoleDelete then roleDelete v m p
      else if msg_Op m = OpRoleList then (roleList p, p)
      else if msg_Op m = OpRoleGetUser then (roleGetUser m p, p)
      else if msg_Op m = OpACLSetUser then aclSetUser v m p
      else if msg_Op m = OpACLDelUser then aclDelUser v m p
      else if msg_Op m = OpACLList then (aclList p, p)
      else (aclLog v p, p))"

definition role_ops :: "char list" where
  "role_ops = [OpRoleCreate, OpRoleSetUser, OpRoleDelUser, OpRoleDelete, OpRoleList, OpRoleGetUser]"

definition acl_ops :: "char list" where
  "acl_ops = [OpACLSetUser, OpACLDelUser, OpACLList, OpACLLog]"

definition networkHandler :: "prims \<Rightarrow> front_env \<Rightarrow> message \<Rightarrow> string \<Rightarrow> router \<Rightarrow> rbac_store option \<Rightarrow>
    (bin_reply \<times> router \<times> rbac_store option) go" where
  "networkHandler P v m remote r po =
     (if msg_Type m = MsgPing then Returns ((None, MsgPong), r, po)
      else if msg_Op m = OpGet then
        go_bind (data_op P v [''GET'', msg_Key m] 0 remote r) (\<lambda>(rep, r'). Returns (rep, r', po))
      else if msg_Op m = OpSet then
        (if msg_Key m = [] then Returns ((Some ResponseEmptyKey, MsgError), r, po)
         else go_bind (data_op P v [''SET'', msg_Key m, msg_Value m] (int64 (msg_TTL m * millisecond)) remote r)
                (\<lambda>(rep, r'). Returns (rep, r', po)))
      else if msg_Op m = OpDelete then
        go_bind (data_op P v [''DEL'', msg_Key m] 0 remote r) (\<lambda>(rep, r'). Returns (rep, r', po))
      else if msg_Op m \<in> set (role_ops @ acl_ops) then
        (case po of
           None \<Rightarrow> Returns (replyText ''rbac not enabled'', r, None)
         | Some p \<Rightarrow> (case admin_op v m p of (rep, p') \<Rightarrow> Returns (rep, r, Some p')))
      else Returns ((Some ResponseInvalidOpCode, MsgError), r, po))"

section \<open>One event can hide the ACL LOG\<close>

lemma newest_keeps: "length es < n \<Longrightarrow> e \<in> set (newest n (xs @ e # es))"
  by (auto simp: newest_def in_set_conv_nth nth_append intro!: exI [of _ "length xs - (length xs + Suc (length es) - n)"])

text \<open>
  A single denied command can make the ACL LOG unreadable over the binary protocol: when the
  recorded reason, a fixed text with the command and the whole key, exceeds the two-byte length, the
  operation answers with an error instead of the log until a hundred further events have pushed the
  entry out. A key of 65513 bytes, which a request may carry, is enough.
\<close>

theorem acl_log_suppressed:
  assumes "ring_ok p" "65513 \<le> length key" "length es < DefaultAuthLogCap"
  shows "aclLog v (SeedAuthLog es (LogDenied now usr remote (op_String p') key p)) = replyText ''acl log exceeds the 64 KiB wire limit''"
proof -
  let ?e = "\<lparr>Timestamp = now, entry_user = usr, RemoteAddr = remote, Reason = ''NOPERM command='' @ op_String p' @ '' key='' @ key\<rparr>"
  let ?s = "SeedAuthLog es (LogDenied now usr remote (op_String p') key p)"
  have "?s = SeedAuthLog (?e # es) p" by (simp add: LogDenied_def SeedAuthLog_def)
  then have "AuthLog ?s = newest DefaultAuthLogCap (AuthLog p @ ?e # es)" using seed_log [OF assms(1), of "?e # es"] by simp
  then have "?e \<in> set (AuthLog ?s)" using newest_keeps [OF assms(3)] by metis
  moreover have "MaxUint16 < length (lr_Reason (log_row_of v ?e))"
    using assms(2) by (simp add: MaxUint16_def log_row_of_def op_String_def)
  ultimately have "EncodeACLLogResponse (map (log_row_of v) (AuthLog ?s)) = None"
    by (auto simp: EncodeACLLogResponse_def enc_list_None_iff enc_log_row_None_iff)
  then show ?thesis by (simp add: aclLog_def)
qed

theorem acl_log_suppressed_witness:
  "aclLog sample_env
     (SeedAuthLog [] (LogDenied 0 ''eve'' ''r'' (op_String OpGet) (replicate 65513 (CHR ''k'')) (NewStore None 0))) =
   replyText ''acl log exceeds the 64 KiB wire limit''"
proof -
  have "ring_ok (NewStore None 0)" by (simp add: ring_ok_def NewStore_def)
  then show ?thesis
    using acl_log_suppressed [of "NewStore None 0" "replicate 65513 (CHR ''k'')" "[]"] by (simp add: DefaultAuthLogCap_def)
qed

section \<open>The data operations answer\<close>

lemma data_op_reply:
  assumes "server_exec P (exec_envs v) (wall_clock v)
      \<lparr>Args = as, ctx_TTL = ttl, Session = None, Remote = remote, Protocol = ''binary''\<rparr> \<lparr>kv = r, pol = None, aud = None\<rparr> = Returns (rep, st)"
  shows "data_op P v as ttl remote r = Returns (BinaryReply rep, kv st)"
  using assms by (simp add: data_op_def)

lemma data_op_get:
  assumes "router_ok P r" "exec_ok (exec_envs v 0)"
  shows "\<exists>r'. data_op P v [''GET'', k] ttl remote r =
      Returns (case router_view P r (op_now (exec_envs v 0)) k of None \<Rightarrow> (Some ResponseNotFound, MsgError) | Some x \<Rightarrow> (Some x, MsgResponse), r') \<and>
      router_ok P r' \<and> (\<forall>t\<ge>op_now (exec_envs v 0). router_view P r' t = router_view P r t)"
proof -
  let ?c = "\<lparr>Args = [''GET'', k], ctx_TTL = ttl, Session = None, Remote = remote, Protocol = ''binary''\<rparr>"
    and ?st = "\<lparr>kv = r, pol = None, aud = None\<rparr>"
  obtain st' where "server_exec P (exec_envs v) (wall_clock v) ?c ?st =
      Returns (Some (case router_view P r (op_now (exec_envs v 0)) k of None \<Rightarrow> RepNull | Some x \<Rightarrow> RepBulk x), st')" "router_ok P (kv st')"
    "\<forall>t\<ge>op_now (exec_envs v 0). router_view P (kv st') t = router_view P r t"
    using server_get [where vs = "exec_envs v" and c = ?c and st = ?st and now = "wall_clock v" and k = k] assms by (auto simp: permitted_def)
  with data_op_reply [of P v _ ttl remote r] show ?thesis
    by (intro exI [of _ "kv st'"]) (auto simp: BinaryReply_def split: option.split)
qed

lemma data_op_set:
  assumes "router_ok P r" "exec_ok (exec_envs v 0)"
  shows "\<exists>ok r'. data_op P v [''SET'', k, x] ttl remote r =
      Returns (if ok then (Some ResponseOK, MsgResponse) else (Some ResponseStorageFailure, MsgError), r') \<and> router_ok P r' \<and>
      (\<forall>t\<ge>op_now (exec_envs v 0). router_view P r' t = (if ok then (router_view P r t)(k :=
         if past t (deadline (op_now (exec_envs v 0)) ttl) then None else Some x) else router_view P r t))"
proof -
  let ?c = "\<lparr>Args = [''SET'', k, x], ctx_TTL = ttl, Session = None, Remote = remote, Protocol = ''binary''\<rparr>"
    and ?st = "\<lparr>kv = r, pol = None, aud = None\<rparr>"
  have "router_ok P (kv ?st)" "exec_ok (exec_envs v 0)" "Args ?c = ''SET'' # k # x # []" "length ([] :: bytes list) = 0 \<or> length ([] :: bytes list) = 2"
    "parseSetTTL (Args ?c) = Some 0" "\<forall>cmd. cmd_Lookup ''SET'' = Some cmd \<longrightarrow> permitted ?c cmd ?st"
    using assms by (simp_all add: parseSetTTL_def permitted_def)
  from server_set [where vs = "exec_envs v" and now = "wall_clock v", OF this] obtain err st' where
    s: "server_exec P (exec_envs v) (wall_clock v) ?c ?st = Returns (Some (case err of None \<Rightarrow> RepOK | Some e \<Rightarrow> RepStorageErr e), st')"
    "router_ok P (kv st')" "\<forall>t\<ge>op_now (exec_envs v 0). router_view P (kv st') t = (if err = None then (router_view P (kv ?st) t)(k :=
         if past t (deadline (op_now (exec_envs v 0)) (if (0 :: int) = 0 then ctx_TTL ?c else 0)) then None else Some x) else router_view P (kv ?st) t)"
    by (elim exE conjE) (rule that)
  have "data_op P v [''SET'', k, x] ttl remote r =
      Returns (if err = None then (Some ResponseOK, MsgResponse) else (Some ResponseStorageFailure, MsgError), kv st')"
    using data_op_reply [OF s(1)] by (cases err) (simp_all add: BinaryReply_def)
  moreover have e: "(if (0 :: int) = 0 then ctx_TTL ?c else 0) = ttl" "kv ?st = r" by simp_all
  ultimately show ?thesis using s(2) s(3) [unfolded e] by (intro exI [of _ "err = None"] exI [of _ "kv st'"] conjI)
qed

lemma data_op_del:
  assumes "router_ok P r" "\<forall>i. exec_ok (exec_envs v i) \<and> op_now (exec_envs v i) = t"
  shows "\<exists>r'. data_op P v [''DEL'', k] ttl remote r = Returns ((Some ResponseOK, MsgResponse), r') \<and> router_ok P r' \<and>
      (\<forall>u\<ge>t. router_view P r' u = (router_view P r u)(k := None))"
proof -
  let ?c = "\<lparr>Args = [''DEL'', k], ctx_TTL = ttl, Session = None, Remote = remote, Protocol = ''binary''\<rparr>"
    and ?st = "\<lparr>kv = r, pol = None, aud = None\<rparr>"
  have r: "kv ?st = r" by simp
  have "router_ok P (kv ?st)" "\<forall>i. exec_ok (exec_envs v i) \<and> op_now (exec_envs v i) = t" "Args ?c = ''DEL'' # [k]" "[k] \<noteq> []"
    "\<forall>cmd. cmd_Lookup ''DEL'' = Some cmd \<longrightarrow> permitted ?c cmd ?st"
    using assms by (simp_all add: permitted_def)
  from server_del [where now = "wall_clock v", OF this, unfolded r] obtain n st' where
    s: "server_exec P (exec_envs v) (wall_clock v) ?c ?st = Returns (Some (RepInt n), st')" "router_ok P (kv st')"
    "\<forall>u\<ge>t. router_view P (kv st') u = (\<lambda>j. if j \<in> set [k] then None else router_view P r u j)"
    by (elim exE conjE) (rule that)
  have "(\<lambda>j. if j \<in> set [k] then None else f j) = f(k := None)" for f :: "string \<Rightarrow> bytes option" by auto
  with data_op_reply [OF s(1)] s(2,3) show ?thesis by (intro exI [of _ "kv st'"]) (simp add: BinaryReply_def)
qed

lemma reply_Some [simp]: "\<exists>y. fst (roleReply v r) = Some y" "\<exists>y. fst (replyText t) = Some y"
  by (simp_all add: roleReply_def replyText_def split: option.split)

lemma admin_op_answers: "fst (fst (admin_op v m ps)) \<noteq> None"
proof -
  have "fst (fst (roleCreate v m ps)) \<noteq> None" "fst (fst (set_user_op t v m ps)) \<noteq> None" "fst (fst (del_user_op t v m ps)) \<noteq> None"
    "fst (fst (roleDelete v m ps)) \<noteq> None" "fst (roleList ps) \<noteq> None" "fst (roleGetUser m ps) \<noteq> None" "fst (aclList ps) \<noteq> None"
    "fst (aclLog v ps) \<noteq> None" for t
  proof -
    show "fst (fst (roleCreate v m ps)) \<noteq> None" by (simp add: roleCreate_def split: option.split list.split prod.split)
    show "fst (fst (set_user_op t v m ps)) \<noteq> None" by (simp add: set_user_op_def split: option.split list.split prod.split sum.split)
    show "fst (fst (del_user_op t v m ps)) \<noteq> None" by (simp add: del_user_op_def split: option.split list.split prod.split)
    show "fst (fst (roleDelete v m ps)) \<noteq> None" by (simp add: roleDelete_def split: option.split list.split prod.split)
    show "fst (roleList ps) \<noteq> None" by (simp add: roleList_def Let_def split: option.split)
    show "fst (roleGetUser m ps) \<noteq> None" by (simp add: roleGetUser_def split: option.split list.split)
    show "fst (aclList ps) \<noteq> None" by (simp add: aclList_def Let_def split: option.split)
    show "fst (aclLog v ps) \<noteq> None" by (simp add: aclLog_def split: option.split)
  qed
  then show ?thesis by (simp add: admin_op_def roleSetUser_def aclSetUser_def roleDelUser_def aclDelUser_def)
qed

lemma networkHandler_total:
  assumes "router_ok P r" "\<forall>i. exec_ok (exec_envs v i) \<and> op_now (exec_envs v i) = t" "msg_Type m \<noteq> MsgPing"
  shows "\<exists>p k r' po'. networkHandler P v m remote r po = Returns ((Some p, k), r', po') \<and> router_ok P r'"
proof -
  have e: "exec_ok (exec_envs v 0)" using assms(2) by blast
  have get: "\<exists>p k r'. data_op P v [''GET'', msg_Key m] 0 remote r = Returns ((Some p, k), r') \<and> router_ok P r'"
    using data_op_get [OF assms(1) e, of "msg_Key m" 0 remote] by (auto split: option.splits)
  obtain b r1 where "data_op P v [''SET'', msg_Key m, msg_Value m] (int64 (msg_TTL m * millisecond)) remote r =
      Returns (if b then (Some ResponseOK, MsgResponse) else (Some ResponseStorageFailure, MsgError), r1)" "router_ok P r1"
    using data_op_set [OF assms(1) e] by blast
  then have set: "\<exists>p k r'. data_op P v [''SET'', msg_Key m, msg_Value m] (int64 (msg_TTL m * millisecond)) remote r = Returns ((Some p, k), r') \<and> router_ok P r'"
    by (cases b) auto
  have del: "\<exists>p k r'. data_op P v [''DEL'', msg_Key m] 0 remote r = Returns ((Some p, k), r') \<and> router_ok P r'"
    using data_op_del [OF assms(1,2)] by blast
  have adm: "\<exists>p k r' po'. (case po of None \<Rightarrow> Returns (replyText ''rbac not enabled'', r, None)
         | Some p \<Rightarrow> (case admin_op v m p of (rep, p') \<Rightarrow> Returns (rep, r, Some p'))) = Returns ((Some p, k), r', po') \<and> router_ok P r'"
    using assms(1) admin_op_answers [of v m "the po"]
    by (cases po; cases "admin_op v m (the po)"; cases "fst (admin_op v m (the po))") (auto simp: replyText_def)
  consider "msg_Op m = OpGet" | "msg_Op m = OpSet" | "msg_Op m = OpDelete" | "msg_Op m \<in> set (role_ops @ acl_ops)"
    "msg_Op m \<noteq> OpGet" "msg_Op m \<noteq> OpSet" "msg_Op m \<noteq> OpDelete"
    | "msg_Op m \<notin> set (role_ops @ acl_ops)" "msg_Op m \<noteq> OpGet" "msg_Op m \<noteq> OpSet" "msg_Op m \<noteq> OpDelete" by blast
  then show ?thesis
  proof cases
    case 1
    with get assms(3) show ?thesis by (auto simp: networkHandler_def)
  next
    case 2
    with set assms(1,3) show ?thesis by (cases "msg_Key m = []") (auto simp: networkHandler_def op_codes)
  next
    case 3
    with del assms(3) show ?thesis by (auto simp: networkHandler_def op_codes)
  next
    case 4
    with adm assms(3) show ?thesis unfolding networkHandler_def by simp
  next
    case 5
    with assms show ?thesis by (simp add: networkHandler_def)
  qed
qed

end
