(* ===== verification/Login_Interface.thy ===== *)
theory Login_Interface
  imports Tellstone_Prelude "HOL-Library.Sublist"
begin

text \<open>
  The contract behind the authentication of both front ends. A front end is a step relation on
  worlds labelled with events; the contract says that a step keeps the invariant and that a
  connection is logged in after a step only if it was before or the event granted it. What follows,
  once for every front end: a connection that is logged in was granted it by an earlier event.
\<close>

inductive trace :: "('w \<Rightarrow> 'e \<Rightarrow> 'w \<Rightarrow> bool) \<Rightarrow> 'w \<Rightarrow> 'e list \<Rightarrow> 'w \<Rightarrow> bool" for step where
  trace_none: "trace step w [] w"
| trace_more: "trace step w es w1 \<Longrightarrow> step w1 e w2 \<Longrightarrow> trace step w (es @ [e]) w2"

locale login_system =
  fixes step :: "'w \<Rightarrow> 'e \<Rightarrow> 'w \<Rightarrow> bool" and inv :: "'w \<Rightarrow> bool" and logged_in :: "'w \<Rightarrow> nat \<Rightarrow> bool"
    and grants :: "'w \<Rightarrow> 'e \<Rightarrow> nat \<Rightarrow> bool"
  assumes inv_step: "inv w \<Longrightarrow> step w e w' \<Longrightarrow> inv w'"
    and login_step: "inv w \<Longrightarrow> step w e w' \<Longrightarrow> logged_in w' i \<Longrightarrow> logged_in w i \<or> grants w e i"
begin

lemma trace_inv: "trace step w es w' \<Longrightarrow> inv w \<Longrightarrow> inv w'"
  by (induction rule: trace.induct) (auto intro: inv_step)

lemma logged_in_granted:
  assumes "trace step w0 es w" "inv w0" "\<not> logged_in w0 i" "logged_in w i"
  shows "\<exists>es1 e w1. prefix (es1 @ [e]) es \<and> trace step w0 es1 w1 \<and> inv w1 \<and> grants w1 e i"
  using assms
proof (induction rule: trace.induct)
  case (trace_more w es w1 e w2)
  have inv: "inv w1" using trace_inv trace_more by blast
  show ?case
  proof (cases "logged_in w1 i")
    case True
    with trace_more obtain es1 e' w' where "prefix (es1 @ [e']) es" "trace step w es1 w'" "inv w'" "grants w' e' i" by blast
    then show ?thesis by (metis prefix_prefix)
  next
    case False
    with login_step [OF inv trace_more.hyps(2)] trace_more.prems have "grants w1 e i" by blast
    with trace_more.hyps(1) inv show ?thesis by (metis prefix_order.refl)
  qed
qed simp

end

end
