(* ===== verification/Binary_Server.thy ===== *)
theory Binary_Server
  imports Binary_Handler Login_Interface
begin

text \<open>
  The binary front end, \<^verbatim>\<open>src/internal/network/server.go\<close>: the state of a connection,
  the authentication and permission gates, the execution of a frame, the two read loops (plain and
  over TLS) and the password workers. The bytes the event loop has received and not yet given to the
  server are \<open>inbuf\<close>: the ring buffer of a plain connection, the decrypted bytes of a TLS
  connection. The bytes written to the connection are \<open>outbuf\<close>. A slice the loops hand to the
  decoder has no spare capacity that matters: a frame beyond it is rejected before it is sliced.
\<close>

section \<open>State\<close>

record conn =
  conn_id :: nat
  shardID :: uint64
  authenticated :: bool
  sessionCtx :: "session option"
  remoteAddr :: string
  authFails :: int
  authPending :: bool
  closeAfterReply :: bool
  over_tls :: bool
  readBuf :: bytes
  inbuf :: bytes
  outbuf :: bytes

record bin_server =
  srv_router :: router
  srv_policy :: "rbac_store option"
  srv_audit :: log_engine
  requirePassHash :: bytes
  has_oauth :: bool
  has_tls :: bool
  maxMsgSize :: uint64
  authJobs :: "auth_job list"
  nextConn :: uint64
  srv_connectedClients :: uint64
  srv_totalConnections :: uint64
  srv_bytesRead :: uint64
  srv_bytesWritten :: uint64
  protocolErrors :: uint64
  handlerErrors :: uint64

definition defaultMaxMsgSize :: uint64 where "defaultMaxMsgSize = 16 * 1024 * 1024"

definition maxAuthFails :: int where "maxAuthFails = 3"

definition readBufCap :: nat where "readBufCap = 4096"

text \<open>
  A password for the whole server is only used without a policy; a password bcrypt refuses stops the
  start. An empty hash is no hash.
\<close>

definition NewServer :: "(bytes \<Rightarrow> bytes option) \<Rightarrow> uint64 \<Rightarrow> router \<Rightarrow> bool \<Rightarrow> bytes \<Rightarrow> rbac_store option \<Rightarrow> bool \<Rightarrow> log_engine \<Rightarrow>
    bin_server go" where
  "NewServer hash limit r tls requirePass po oauth au =
     (let srv = \<lparr>srv_router = r, srv_policy = po, srv_audit = au, requirePassHash = [], has_oauth = oauth, has_tls = tls,
            maxMsgSize = (if limit = 0 then defaultMaxMsgSize else limit), authJobs = [], nextConn = 0,
            srv_connectedClients = 0, srv_totalConnections = 0, srv_bytesRead = 0, srv_bytesWritten = 0,
            protocolErrors = 0, handlerErrors = 0\<rparr>
      in if requirePass \<noteq> [] \<and> po = None
         then (case hash requirePass of None \<Rightarrow> Panics | Some h \<Rightarrow> Returns (srv\<lparr>requirePassHash := h\<rparr>))
         else Returns srv)"

definition on_shard :: "uint64 \<Rightarrow> (shard \<Rightarrow> shard) \<Rightarrow> bin_server \<Rightarrow> bin_server" where
  "on_shard sid f srv =
     (let r = srv_router srv; i = unat sid in
      if i < length (shards r) then srv\<lparr>srv_router := r\<lparr>shards := (shards r)[i := f (shards r ! i)]\<rparr>\<rparr> else srv)"

definition record_event :: "event_type \<Rightarrow> string \<Rightarrow> (string \<times> string) list \<Rightarrow> bin_server \<Rightarrow> bin_server" where
  "record_event ev msg fs srv = srv\<lparr>srv_audit := Record ev msg fs (srv_audit srv)\<rparr>"

section \<open>Opening and closing\<close>

definition auth_required :: "bin_server \<Rightarrow> bool" where
  "auth_required srv \<longleftrightarrow> \<not> (requirePassHash srv = [] \<and> srv_policy srv = None)"

definition OnOpen :: "nat \<Rightarrow> string \<Rightarrow> bin_server \<Rightarrow> conn \<times> bin_server" where
  "OnOpen c addr srv =
     (let srv1 = srv\<lparr>srv_connectedClients := srv_connectedClients srv + 1, srv_totalConnections := srv_totalConnections srv + 1\<rparr>;
          n = length (shards (srv_router srv));
          sid = (if n > 0 then nextConn srv mod of_nat n else 0);
          srv2 = (if n > 0 then on_shard sid (IncTotalConnections \<circ> IncConnectedClients) (srv1\<lparr>nextConn := nextConn srv + 1\<rparr>) else srv1);
          st = \<lparr>conn_id = c, shardID = sid, authenticated = \<not> auth_required srv, sessionCtx = None, remoteAddr = addr, authFails = 0,
                authPending = False, closeAfterReply = False, over_tls = has_tls srv, readBuf = [], inbuf = [], outbuf = []\<rparr>
      in (st, record_event EventConnect ''client connected''
                [(''remote_addr'', addr), (''protocol'', ''binary''), (''shard_id'', itoa (uint sid))] srv2))"

definition OnClose :: "conn \<Rightarrow> bin_server \<Rightarrow> bin_server" where
  "OnClose c srv =
     record_event EventDisconnect ''client disconnected'' [(''remote_addr'', remoteAddr c), (''protocol'', ''binary'')]
       (on_shard (shardID c) DecConnectedClients (srv\<lparr>srv_connectedClients := srv_connectedClients srv - 1\<rparr>))"

section \<open>Authentication\<close>

definition parseAuthPayload :: "bytes \<Rightarrow> (bytes \<times> bytes) option" where
  "parseAuthPayload val =
     (if length val < 2 then None
      else let usernameLen = be_nat (take 2 val) in
        if length val < 2 + usernameLen + 2 then None
        else let username = take usernameLen (drop 2 val);
                 p = drop (2 + usernameLen) val;
                 passwordLen = be_nat (take 2 p)
             in if length val < 2 + usernameLen + 2 + passwordLen then None
                else Some (username, take passwordLen (drop 2 p)))"

definition authFailed :: "int \<Rightarrow> string \<Rightarrow> string \<Rightarrow> conn \<Rightarrow> bin_server \<Rightarrow> conn \<times> bin_server" where
  "authFailed now username reason c srv =
     (let c1 = c\<lparr>authFails := authFails c + 1\<rparr>;
          srv1 = srv\<lparr>srv_policy := map_option (LogAuthFailure now username (remoteAddr c) reason) (srv_policy srv)\<rparr>;
          srv2 = record_event EventAuthFailure ''authentication failed''
                   [(''user'', username), (''remote_addr'', remoteAddr c), (''reason'', reason), (''protocol'', ''binary'')] srv1
      in (if authFails c1 \<ge> maxAuthFails then c1\<lparr>closeAfterReply := True\<rparr> else c1, srv2))"

definition submit :: "auth_job \<Rightarrow> bin_server \<Rightarrow> bin_server option" where
  "submit job srv = (if length (authJobs srv) < authQueueCap then Some (srv\<lparr>authJobs := authJobs srv @ [job]\<rparr>) else None)"

datatype gate = GateReply char bytes | GateDispatched | GatePass

definition dispatch_job :: "auth_job \<Rightarrow> conn \<Rightarrow> bin_server \<Rightarrow> gate \<times> conn \<times> bin_server" where
  "dispatch_job job c srv =
     (case submit job srv of
        Some srv' \<Rightarrow> (GateDispatched, c\<lparr>authPending := True\<rparr>, srv')
      | None \<Rightarrow> (GateReply MsgAuthErr ResponseAuthErr, c, srv))"

definition rejectAuth :: "int \<Rightarrow> string \<Rightarrow> string \<Rightarrow> conn \<Rightarrow> bin_server \<Rightarrow> gate \<times> conn \<times> bin_server" where
  "rejectAuth now username reason c srv =
     (case authFailed now username reason c srv of (c', srv') \<Rightarrow> (GateReply MsgAuthErr ResponseAuthErr, c', srv'))"

definition handleAuthMessage :: "int \<Rightarrow> bytes \<Rightarrow> conn \<Rightarrow> bin_server \<Rightarrow> gate \<times> conn \<times> bin_server" where
  "handleAuthMessage now val c srv =
     (if \<not> auth_required srv then (GateReply MsgAuthOk ResponseOK, c, srv)
      else case parseAuthPayload val of
        None \<Rightarrow> rejectAuth now [] ''malformed request'' c srv
      | Some (username, password) \<Rightarrow>
          if has_oauth srv \<and> length username = 0 \<and> IsJWT password then
            dispatch_job \<lparr>job_conn = conn_id c, job_password = password, job_passHash = [], job_session = None,
              job_username = [], job_reason = ''invalid token'', job_oauth = True\<rparr> c srv
          else (case srv_policy srv of
                  Some ps \<Rightarrow>
                    (case active ps of
                       None \<Rightarrow> rejectAuth now username ''policy not loaded'' c srv
                     | Some p \<Rightarrow>
                         (let name = (if length username > 0 then username else ''default'') in
                          case UserFor (Some p) name of
                            None \<Rightarrow> rejectAuth now name ''unknown user'' c srv
                          | Some u \<Rightarrow>
                              dispatch_job \<lparr>job_conn = conn_id c, job_password = password, job_passHash = PasswordHash u,
                                job_session = Some (NewSessionContext name (RoleFor (Some p) name)), job_username = name,
                                job_reason = ''invalid password'', job_oauth = False\<rparr> c srv))
                | None \<Rightarrow>
                    if length username > 0 \<and> username \<noteq> ''default''
                    then rejectAuth now username ''unknown user'' c srv
                    else dispatch_job \<lparr>job_conn = conn_id c, job_password = password, job_passHash = requirePassHash srv,
                           job_session = None, job_username = [], job_reason = [], job_oauth = False\<rparr> c srv))"

section \<open>Gates\<close>

definition opAuthorized :: "message \<Rightarrow> session option \<Rightarrow> bool" where
  "opAuthorized m s =
     (if msg_Type m = MsgPing \<or> msg_Type m = MsgAuth then True
      else case s of
        None \<Rightarrow> False
      | Some sc \<Rightarrow>
          if msg_Op m \<in> set role_ops then AllowsCommand sc cmd_Role
          else if msg_Op m \<in> set acl_ops then AllowsCommand sc cmd_ACL
          else if msg_Op m = OpGet then IsAllowed sc cmd_Get (msg_Key m)
          else if msg_Op m = OpSet then IsAllowed sc cmd_Set (msg_Key m)
          else if msg_Op m = OpDelete then IsAllowed sc cmd_Del (msg_Key m)
          else False)"

definition gateMessage :: "int \<Rightarrow> message \<Rightarrow> conn \<Rightarrow> bin_server \<Rightarrow> gate \<times> conn \<times> bin_server" where
  "gateMessage now m c srv =
     (if msg_Type m = MsgAuth then handleAuthMessage now (msg_Value m) c srv
      else if \<not> authenticated c \<and> msg_Type m \<noteq> MsgPing then (GateReply MsgAuthErr ResponseAuthErr, c, srv)
      else case srv_policy srv of
        None \<Rightarrow> (GatePass, c, srv)
      | Some ps \<Rightarrow>
          if opAuthorized m (sessionCtx c) then (GatePass, c, srv)
          else let usr = (case sessionCtx c of Some sc \<Rightarrow> Username sc | None \<Rightarrow> []); cmd = op_String (msg_Op m) in
            (GateReply MsgError ResponseNotAuthorized, c,
             record_event EventACLDeny ''command denied by rbac policy''
               [(''user'', usr), (''command'', cmd), (''key'', msg_Key m), (''remote_addr'', remoteAddr c), (''protocol'', ''binary'')]
               (srv\<lparr>srv_policy := Some (LogDenied now usr (remoteAddr c) cmd (msg_Key m) (IncDenied ps))\<rparr>)))"

section \<open>One frame\<close>

text \<open>The reply goes out in the calls of \<^verbatim>\<open>Write\<close>; a failed write closes the connection.\<close>

definition send :: "bool \<Rightarrow> char \<Rightarrow> bytes \<Rightarrow> conn \<Rightarrow> bin_server \<Rightarrow> (conn \<times> bin_server) option" where
  "send ok t payload c srv =
     (if \<not> ok then None
      else let n = of_nat (5 + length payload) in
        Some (c\<lparr>outbuf := outbuf c @ concat (Write_calls t payload)\<rparr>,
              on_shard (shardID c) (AddBytesWritten n) (srv\<lparr>srv_bytesWritten := srv_bytesWritten srv + n\<rparr>)))"

definition respond :: "front_env \<Rightarrow> bin_reply \<Rightarrow> conn \<Rightarrow> bin_server \<Rightarrow> action \<times> conn \<times> bin_server" where
  "respond v rep c srv =
     (case rep of
        (None, t) \<Rightarrow> (if closeAfterReply c then ActClose else ActNone, c, srv)
      | (Some payload, t) \<Rightarrow>
          (case send (write_ok v) t payload c srv of
             None \<Rightarrow> (ActClose, c, srv)
           | Some (c', srv') \<Rightarrow> (if closeAfterReply c' then ActClose else ActNone, c', srv')))"

definition before_handler :: "message \<Rightarrow> conn \<Rightarrow> bin_server \<Rightarrow> bin_server" where
  "before_handler m c srv =
     record_event EventCommand ''command dispatched''
       [(''command'', op_String (msg_Op m)), (''key'', msg_Key m),
        (''user'', case sessionCtx c of Some sc \<Rightarrow> Username sc | None \<Rightarrow> ''default''), (''remote_addr'', remoteAddr c),
        (''protocol'', ''binary'')]
       (srv\<lparr>srv_policy := (case (srv_policy srv, sessionCtx c) of
              (Some ps, Some sc) \<Rightarrow> if msg_Type m \<noteq> MsgPing then Some (CountCommand sc ps) else Some ps
            | (po, _) \<Rightarrow> po)\<rparr>)"

definition runHandler :: "prims \<Rightarrow> front_env \<Rightarrow> message \<Rightarrow> gate \<Rightarrow> conn \<Rightarrow> bin_server \<Rightarrow> (action \<times> conn \<times> bin_server) go" where
  "runHandler P v m g c srv =
     (case g of
        GateReply t payload \<Rightarrow> Returns (respond v (Some payload, t) c srv)
      | _ \<Rightarrow>
          (let srv1 = before_handler m c srv in
           go_bind (networkHandler P v m (remoteAddr c) (srv_router srv1) (srv_policy srv1)) (\<lambda>(rep, r, po).
             Returns (respond v rep c (srv1\<lparr>srv_router := r, srv_policy := po\<rparr>)))))"

datatype frame_end = FrameDone | FrameDispatched | FrameClose

definition handle_frame :: "prims \<Rightarrow> front_env \<Rightarrow> message \<Rightarrow> nat \<Rightarrow> conn \<Rightarrow> bin_server \<Rightarrow> (frame_end \<times> conn \<times> bin_server) go" where
  "handle_frame P v m packetLen c srv =
     (let srv1 = on_shard (shardID c) (AddBytesRead (of_nat packetLen)) (srv\<lparr>srv_bytesRead := srv_bytesRead srv + of_nat packetLen\<rparr>) in
      case gateMessage (wall_clock v) m c srv1 of
        (GateDispatched, c2, srv2) \<Rightarrow> Returns (FrameDispatched, c2, srv2)
      | (g, c2, srv2) \<Rightarrow>
          go_bind (runHandler P v m g c2 srv2) (\<lambda>(act, c3, srv3).
            Returns (if act = ActNone then FrameDone else FrameClose, c3, srv3)))"

section \<open>The read loops\<close>

lemma Decode_consumes: "Decode d [] mx out = Returns (Inr n, m) \<Longrightarrow> 5 + n \<le> length d"
  by (auto simp: Decode_def Let_def split: if_splits prod.splits option.splits)

text \<open>
  Both loops take one frame after another off the front of a buffer. They differ in what ends them
  before a frame is decoded: the plain loop peeks into the ring buffer, which may fail; the TLS loop
  runs while its buffer holds bytes.
\<close>

function frames :: "(front_env \<Rightarrow> bytes \<Rightarrow> action option) \<Rightarrow> prims \<Rightarrow> (nat \<Rightarrow> front_env) \<Rightarrow> bytes \<Rightarrow> conn \<Rightarrow> bin_server \<Rightarrow>
    (action \<times> bytes \<times> conn \<times> bin_server) go" where
  "frames stop P vs buf c srv =
     (case stop (vs 0) buf of
        Some act \<Rightarrow> Returns (act, buf, c, srv)
      | None \<Rightarrow>
          (case Decode buf [] (maxMsgSize srv) message0 of
             Panics \<Rightarrow> Panics
           | Returns (Inl err, m) \<Rightarrow>
               if err = ErrShortRead then Returns (ActNone, buf, c, srv)
               else Returns (ActClose, buf, c, srv\<lparr>protocolErrors := protocolErrors srv + 1\<rparr>)
           | Returns (Inr n, m) \<Rightarrow>
               go_bind (handle_frame P (vs 0) m (5 + n) c srv) (\<lambda>(fin, c', srv').
                 case fin of
                   FrameDispatched \<Rightarrow> Returns (ActNone, drop (5 + n) buf, c', srv')
                 | FrameClose \<Rightarrow> Returns (ActClose, buf, c', srv')
                 | FrameDone \<Rightarrow> frames stop P (\<lambda>i. vs (Suc i)) (drop (5 + n) buf) c' srv')))"
  by pat_completeness auto
termination
  by (relation "measure (\<lambda>(stop, P, vs, buf, c, srv). length buf)") (auto dest: Decode_consumes)

declare frames.simps [simp del]

definition plain_frames :: "prims \<Rightarrow> (nat \<Rightarrow> front_env) \<Rightarrow> bytes \<Rightarrow> conn \<Rightarrow> bin_server \<Rightarrow> (action \<times> bytes \<times> conn \<times> bin_server) go" where
  "plain_frames = frames (\<lambda>v buf. if peek_ok v then None else Some ActClose)"

definition decrypted_frames :: "prims \<Rightarrow> (nat \<Rightarrow> front_env) \<Rightarrow> bytes \<Rightarrow> conn \<Rightarrow> bin_server \<Rightarrow> (action \<times> bytes \<times> conn \<times> bin_server) go" where
  "decrypted_frames = frames (\<lambda>v buf. if buf = [] then Some ActNone else None)"

definition onTrafficPlaintext :: "prims \<Rightarrow> (nat \<Rightarrow> front_env) \<Rightarrow> conn \<Rightarrow> bin_server \<Rightarrow> (action \<times> conn \<times> bin_server) go" where
  "onTrafficPlaintext P vs c srv =
     (if authPending c then Returns (ActNone, c, srv)
      else go_bind (plain_frames P vs (inbuf c) c srv) (\<lambda>(act, rest, c', srv').
             Returns (act, c'\<lparr>inbuf := rest\<rparr>, srv')))"

definition handleDecryptedFrames :: "prims \<Rightarrow> (nat \<Rightarrow> front_env) \<Rightarrow> conn \<Rightarrow> bin_server \<Rightarrow> (action \<times> conn \<times> bin_server) go" where
  "handleDecryptedFrames P vs c srv =
     (if authPending c then Returns (ActNone, c, srv)
      else go_bind (decrypted_frames P vs (readBuf c) c srv) (\<lambda>(act, rest, c', srv').
             Returns (act, c'\<lparr>readBuf := rest\<rparr>, srv')))"

fun onTrafficTLS :: "nat \<Rightarrow> prims \<Rightarrow> (nat \<Rightarrow> tls_env) \<Rightarrow> (nat \<Rightarrow> nat \<Rightarrow> front_env) \<Rightarrow> conn \<Rightarrow> bin_server \<Rightarrow> (action \<times> conn \<times> bin_server) go option" where
  "onTrafficTLS 0 P ts vs c srv = None"
| "onTrafficTLS (Suc fuel) P ts vs c srv =
     (case tls_Read (ts 0) (readBufCap - length (readBuf c)) (inbuf c) of
        (n, err) \<Rightarrow>
          (case (if n > 0
                 then handleDecryptedFrames P (vs 0) (c\<lparr>readBuf := readBuf c @ take n (inbuf c), inbuf := drop n (inbuf c)\<rparr>) srv
                 else Returns (ActNone, c, srv)) of
             Panics \<Rightarrow> Some Panics
           | Returns (act, c', srv') \<Rightarrow>
               if act \<noteq> ActNone then Some (Returns (act, c', srv'))
               else (case err of
                       Some ErrNotEnough \<Rightarrow> Some (Returns (ActNone, c', srv'))
                     | Some TLSFailure \<Rightarrow> Some (Returns (ActClose, c', srv'))
                     | None \<Rightarrow> onTrafficTLS fuel P (\<lambda>i. ts (Suc i)) (\<lambda>i. vs (Suc i)) c' srv')))"

section \<open>The password workers\<close>

definition authWorker :: "front_env \<Rightarrow> auth_job \<Rightarrow> conn \<Rightarrow> bin_server \<Rightarrow> action \<times> conn \<times> bin_server" where
  "authWorker v job c srv =
     (let c1 = c\<lparr>authPending := False\<rparr> in
      case job_accepted v job (srv_policy srv) of
        Some (s, name) \<Rightarrow>
          respond v (Some ResponseOK, MsgAuthOk) (c1\<lparr>authenticated := True, sessionCtx := s\<rparr>)
            (record_event EventAuthSuccess ''client authenticated''
               [(''user'', if name = [] then ''default'' else name), (''remote_addr'', remoteAddr c), (''protocol'', ''binary'')] srv)
      | None \<Rightarrow>
          (case authFailed (wall_clock v) (if job_oauth job then [] else job_username job) (job_reason job) c1 srv of
             (c2, srv2) \<Rightarrow> respond v (Some ResponseAuthErr, MsgAuthErr) c2 srv2))"

section \<open>The server as a transition system\<close>

text \<open>
  Connections are opened and closed, bytes arrive and are handled by the event loop, and workers
  finish jobs in any order. A wake-up of the loop without new bytes is the arrival of none. A read
  loop that does not return is no step.
\<close>

record world =
  server :: bin_server
  conns :: "nat \<Rightarrow> conn option"
  next_id :: nat

datatype event = EvOpen string | EvHangup nat | EvTraffic nat bytes | EvAuth auth_job front_env

definition finish :: "nat \<Rightarrow> action \<times> conn \<times> bin_server \<Rightarrow> world \<Rightarrow> world" where
  "finish i r w =
     (case r of (act, c, srv) \<Rightarrow>
        if act = ActClose then w\<lparr>server := OnClose c srv, conns := (conns w)(i := None)\<rparr>
        else w\<lparr>server := srv, conns := (conns w)(i := Some c)\<rparr>)"

inductive bin_step :: "prims \<Rightarrow> world \<Rightarrow> event \<Rightarrow> world \<Rightarrow> bool" for P where
  opened: "OnOpen (next_id w) addr (server w) = (c, srv) \<Longrightarrow>
    bin_step P w (EvOpen addr) (w\<lparr>server := srv, conns := (conns w)(next_id w := Some c), next_id := Suc (next_id w)\<rparr>)"
| hangup: "conns w i = Some c \<Longrightarrow> bin_step P w (EvHangup i) (w\<lparr>server := OnClose c (server w), conns := (conns w)(i := None)\<rparr>)"
| plain: "conns w i = Some c \<Longrightarrow> \<not> over_tls c \<Longrightarrow>
    onTrafficPlaintext P vs (c\<lparr>inbuf := inbuf c @ bs\<rparr>) (server w) = Returns r \<Longrightarrow>
    bin_step P w (EvTraffic i bs) (finish i r w)"
| sealed: "conns w i = Some c \<Longrightarrow> over_tls c \<Longrightarrow>
    onTrafficTLS fuel P ts us (c\<lparr>inbuf := inbuf c @ bs\<rparr>) (server w) = Some (Returns r) \<Longrightarrow>
    bin_step P w (EvTraffic i bs) (finish i r w)"
| worker: "k < length (authJobs (server w)) \<Longrightarrow> authJobs (server w) ! k = job \<Longrightarrow>
    srv = (server w)\<lparr>authJobs := take k (authJobs (server w)) @ drop (Suc k) (authJobs (server w))\<rparr> \<Longrightarrow>
    w' = (case conns w (job_conn job) of
            None \<Rightarrow> w\<lparr>server := srv\<rparr>
          | Some c \<Rightarrow> finish (job_conn job) (authWorker v job c srv) w) \<Longrightarrow>
    bin_step P w (EvAuth job v) w'"

inductive_cases bin_stepE: "bin_step P w e w'"

section \<open>What a frame may change\<close>

text \<open>The data of the server: the engines of the shards, the files and the policy.\<close>

definition stored :: "bin_server \<Rightarrow> engine list \<times> pstorage \<times> policy option option" where
  "stored srv = (map Engine (shards (srv_router srv)), pstore (srv_router srv), map_option active (srv_policy srv))"

text \<open>What no frame, reply or worker changes: the configuration of the server.\<close>

definition fixed :: "bin_server \<Rightarrow> bytes \<times> bool" where
  "fixed srv = (requirePassHash srv, srv_policy srv = None)"

lemma auth_required_fixed: "fixed srv = fixed srv' \<Longrightarrow> auth_required srv = auth_required srv'"
  by (simp add: fixed_def auth_required_def)

lemma on_shard_stored [simp]:
  assumes "\<And>s. Engine (f s) = Engine s"
  shows "stored (on_shard sid f srv) = stored srv"
  using assms by (auto simp: stored_def on_shard_def Let_def map_update list_update_same_conv)

lemma on_shard_frame [simp]: "fixed (on_shard sid f srv) = fixed srv" "authJobs (on_shard sid f srv) = authJobs srv"
  "srv_policy (on_shard sid f srv) = srv_policy srv" "requirePassHash (on_shard sid f srv) = requirePassHash srv"
  "has_oauth (on_shard sid f srv) = has_oauth srv" "maxMsgSize (on_shard sid f srv) = maxMsgSize srv"
  by (simp_all add: on_shard_def fixed_def Let_def)

lemma record_event_frame [simp]: "fixed (record_event ev msg fs srv) = fixed srv" "authJobs (record_event ev msg fs srv) = authJobs srv"
  "stored (record_event ev msg fs srv) = stored srv" "srv_router (record_event ev msg fs srv) = srv_router srv"
  "srv_policy (record_event ev msg fs srv) = srv_policy srv" "requirePassHash (record_event ev msg fs srv) = requirePassHash srv"
  "maxMsgSize (record_event ev msg fs srv) = maxMsgSize srv"
  by (simp_all add: record_event_def fixed_def stored_def)

definition same_identity :: "conn \<Rightarrow> conn \<Rightarrow> bool" where
  "same_identity c c' \<longleftrightarrow> conn_id c' = conn_id c \<and> authenticated c' = authenticated c \<and> sessionCtx c' = sessionCtx c \<and> over_tls c' = over_tls c"

text \<open>
  A job the front end submits is for its own connection, and without a policy it is checked against
  the server's password.
\<close>

definition own_job :: "nat \<Rightarrow> bin_server \<Rightarrow> auth_job \<Rightarrow> bool" where
  "own_job i srv job \<longleftrightarrow> job_conn job = i \<and> (srv_policy srv = None \<longrightarrow> job_oauth job \<or> job_passHash job = requirePassHash srv)"

definition quiet :: "conn \<Rightarrow> bin_server \<Rightarrow> conn \<Rightarrow> bin_server \<Rightarrow> bool" where
  "quiet c srv c' srv' \<longleftrightarrow> same_identity c c' \<and> fixed srv' = fixed srv \<and>
     (\<forall>job. job \<in> set (authJobs srv') \<longrightarrow> job \<in> set (authJobs srv) \<or> own_job (conn_id c) srv job) \<and>
     (authenticated c \<or> stored srv' = stored srv)"

lemma quiet_refl [simp]: "quiet c srv c srv"
  by (simp add: quiet_def same_identity_def)

lemma own_job_fixed: "fixed srv = fixed srv' \<Longrightarrow> own_job i srv = own_job i srv'"
  by (auto simp: fixed_def own_job_def fun_eq_iff)

lemma quiet_trans [trans]:
  assumes "quiet c srv c1 srv1" "quiet c1 srv1 c2 srv2"
  shows "quiet c srv c2 srv2"
  using assms own_job_fixed [of srv1 srv] by (auto simp: quiet_def same_identity_def)

lemma authFailed_quiet: "authFailed now u r c srv = (c', srv') \<Longrightarrow> same_identity c c' \<and> fixed srv' = fixed srv \<and> authJobs srv' = authJobs srv \<and> stored srv' = stored srv"
  by (auto simp: authFailed_def Let_def same_identity_def fixed_def stored_def record_event_def option.map_comp comp_def split: if_splits)

lemma send_quiet: "send b t p c srv = Some (c', srv') \<Longrightarrow> same_identity c c' \<and> fixed srv' = fixed srv \<and> authJobs srv' = authJobs srv \<and> stored srv' = stored srv"
  by (auto simp: send_def Let_def same_identity_def split: if_splits) (simp_all add: fixed_def stored_def)

lemma respond_quiet: "respond v rep c srv = (act, c', srv') \<Longrightarrow> same_identity c c' \<and> fixed srv' = fixed srv \<and> authJobs srv' = authJobs srv \<and> stored srv' = stored srv"
  using send_quiet by (cases rep; cases "fst rep") (fastforce simp: respond_def same_identity_def split: option.splits)+

lemma dispatch_job_quiet:
  "dispatch_job job c srv = (g, c', srv') \<Longrightarrow> own_job (conn_id c) srv job \<Longrightarrow> quiet c srv c' srv' \<and> g \<noteq> GatePass"
  by (auto simp: dispatch_job_def submit_def quiet_def same_identity_def fixed_def stored_def split: if_splits)

lemma rejectAuth_quiet: "rejectAuth now u r c srv = (g, c', srv') \<Longrightarrow> quiet c srv c' srv' \<and> g \<noteq> GatePass"
  using authFailed_quiet by (fastforce simp: rejectAuth_def quiet_def split: prod.splits)

lemma handleAuthMessage_quiet: "handleAuthMessage now val c srv = (g, c', srv') \<Longrightarrow> quiet c srv c' srv' \<and> g \<noteq> GatePass"
  by (auto simp: handleAuthMessage_def Let_def own_job_def split: if_splits option.splits prod.splits
      dest!: dispatch_job_quiet rejectAuth_quiet)

lemma gateMessage_quiet:
  assumes "gateMessage now m c srv = (g, c', srv')"
  shows "quiet c srv c' srv' \<and> (g = GatePass \<longrightarrow> (authenticated c \<or> msg_Type m = MsgPing) \<and> c' = c \<and> srv' = srv \<and>
      (srv_policy srv = None \<or> opAuthorized m (sessionCtx c)))"
proof (cases "msg_Type m = MsgAuth")
  case True
  with assms handleAuthMessage_quiet show ?thesis by (fastforce simp: gateMessage_def)
next
  case False
  with assms show ?thesis
    by (auto simp: gateMessage_def Let_def quiet_def same_identity_def split: if_splits option.splits)
      (simp_all add: fixed_def stored_def record_event_def)
qed

lemma networkHandler_policy: "networkHandler P v m remote r po = Returns (rep, r', po') \<Longrightarrow> po' = None \<longleftrightarrow> po = None"
  by (auto simp: networkHandler_def split: if_splits option.splits prod.splits)

lemma networkHandler_ping: "msg_Type m = MsgPing \<Longrightarrow> networkHandler P v m remote r po = Returns ((None, MsgPong), r, po)"
  by (simp add: networkHandler_def)

lemma before_handler_quiet: "fixed (before_handler m c srv) = fixed srv" "authJobs (before_handler m c srv) = authJobs srv"
  "stored (before_handler m c srv) = stored srv"
  by (auto simp: before_handler_def) (auto simp: fixed_def stored_def split: option.split)

lemma runHandler_quiet:
  assumes "runHandler P v m g c srv = Returns (act, c', srv')" "g = GatePass \<longrightarrow> authenticated c \<or> msg_Type m = MsgPing" "g \<noteq> GateDispatched"
  shows "quiet c srv c' srv'"
proof (cases g)
  case (GateReply t p)
  with assms(1) respond_quiet [of v "(Some p, t)" c srv act c' srv'] show ?thesis by (simp add: runHandler_def quiet_def)
next
  case GatePass
  let ?s = "before_handler m c srv"
  obtain rep r po where h: "networkHandler P v m (remoteAddr c) (srv_router ?s) (srv_policy ?s) = Returns (rep, r, po)"
    "respond v rep c (?s\<lparr>srv_router := r, srv_policy := po\<rparr>) = (act, c', srv')"
    using assms(1) GatePass by (auto simp: runHandler_def Let_def)
  note q = respond_quiet [OF h(2)]
  have "fixed (?s\<lparr>srv_router := r, srv_policy := po\<rparr>) = fixed ?s"
    using networkHandler_policy [OF h(1)] by (simp add: fixed_def)
  moreover have "stored (?s\<lparr>srv_router := r, srv_policy := po\<rparr>) = stored ?s" if "\<not> authenticated c"
    using h(1) assms(2) GatePass that networkHandler_ping [of m] by (auto simp: stored_def)
  ultimately show ?thesis using q by (auto simp: quiet_def before_handler_quiet)
qed (use assms in simp)

lemma handle_frame_quiet:
  assumes "handle_frame P v m n c srv = Returns (fin, c', srv')"
  shows "quiet c srv c' srv'"
proof -
  let ?s = "on_shard (shardID c) (AddBytesRead (of_nat n)) (srv\<lparr>srv_bytesRead := srv_bytesRead srv + of_nat n\<rparr>)"
  have s: "quiet c srv c ?s" by (simp add: quiet_def same_identity_def) (simp add: fixed_def stored_def)
  obtain g c2 srv2 where g: "gateMessage (wall_clock v) m c ?s = (g, c2, srv2)" by (metis prod_cases3)
  note q = gateMessage_quiet [OF g]
  show ?thesis
  proof (cases "g = GateDispatched")
    case True
    with assms g have "c' = c2 \<and> srv' = srv2" by (simp add: handle_frame_def Let_def)
    with q s show ?thesis using quiet_trans by blast
  next
    case False
    then obtain act where "runHandler P v m g c2 srv2 = Returns (act, c', srv')"
      using assms g by (cases g) (auto simp: handle_frame_def Let_def split: if_splits)
    then have "quiet c2 srv2 c' srv'" using runHandler_quiet False q by blast
    with q s show ?thesis using quiet_trans by blast
  qed
qed

lemma quiet_buffers [simp]: "quiet c srv (c'\<lparr>inbuf := b\<rparr>) srv' = quiet c srv c' srv'" "quiet c srv (c'\<lparr>readBuf := b\<rparr>) srv' = quiet c srv c' srv'"
  "quiet (c\<lparr>inbuf := b\<rparr>) srv c' srv' = quiet c srv c' srv'" "quiet (c\<lparr>readBuf := b\<rparr>) srv c' srv' = quiet c srv c' srv'"
  by (simp_all add: quiet_def same_identity_def)

lemma quiet_perr [simp]: "quiet c srv c (srv\<lparr>protocolErrors := protocolErrors srv + 1\<rparr>)"
  by (simp add: quiet_def same_identity_def fixed_def stored_def)

lemma frames_quiet: "frames stop P vs buf c srv = Returns (act, rest, c', srv') \<Longrightarrow> quiet c srv c' srv'"
proof (induction stop P vs buf c srv arbitrary: act rest c' srv' rule: frames.induct)
  case (1 stop P vs buf c srv)
  consider act' where "stop (vs 0) buf = Some act'" | err m where "stop (vs 0) buf = None" "Decode buf [] (maxMsgSize srv) message0 = Returns (Inl err, m)"
    | "stop (vs 0) buf = None" "Decode buf [] (maxMsgSize srv) message0 = Panics"
    | n m where "stop (vs 0) buf = None" "Decode buf [] (maxMsgSize srv) message0 = Returns (Inr n, m)"
    by (metis go.exhaust obj_sumE option.exhaust surj_pair)
  then show ?case
  proof cases
    case 4
    then obtain fin c1 srv1 where f: "handle_frame P (vs 0) m (5 + n) c srv = Returns (fin, c1, srv1)"
      using "1.prems" by (subst (asm) frames.simps) auto
    note q = handle_frame_quiet [OF f]
    show ?thesis
    proof (cases fin)
      case FrameDone
      then have "frames stop P (\<lambda>i. vs (Suc i)) (drop (5 + n) buf) c1 srv1 = Returns (act, rest, c', srv')"
        using "1.prems" 4 f by (subst (asm) frames.simps) simp
      from "1.IH" [OF 4 refl refl f refl refl FrameDone this] q show ?thesis using quiet_trans by blast
    next
      case FrameClose
      with "1.prems" 4 f q show ?thesis by (subst (asm) frames.simps) simp
    next
      case FrameDispatched
      with "1.prems" 4 f q show ?thesis by (subst (asm) frames.simps) simp
    qed
  next
    case 1
    with "1.prems" show ?thesis by (subst (asm) frames.simps) simp
  next
    case 2
    with "1.prems" show ?thesis by (subst (asm) frames.simps) (auto split: if_splits)
  next
    case 3
    with "1.prems" show ?thesis by (subst (asm) frames.simps) simp
  qed
qed

lemma handleDecryptedFrames_quiet: "handleDecryptedFrames P vs c srv = Returns (act, c', srv') \<Longrightarrow> quiet c srv c' srv'"
  using frames_quiet by (fastforce simp: handleDecryptedFrames_def decrypted_frames_def split: if_splits)

lemma onTrafficPlaintext_quiet: "onTrafficPlaintext P vs c srv = Returns (act, c', srv') \<Longrightarrow> quiet c srv c' srv'"
  using frames_quiet by (fastforce simp: onTrafficPlaintext_def plain_frames_def split: if_splits)

lemma onTrafficTLS_quiet: "onTrafficTLS fuel P ts us c srv = Some (Returns (act, c', srv')) \<Longrightarrow> quiet c srv c' srv'"
proof (induction fuel arbitrary: ts us c srv)
  case (Suc fuel)
  obtain n err where r: "tls_Read (ts 0) (readBufCap - length (readBuf c)) (inbuf c) = (n, err)" by fastforce
  let ?m = "if n > 0 then handleDecryptedFrames P (us 0) (c\<lparr>readBuf := readBuf c @ take n (inbuf c), inbuf := drop n (inbuf c)\<rparr>) srv
            else Returns (ActNone, c, srv)"
  obtain a1 c1 srv1 where m: "?m = Returns (a1, c1, srv1)" using Suc.prems r by (cases ?m) auto
  then have q: "quiet c srv c1 srv1" using handleDecryptedFrames_quiet by (fastforce split: if_splits)
  show ?case
  proof (cases "a1 = ActNone \<and> err = None")
    case True
    then have "onTrafficTLS fuel P (\<lambda>i. ts (Suc i)) (\<lambda>i. us (Suc i)) c1 srv1 = Some (Returns (act, c', srv'))"
      using Suc.prems r m by simp
    with Suc.IH q show ?thesis using quiet_trans by blast
  next
    case False
    then show ?thesis using Suc.prems r m q by (auto split: option.splits tls_error.splits if_splits)
  qed
qed simp

section \<open>No data without credentials\<close>

text \<open>The credentials of a job hold up: a password its account accepts, or a token the provider verifies.\<close>

lemma authWorker_effect:
  assumes "authWorker v job c srv = (act, c', srv')"
  shows "conn_id c' = conn_id c \<and> over_tls c' = over_tls c \<and> fixed srv' = fixed srv \<and> authJobs srv' = authJobs srv \<and> stored srv' = stored srv \<and>
    (authenticated c' \<longrightarrow> authenticated c \<or> credentials_ok v job \<and> (srv_policy srv = None \<longrightarrow> \<not> job_oauth job))"
proof (cases "job_accepted v job (srv_policy srv)")
  case None
  then obtain c2 srv2 where f: "authFailed (wall_clock v) (if job_oauth job then [] else job_username job) (job_reason job) (c\<lparr>authPending := False\<rparr>) srv = (c2, srv2)"
    "respond v (Some ResponseAuthErr, MsgAuthErr) c2 srv2 = (act, c', srv')"
    using assms by (auto simp: authWorker_def Let_def split: prod.splits)
  from authFailed_quiet [OF f(1)] respond_quiet [OF f(2)] show ?thesis by (simp add: same_identity_def)
next
  case (Some r)
  obtain s name where r: "r = (s, name)" by fastforce
  have "credentials_ok v job \<and> (srv_policy srv = None \<longrightarrow> \<not> job_oauth job)"
    using Some by (auto simp: job_accepted_def credentials_ok_def ResolveOAuthToken_def split: if_splits option.splits)
  moreover obtain srv1 where "fixed srv1 = fixed srv" "authJobs srv1 = authJobs srv" "stored srv1 = stored srv"
    "respond v (Some ResponseOK, MsgAuthOk) (c\<lparr>authPending := False, authenticated := True, sessionCtx := s\<rparr>) srv1 = (act, c', srv')"
    using assms Some r by (simp add: authWorker_def Let_def) (metis record_event_frame(1-3))
  ultimately show ?thesis using respond_quiet by (fastforce simp: same_identity_def)
qed

lemma OnClose_frame [simp]: "fixed (OnClose c srv) = fixed srv" "authJobs (OnClose c srv) = authJobs srv" "stored (OnClose c srv) = stored srv"
  by (simp_all add: OnClose_def) (simp_all add: fixed_def stored_def)

lemma OnOpen_frame:
  assumes "OnOpen i addr srv = (c, srv')"
  shows "fixed srv' = fixed srv \<and> authJobs srv' = authJobs srv \<and> stored srv' = stored srv \<and> conn_id c = i \<and> authenticated c = (\<not> auth_required srv)"
  using assms by (auto simp: OnOpen_def Let_def split: if_splits) (simp_all add: fixed_def stored_def)

definition bin_inv :: "bin_server \<Rightarrow> world \<Rightarrow> bool" where
  "bin_inv srv0 w \<longleftrightarrow> auth_required srv0 \<and> fixed (server w) = fixed srv0 \<and>
     (\<forall>job. job \<in> set (authJobs (server w)) \<longrightarrow> own_job (job_conn job) srv0 job) \<and>
     (\<forall>i c. conns w i = Some c \<longrightarrow> conn_id c = i)"

definition bin_logged_in :: "world \<Rightarrow> nat \<Rightarrow> bool" where
  "bin_logged_in w i = (case conns w i of None \<Rightarrow> False | Some c \<Rightarrow> authenticated c)"

definition bin_grants :: "bin_server \<Rightarrow> world \<Rightarrow> event \<Rightarrow> nat \<Rightarrow> bool" where
  "bin_grants srv0 w e i \<longleftrightarrow> (\<exists>job v. e = EvAuth job v \<and> job_conn job = i \<and> credentials_ok v job \<and>
     (srv_policy srv0 = None \<longrightarrow> check_pass v (requirePassHash srv0) (job_password job)))"

lemma finish_simps: "server (finish i (act, c, srv) w) = (if act = ActClose then OnClose c srv else srv)"
  "conns (finish i (act, c, srv) w) = (conns w)(i := if act = ActClose then None else Some c)"
  by (simp_all add: finish_def)

lemma bin_inv_finish:
  assumes "bin_inv srv0 w" "fixed srv' = fixed srv0" "conn_id c' = i"
    and "\<And>job. job \<in> set (authJobs srv') \<Longrightarrow> own_job (job_conn job) srv0 job"
  shows "bin_inv srv0 (finish i (act, c', srv') w)"
  using assms unfolding bin_inv_def finish_simps by (auto split: if_splits)

lemma bin_finish_logged_in: "bin_logged_in (finish i (act, c', srv') w) j \<Longrightarrow> bin_logged_in w j \<or> j = i \<and> authenticated c'"
  by (auto simp: bin_logged_in_def finish_simps split: if_splits)

lemma bin_quiet_login:
  assumes "bin_inv srv0 w" "conns w i = Some c" "quiet c (server w) c' srv'"
  shows "bin_inv srv0 (finish i (act, c', srv') w) \<and> (\<forall>j. bin_logged_in (finish i (act, c', srv') w) j \<longrightarrow> bin_logged_in w j)"
proof -
  have f: "fixed (server w) = fixed srv0" and i: "conn_id c = i" using assms(1,2) by (auto simp: bin_inv_def)
  have "own_job (job_conn job) srv0 job" if "job \<in> set (authJobs srv')" for job
    using that assms(1,3) own_job_fixed [OF f] by (auto simp: quiet_def bin_inv_def own_job_def)
  then have "bin_inv srv0 (finish i (act, c', srv') w)"
    using assms(3) f i by (intro bin_inv_finish [OF assms(1)]) (auto simp: quiet_def same_identity_def)
  moreover have "bin_logged_in w j" if "bin_logged_in (finish i (act, c', srv') w) j" for j
    using bin_finish_logged_in [OF that] assms(2,3) by (auto simp: bin_logged_in_def quiet_def same_identity_def)
  ultimately show ?thesis by blast
qed

lemma traffic_quiet:
  assumes "bin_step P w (EvTraffic i bs) w'"
  obtains c act c' srv' where "conns w i = Some c" "quiet c (server w) c' srv'" "w' = finish i (act, c', srv') w"
  using assms
proof (cases rule: bin_step.cases)
  case (plain c vs r)
  obtain act c' srv' where r: "r = (act, c', srv')" by (cases r)
  with plain have "quiet c (server w) c' srv'" using onTrafficPlaintext_quiet by fastforce
  with plain r that show ?thesis by blast
next
  case (sealed c fuel ts us r)
  obtain act c' srv' where r: "r = (act, c', srv')" by (cases r)
  with sealed have "quiet c (server w) c' srv'" using onTrafficTLS_quiet by fastforce
  with sealed r that show ?thesis by blast
qed

lemma bin_step_login:
  assumes "bin_inv srv0 w" "bin_step P w e w'"
  shows "bin_inv srv0 w' \<and> (\<forall>i. bin_logged_in w' i \<longrightarrow> bin_logged_in w i \<or> bin_grants srv0 w e i)"
proof (cases "\<exists>i bs. e = EvTraffic i bs")
  case True
  then obtain i bs where "bin_step P w (EvTraffic i bs) w'" using assms(2) by blast
  then obtain c act c' srv' where "conns w i = Some c" "quiet c (server w) c' srv'" "w' = finish i (act, c', srv') w" by (rule traffic_quiet)
  with bin_quiet_login [OF assms(1)] show ?thesis by blast
next
  case False
  from assms(2) show ?thesis
  proof (cases rule: bin_step.cases)
    case (opened addr c srv)
    with assms OnOpen_frame [OF opened(3)] auth_required_fixed [of "server w" srv0] show ?thesis
      by (auto simp: bin_inv_def bin_logged_in_def)
  next
    case (hangup i c)
    with assms(1) show ?thesis by (auto simp: bin_inv_def bin_logged_in_def)
  next
    case (worker k job srv v)
    have f: "fixed srv = fixed srv0" using assms(1) worker(4) by (simp add: bin_inv_def fixed_def)
    have jobs: "own_job (job_conn j) srv0 j" if "j \<in> set (authJobs srv)" for j
      using that assms(1) worker(4) by (auto simp: bin_inv_def dest: in_set_takeD in_set_dropD)
    have own: "own_job (job_conn job) srv0 job" using assms(1) worker(2,3) nth_mem unfolding bin_inv_def by metis
    show ?thesis
    proof (cases "conns w (job_conn job)")
      case None
      with worker(5) assms(1) f jobs show ?thesis by (auto simp: bin_inv_def bin_logged_in_def)
    next
      case (Some c)
      obtain act c' srv' where a: "authWorker v job c srv = (act, c', srv')" by (metis prod_cases3)
      note eff = authWorker_effect [OF a]
      have w': "w' = finish (job_conn job) (act, c', srv') w" using worker(5) Some a by simp
      have new: "authenticated c' \<longrightarrow> authenticated c \<or> bin_grants srv0 w e (job_conn job)"
        using eff own f assms(1) worker(1)
        by (auto simp: bin_grants_def own_job_def credentials_ok_def fixed_def auth_required_def bin_inv_def)
      have "bin_inv srv0 w'" unfolding w' using eff f jobs assms(1) Some by (intro bin_inv_finish [OF assms(1)]) (auto simp: bin_inv_def)
      moreover have "bin_logged_in w j \<or> bin_grants srv0 w e j" if "bin_logged_in w' j" for j
        using bin_finish_logged_in [OF that [unfolded w']] new Some by (auto simp: bin_logged_in_def)
      ultimately show ?thesis by blast
    qed
  qed (use False in simp_all)
qed

interpretation blogin: login_system "bin_step P" "bin_inv srv0" bin_logged_in "bin_grants srv0" for P srv0
  using bin_step_login by unfold_locales blast+

text \<open>
  C4. No data without credentials: on a server that requires authentication, in every interleaving
  of connections, arriving bytes and password workers, a connection whose bytes change the stored
  data, the files or the policy has before that presented credentials of its own that were checked
  and held; without a policy these are the password of the server.
\<close>

theorem binary_auth_required:
  assumes "trace (bin_step P) w0 es w" "auth_required (server w0)" "conns w0 = (\<lambda>i. None)" "authJobs (server w0) = []"
    and "bin_step P w (EvTraffic i bs) w'" "stored (server w') \<noteq> stored (server w)"
  shows "\<exists>job v. EvAuth job v \<in> set es \<and> job_conn job = i \<and> credentials_ok v job \<and>
      (srv_policy (server w0) = None \<longrightarrow> check_pass v (requirePassHash (server w0)) (job_password job))"
proof -
  have start: "bin_inv (server w0) w0" "\<not> bin_logged_in w0 i" using assms(2-4) by (simp_all add: bin_inv_def bin_logged_in_def)
  from assms(5) obtain c act c' srv' where c: "conns w i = Some c" "quiet c (server w) c' srv'" "w' = finish i (act, c', srv') w"
    by (rule traffic_quiet)
  have "authenticated c" using c(2,3) assms(6) by (auto simp: quiet_def finish_simps split: if_splits)
  then have "bin_logged_in w i" using c(1) by (simp add: bin_logged_in_def)
  from blogin.logged_in_granted [OF assms(1) start this] obtain es1 e w1
    where g: "prefix (es1 @ [e]) es" "bin_grants (server w0) w1 e i" by blast
  from g(1) have "e \<in> set es" using set_mono_prefix by fastforce
  with g(2) show ?thesis unfolding bin_grants_def by (elim exE conjE, intro exI conjI) simp_all
qed

lemma Write_calls_frame: "concat (Write_calls t p) = frame t p"
  by (simp add: Write_calls_def frame_def Let_def)

text \<open>
  C14. Over the binary protocol the policy decides: with a policy configured, a frame other than a
  ping or an authentication that its session may not run, or that comes from no authenticated
  session, leaves stored data, files and policy as they were, and all the client gets is the refusal;
  an authenticated client's refusal is counted and recorded.
\<close>

theorem binary_gate_sound:
  assumes "srv_policy srv = Some ps" "msg_Type m \<noteq> MsgPing" "msg_Type m \<noteq> MsgAuth" "\<not> (authenticated c \<and> opAuthorized m (sessionCtx c))"
  shows "\<exists>fin c' srv' ps'. handle_frame P v m n c srv = Returns (fin, c', srv') \<and> stored srv' = stored srv \<and>
      outbuf c' = outbuf c @ (if \<not> write_ok v then [] else if authenticated c then frame MsgError ResponseNotAuthorized
         else frame MsgAuthErr ResponseAuthErr) \<and>
      srv_policy srv' = Some ps' \<and> deniedCommands ps' = deniedCommands ps + (if authenticated c then 1 else 0)"
proof -
  let ?s = "on_shard (shardID c) (AddBytesRead (of_nat n)) (srv\<lparr>srv_bytesRead := srv_bytesRead srv + of_nat n\<rparr>)"
  have s: "stored ?s = stored srv" "srv_policy ?s = Some ps" using assms(1) by (simp_all, simp add: stored_def)
  obtain t p srv2 ps' where g: "gateMessage (wall_clock v) m c ?s = (GateReply t p, c, srv2)" "stored srv2 = stored srv"
    "frame t p = (if authenticated c then frame MsgError ResponseNotAuthorized else frame MsgAuthErr ResponseAuthErr)"
    "srv_policy srv2 = Some ps'" "deniedCommands ps' = deniedCommands ps + (if authenticated c then 1 else 0)"
  proof (cases "authenticated c")
    case True
    let ?usr = "case sessionCtx c of Some sc \<Rightarrow> Username sc | None \<Rightarrow> []" and ?cmd = "op_String (msg_Op m)"
    let ?ps = "LogDenied (wall_clock v) ?usr (remoteAddr c) ?cmd (msg_Key m) (IncDenied ps)"
    have "stored (?s\<lparr>srv_policy := Some ?ps\<rparr>) = stored srv" using s by (simp add: stored_def)
    moreover have "deniedCommands ?ps = deniedCommands ps + 1" by (simp add: LogDenied_def appendLocked_def IncDenied_def Let_def)
    ultimately show ?thesis using True assms(2-4) s(2) that [of MsgError ResponseNotAuthorized _ ?ps] by (simp add: gateMessage_def Let_def)
  next
    case False
    with assms(2,3) s that [of MsgAuthErr ResponseAuthErr ?s ps] show ?thesis by (simp add: gateMessage_def)
  qed
  obtain act c' srv' where r: "respond v (Some p, t) c srv2 = (act, c', srv')" by (metis prod_cases3)
  then have "handle_frame P v m n c srv = Returns (if act = ActNone then FrameDone else FrameClose, c', srv')"
    using g(1) by (simp add: handle_frame_def Let_def runHandler_def)
  moreover have "stored srv' = stored srv" using respond_quiet [OF r] g(2) by simp
  moreover have "outbuf c' = outbuf c @ (if write_ok v then frame t p else [])" "srv_policy srv' = Some ps'"
    using r g(4) by (auto simp: respond_def send_def Let_def Write_calls_frame split: if_splits)
  ultimately show ?thesis using g(3,5) by auto
qed

section \<open>The read loops end, or not\<close>

lemma decrypted_frames_torn:
  assumes "wire_ok (maxMsgSize srv) m" "strict_prefix buf (Marshal m)"
  shows "decrypted_frames P vs buf c srv = Returns (ActNone, buf, c, srv)"
  using Decode_torn [OF assms, of "[]" message0] by (simp add: decrypted_frames_def frames.simps [of _ P vs buf c srv])

text \<open>
  C37. A frame larger than the read buffer stops the event loop: over TLS the server decrypts into a
  buffer of 4096 bytes that never grows, so once a client sends a well-formed frame of more bytes,
  well within the message limit, the buffer fills, every further read returns nothing and no error,
  and the loop runs forever. No amount of fuel makes it return.
\<close>

theorem tls_large_frame_hangs:
  assumes "wire_ok (maxMsgSize srv) m" "readBufCap < length (Marshal m)" "\<forall>i. \<not> tls_fails (ts i)"
    and "readBuf c @ inbuf c = Marshal m @ rest" "length (readBuf c) \<le> readBufCap"
  shows "onTrafficTLS fuel P ts us c srv = None"
  using assms(3-5)
proof (induction fuel arbitrary: ts us c)
  case (Suc fuel)
  let ?space = "readBufCap - length (readBuf c)"
  have avail: "inbuf c \<noteq> []" using Suc.prems(2,3) assms(2) by (metis append_Nil2 length_append not_add_less1 not_less le_trans order.strict_trans2)
  show ?case
  proof (cases "?space = 0")
    case True
    with Suc.IH [of "\<lambda>i. ts (Suc i)" c "\<lambda>i. us (Suc i)"] Suc.prems show ?thesis by (simp add: tls_Read_def)
  next
    case False
    have "1 \<le> ?space" "1 \<le> length (inbuf c)" using False avail by (simp_all add: Suc_le_eq)
    then obtain n where r: "tls_Read (ts 0) ?space (inbuf c) = (n, None)" and n: "n \<le> ?space" "0 < n"
      using False avail Suc.prems(1) by (simp add: tls_Read_def min_le_iff_disj less_max_iff_disj)
    let ?c = "c\<lparr>readBuf := readBuf c @ take n (inbuf c), inbuf := drop n (inbuf c)\<rparr>"
    have all: "readBuf ?c @ inbuf ?c = Marshal m @ rest" using Suc.prems(2) by simp
    have len: "length (readBuf ?c) \<le> readBufCap" using n(1) False by simp
    have "prefix (readBuf ?c) (Marshal m)"
    proof (rule prefix_length_prefix)
      show "prefix (readBuf ?c) (Marshal m @ rest)" using all by (metis prefix_def)
      show "length (readBuf ?c) \<le> length (Marshal m)" using len assms(2) by simp
    qed simp
    moreover have "readBuf ?c \<noteq> Marshal m" using len assms(2) by (metis linorder_not_less)
    ultimately have "strict_prefix (readBuf ?c) (Marshal m)" by (simp add: strict_prefix_def)
    then have "decrypted_frames P (us 0) (readBuf ?c) ?c srv = Returns (ActNone, readBuf ?c, ?c, srv)"
      by (rule decrypted_frames_torn [OF assms(1)])
    then have "handleDecryptedFrames P (us 0) ?c srv = Returns (ActNone, ?c, srv)" by (simp add: handleDecryptedFrames_def)
    moreover have "onTrafficTLS fuel P (\<lambda>i. ts (Suc i)) (\<lambda>i. us (Suc i)) ?c srv = None"
      using Suc.prems(1) all len by (intro Suc.IH) simp_all
    ultimately show ?thesis using r n(2) by simp
  qed
qed simp

section \<open>Every request is answered\<close>

lemma same_data_on_shard [simp]:
  assumes "\<And>s. Engine (f s) = Engine s" "\<And>s. ID (f s) = ID s"
  shows "same_data (srv_router srv) (srv_router (on_shard sid f srv))"
  using assms by (auto simp: same_data_def on_shard_def Let_def map_update list_update_same_conv)

lemma respond_answers:
  assumes "respond v (Some p, t) c srv = (act, c', srv')" "write_ok v" "\<not> closeAfterReply c"
  shows "act = ActNone \<and> c' = c\<lparr>outbuf := outbuf c @ frame t p\<rparr> \<and> same_data (srv_router srv) (srv_router srv') \<and>
      srv_policy srv' = srv_policy srv \<and> maxMsgSize srv' = maxMsgSize srv"
proof -
  let ?s = "srv\<lparr>srv_bytesWritten := srv_bytesWritten srv + of_nat (5 + length p)\<rparr>"
  have "same_data (srv_router ?s) (srv_router (on_shard (shardID c) (AddBytesWritten (of_nat (5 + length p))) ?s))"
    by (rule same_data_on_shard) simp_all
  with assms show ?thesis by (auto simp: respond_def send_def Let_def Write_calls_frame)
qed

lemma gate_no_auth:
  assumes "msg_Type m \<noteq> MsgAuth" "gateMessage now m c srv = (g, c', srv')"
  shows "c' = c \<and> g \<noteq> GateDispatched \<and> srv_router srv' = srv_router srv \<and> maxMsgSize srv' = maxMsgSize srv"
  using assms by (auto simp: gateMessage_def Let_def split: if_splits option.splits)

lemma handle_frame_answers:
  assumes "router_ok P (srv_router srv)" "\<forall>i. exec_ok (exec_envs v i) \<and> op_now (exec_envs v i) = t" "write_ok v"
    and "msg_Type m \<noteq> MsgPing" "msg_Type m \<noteq> MsgAuth" "\<not> closeAfterReply c"
  shows "\<exists>ty p srv'. handle_frame P v m n c srv = Returns (FrameDone, c\<lparr>outbuf := outbuf c @ frame ty p\<rparr>, srv') \<and>
      router_ok P (srv_router srv') \<and> maxMsgSize srv' = maxMsgSize srv"
proof -
  let ?start = "srv\<lparr>srv_bytesRead := srv_bytesRead srv + of_nat n\<rparr>"
  let ?s = "on_shard (shardID c) (AddBytesRead (of_nat n)) ?start"
  have "same_data (srv_router ?start) (srv_router ?s)" by (rule same_data_on_shard) simp_all
  then have ok: "router_ok P (srv_router ?s)" using same_data_router(1) assms(1) by simp
  obtain g c2 srv2 where g: "gateMessage (wall_clock v) m c ?s = (g, c2, srv2)" by (metis prod_cases3)
  note gg = gate_no_auth [OF assms(5) g]
  have ok2: "router_ok P (srv_router srv2)" using gg ok by simp
  show ?thesis
  proof (cases g)
    case (GateReply ty p)
    obtain act c' srv' where r: "respond v (Some p, ty) c srv2 = (act, c', srv')" by (metis prod_cases3)
    note ra = respond_answers [OF r assms(3,6)]
    have "handle_frame P v m n c srv = Returns (FrameDone, c\<lparr>outbuf := outbuf c @ frame ty p\<rparr>, srv')"
      using g gg GateReply r ra by (simp add: handle_frame_def Let_def runHandler_def)
    then show ?thesis using ra gg ok2 same_data_router(1) by auto
  next
    case GatePass
    let ?b = "before_handler m c srv2"
    have b: "srv_router ?b = srv_router srv2" "maxMsgSize ?b = maxMsgSize srv2" by (simp_all add: before_handler_def record_event_def)
    obtain p k r' po' where h: "networkHandler P v m (remoteAddr c) (srv_router ?b) (srv_policy ?b) = Returns ((Some p, k), r', po')" "router_ok P r'"
      using networkHandler_total [of P "srv_router ?b" v t m "remoteAddr c" "srv_policy ?b"] ok2 b assms(2,4) by auto
    obtain act c' srv' where r: "respond v (Some p, k) c (?b\<lparr>srv_router := r', srv_policy := po'\<rparr>) = (act, c', srv')" by (metis prod_cases3)
    note ra = respond_answers [OF r assms(3,6)]
    have "handle_frame P v m n c srv = Returns (FrameDone, c\<lparr>outbuf := outbuf c @ frame k p\<rparr>, srv')"
      using g gg GatePass h(1) r ra by (simp add: handle_frame_def Let_def runHandler_def)
    then show ?thesis using ra gg b h(2) same_data_router(1) by auto
  qed (use gg in simp)
qed

lemma plain_frames_answers:
  assumes "list_all (wire_ok (maxMsgSize srv)) ms" "list_all (\<lambda>m. msg_Type m = MsgRequest) ms" "router_ok P (srv_router srv)" "\<forall>i. env_ok (vs i)"
    and "\<not> closeAfterReply c" "Decode tail [] (maxMsgSize srv) message0 = Returns (Inl ErrShortRead, message0)"
    and "length (concat (map Marshal ms) @ tail) < 2 ^ 32"
  shows "\<exists>reps srv'. length reps = length ms \<and> router_ok P (srv_router srv') \<and>
      plain_frames P vs (concat (map Marshal ms) @ tail) c srv =
        Returns (ActNone, tail, c\<lparr>outbuf := outbuf c @ concat (map (\<lambda>(t, p). frame t p) reps)\<rparr>, srv')"
  using assms
proof (induction ms arbitrary: vs c srv)
  case Nil
  then have "peek_ok (vs 0)" by (simp add: env_ok_def)
  then have "plain_frames P vs tail c srv = Returns (ActNone, tail, c, srv)"
    using Nil(6) unfolding plain_frames_def by (subst frames.simps) simp
  with Nil(3) show ?case by (intro exI [of _ "[]"] exI [of _ srv]) simp
next
  case (Cons m ms)
  let ?rest = "concat (map Marshal ms) @ tail"
  have m: "wire_ok (maxMsgSize srv) m" "msg_Type m \<noteq> MsgPing" "msg_Type m \<noteq> MsgAuth" using Cons.prems(1,2) by (simp_all add: msg_types)
  obtain t where e: "peek_ok (vs 0)" "write_ok (vs 0)" "\<forall>i. exec_ok (exec_envs (vs 0) i) \<and> op_now (exec_envs (vs 0) i) = t"
    using Cons.prems(4) by (auto simp: env_ok_def)
  have d: "Decode (Marshal m @ ?rest) [] (maxMsgSize srv) message0 = Returns (Inr (length (body m)), m)"
    using Decode_frame [OF m(1), of ?rest] Cons.prems(7) by simp
  obtain ty p srv1 where f: "handle_frame P (vs 0) m (5 + length (body m)) c srv = Returns (FrameDone, c\<lparr>outbuf := outbuf c @ frame ty p\<rparr>, srv1)"
    "router_ok P (srv_router srv1)" "maxMsgSize srv1 = maxMsgSize srv"
    using handle_frame_answers [OF Cons.prems(3) e(3,2) m(2,3) Cons.prems(5)] by blast
  have len: "length (Marshal m) = 5 + length (body m)"
    using frame_head(4) [of "body m" "msg_Type m"] m(1) by (simp add: Marshal_body wire_ok_def)
  have "drop (5 + length (body m)) (Marshal m @ ?rest) = ?rest" using len by simp
  then have step: "plain_frames P vs (Marshal m @ ?rest) c srv = plain_frames P (\<lambda>i. vs (Suc i)) ?rest (c\<lparr>outbuf := outbuf c @ frame ty p\<rparr>) srv1"
    using d e(1) f(1) unfolding plain_frames_def by (subst frames.simps) simp
  have "\<exists>reps srv'. length reps = length ms \<and> router_ok P (srv_router srv') \<and>
      plain_frames P (\<lambda>i. vs (Suc i)) ?rest (c\<lparr>outbuf := outbuf c @ frame ty p\<rparr>) srv1 =
        Returns (ActNone, tail, (c\<lparr>outbuf := outbuf c @ frame ty p\<rparr>)\<lparr>outbuf := outbuf (c\<lparr>outbuf := outbuf c @ frame ty p\<rparr>) @ concat (map (\<lambda>(t, p). frame t p) reps)\<rparr>, srv')"
    using Cons.prems f(2,3) by (intro Cons.IH) simp_all
  then obtain reps srv' where "length reps = length ms" "router_ok P (srv_router srv')"
    "plain_frames P (\<lambda>i. vs (Suc i)) ?rest (c\<lparr>outbuf := outbuf c @ frame ty p\<rparr>) srv1 =
        Returns (ActNone, tail, c\<lparr>outbuf := outbuf c @ frame ty p @ concat (map (\<lambda>(t, p). frame t p) reps)\<rparr>, srv')" by auto
  with step show ?case by (intro exI [of _ "(ty, p) # reps"] exI [of _ srv']) simp
qed

text \<open>
  C13. Pipelined requests are all answered: whatever requests a client sends one behind another on a
  plain connection, with whatever operation codes, keys and permissions, the loop returns, the server
  has not panicked, exactly one reply frame has been written for every complete request, the engines
  and files are still consistent, and an incomplete last frame is kept for later.
\<close>

theorem pipelined_requests_answered:
  assumes "list_all (wire_ok (maxMsgSize srv)) ms" "list_all (\<lambda>m. msg_Type m = MsgRequest) ms" "router_ok P (srv_router srv)" "\<forall>i. env_ok (vs i)"
    and "\<not> closeAfterReply c" "\<not> authPending c" "inbuf c = concat (map Marshal ms) @ tail" "length (inbuf c) < 2 ^ 32"
    and "tail = [] \<or> (wire_ok (maxMsgSize srv) m \<and> strict_prefix tail (Marshal m))"
  shows "\<exists>reps c' srv'. onTrafficPlaintext P vs c srv = Returns (ActNone, c', srv') \<and> inbuf c' = tail \<and> length reps = length ms \<and>
      outbuf c' = outbuf c @ concat (map (\<lambda>(t, p). frame t p) reps) \<and> router_ok P (srv_router srv')"
proof -
  have "Decode tail [] (maxMsgSize srv) message0 = Returns (Inl ErrShortRead, message0)"
    using assms(9) Decode_torn [of "maxMsgSize srv" m tail "[]" message0] by (auto simp: Decode_def)
  from plain_frames_answers [OF assms(1-5) this] assms(7,8) obtain reps srv' where "length reps = length ms" "router_ok P (srv_router srv')"
      "plain_frames P vs (inbuf c) c srv = Returns (ActNone, tail, c\<lparr>outbuf := outbuf c @ concat (map (\<lambda>(t, p). frame t p) reps)\<rparr>, srv')"
    by auto
  with assms(6) show ?thesis by (simp add: onTrafficPlaintext_def) blast
qed

lemma open_frame:
  assumes "srv_policy srv = None" "authenticated c" "msg_Type m = MsgRequest" "write_ok v" "\<not> closeAfterReply c"
    and "\<And>r. same_data (srv_router srv) r \<Longrightarrow> \<exists>p k r'. networkHandler P v m (remoteAddr c) r None = Returns ((Some p, k), r', None) \<and> Q p k r'"
  shows "\<exists>p k r' srv'. handle_frame P v m n c srv = Returns (FrameDone, c\<lparr>outbuf := outbuf c @ frame k p\<rparr>, srv') \<and> Q p k r' \<and>
      same_data r' (srv_router srv') \<and> srv_policy srv' = None \<and> maxMsgSize srv' = maxMsgSize srv"
proof -
  let ?start = "srv\<lparr>srv_bytesRead := srv_bytesRead srv + of_nat n\<rparr>"
  let ?s = "on_shard (shardID c) (AddBytesRead (of_nat n)) ?start"
  have same: "same_data (srv_router ?start) (srv_router ?s)" by (rule same_data_on_shard) simp_all
  have g: "gateMessage (wall_clock v) m c ?s = (GatePass, c, ?s)" using assms(1-3) by (simp add: gateMessage_def msg_types)
  let ?b = "before_handler m c ?s"
  have b: "srv_router ?b = srv_router ?s" "srv_policy ?b = None" "maxMsgSize ?b = maxMsgSize srv"
    using assms(1) by (simp_all add: before_handler_def)
  obtain p k r' where h: "networkHandler P v m (remoteAddr c) (srv_router ?b) (srv_policy ?b) = Returns ((Some p, k), r', None)" "Q p k r'"
    using assms(6) [of "srv_router ?s"] same b by auto
  obtain act c' srv' where r: "respond v (Some p, k) c (?b\<lparr>srv_router := r', srv_policy := None\<rparr>) = (act, c', srv')" by (metis prod_cases3)
  note ra = respond_answers [OF r assms(4,5)]
  have "handle_frame P v m n c srv = Returns (FrameDone, c\<lparr>outbuf := outbuf c @ frame k p\<rparr>, srv')"
    using g h(1) r ra by (simp add: handle_frame_def Let_def runHandler_def)
  then show ?thesis using ra b h(2) by auto
qed

lemma networkHandler_get:
  assumes "router_ok P r" "exec_ok (exec_envs v 0)" "msg_Type m = MsgRequest" "msg_Op m = OpGet"
  shows "\<exists>r'. networkHandler P v m remote r po = Returns (case router_view P r (op_now (exec_envs v 0)) (msg_Key m) of
      None \<Rightarrow> (Some ResponseNotFound, MsgError) | Some x \<Rightarrow> (Some x, MsgResponse), r', po)"
  using data_op_get [OF assms(1,2), of "msg_Key m" 0 remote] assms(3,4)
  by (auto simp: networkHandler_def msg_types split: option.splits)

lemma networkHandler_set:
  assumes "router_ok P r" "exec_ok (exec_envs v 0)" "msg_Type m = MsgRequest" "msg_Op m = OpSet" "msg_Key m \<noteq> []"
    and "0 < msg_TTL m" "msg_TTL m * millisecond < 2 ^ 63"
  shows "\<exists>ok r'. networkHandler P v m remote r po =
      Returns (if ok then (Some ResponseOK, MsgResponse) else (Some ResponseStorageFailure, MsgError), r', po) \<and> router_ok P r' \<and>
      (ok \<longrightarrow> (\<forall>t\<ge>op_now (exec_envs v 0). router_view P r' t (msg_Key m) =
         (if t \<le> op_now (exec_envs v 0) + msg_TTL m * millisecond then Some (msg_Value m) else None)))"
proof -
  have ttl: "int64 (msg_TTL m * millisecond) = msg_TTL m * millisecond" "0 < msg_TTL m * millisecond"
    using assms(6,7) by (simp_all add: millisecond_def)
  obtain ok r' where d: "data_op P v [''SET'', msg_Key m, msg_Value m] (msg_TTL m * millisecond) remote r =
      Returns (if ok then (Some ResponseOK, MsgResponse) else (Some ResponseStorageFailure, MsgError), r')" "router_ok P r'"
    "\<forall>t\<ge>op_now (exec_envs v 0). router_view P r' t = (if ok then (router_view P r t)(msg_Key m :=
         if past t (deadline (op_now (exec_envs v 0)) (msg_TTL m * millisecond)) then None else Some (msg_Value m)) else router_view P r t)"
    using data_op_set [OF assms(1,2)] by blast
  have "networkHandler P v m remote r po = Returns (if ok then (Some ResponseOK, MsgResponse) else (Some ResponseStorageFailure, MsgError), r', po)"
    using d(1) assms(3-5) ttl(1) by (simp add: networkHandler_def msg_types op_codes)
  moreover have "router_view P r' t (msg_Key m) = (if t \<le> op_now (exec_envs v 0) + msg_TTL m * millisecond then Some (msg_Value m) else None)"
    if ok "op_now (exec_envs v 0) \<le> t" for t
    using d(3) that ttl(2) by (simp add: deadline_def)
  ultimately show ?thesis using d(2) by (intro exI [of _ ok] exI [of _ r']) simp
qed


section \<open>A concrete server\<close>

text \<open>
  One shard without persistence, a server password and no encryption, and the steps of the transition
  system as functions, so that a short session can be evaluated.
\<close>

definition sample_server :: "router \<Rightarrow> rbac_store option \<Rightarrow> bytes \<Rightarrow> bin_server" where
  "sample_server r po pass = (case NewServer Some 0 r False pass po False quiet_log of Returns s \<Rightarrow> s)"

lemma sample_server_simps [simp]:
  "srv_router (sample_server r po pass) = r" "srv_policy (sample_server r po pass) = po" "authJobs (sample_server r po pass) = []"
  "maxMsgSize (sample_server r po pass) = defaultMaxMsgSize" "requirePassHash (sample_server r None pass) = pass"
  by (simp_all add: sample_server_def NewServer_def Let_def)

definition sample_conn :: conn where
  "sample_conn = \<lparr>conn_id = 0, shardID = 0, authenticated = True, sessionCtx = None, remoteAddr = ''10.0.0.1'', authFails = 0,
     authPending = False, closeAfterReply = False, over_tls = False, readBuf = [], inbuf = [], outbuf = []\<rparr>"

definition sample_put :: message where
  "sample_put = (let m = \<lparr>msg_Type = MsgRequest, msg_Op = OpSet, msg_TTL = 5, msg_Key = ''k'', msg_Value = ''value'', msg_Payload = []\<rparr>
     in m\<lparr>msg_Payload := request_payload m\<rparr>)"

definition sample_auth :: message where
  "sample_auth = message0\<lparr>msg_Type := MsgAuth, msg_Payload := CHR 0x00 # CHR 0x00 # CHR 0x00 # CHR 0x02 # ''pw''\<rparr>"

definition sample_get :: message where
  "sample_get = (let m = \<lparr>msg_Type = MsgRequest, msg_Op = OpGet, msg_TTL = 0, msg_Key = ''k'', msg_Value = [], msg_Payload = []\<rparr>
     in m\<lparr>msg_Payload := request_payload m\<rparr>)"

definition step_open :: "string \<Rightarrow> world \<Rightarrow> world" where
  "step_open addr w = (case OnOpen (next_id w) addr (server w) of (c, srv) \<Rightarrow>
     w\<lparr>server := srv, conns := (conns w)(next_id w := Some c), next_id := Suc (next_id w)\<rparr>)"

definition step_plain :: "prims \<Rightarrow> front_env \<Rightarrow> nat \<Rightarrow> bytes \<Rightarrow> world \<Rightarrow> world option" where
  "step_plain P v i bs w = (case conns w i of
     Some c \<Rightarrow> if over_tls c then None else
       (case onTrafficPlaintext P (\<lambda>k. v) (c\<lparr>inbuf := inbuf c @ bs\<rparr>) (server w) of Returns r \<Rightarrow> Some (finish i r w) | Panics \<Rightarrow> None)
   | None \<Rightarrow> None)"

definition step_worker :: "front_env \<Rightarrow> world \<Rightarrow> world option" where
  "step_worker v w = (case authJobs (server w) of [] \<Rightarrow> None
     | job # jobs \<Rightarrow> (let srv = (server w)\<lparr>authJobs := jobs\<rparr> in
        Some (case conns w (job_conn job) of None \<Rightarrow> w\<lparr>server := srv\<rparr> | Some c \<Rightarrow> finish (job_conn job) (authWorker v job c srv) w)))"

lemma step_open_step: "bin_step P w (EvOpen addr) (step_open addr w)"
  by (cases "OnOpen (next_id w) addr (server w)") (simp add: step_open_def opened)

lemma step_plain_step: "step_plain P v i bs w = Some w' \<Longrightarrow> bin_step P w (EvTraffic i bs) w'"
  by (auto simp: step_plain_def intro: plain split: option.splits if_splits go.splits)

lemma step_worker_step:
  assumes "step_worker v w = Some w'"
  obtains job where "bin_step P w (EvAuth job v) w'"
proof -
  from assms obtain job jobs where j: "authJobs (server w) = job # jobs" by (auto simp: step_worker_def split: list.splits)
  have "bin_step P w (EvAuth job v) w'"
    by (rule worker [where k = 0]) (use assms j in \<open>auto simp: step_worker_def Let_def split: option.splits\<close>)
  then show thesis by (rule that)
qed

definition login_world :: world where
  "login_world = \<lparr>server = sample_server one_shard None ''pw'', conns = \<lambda>i. None, next_id = 0\<rparr>"

definition logged_in :: "world option" where
  "logged_in = Option.bind (step_plain plain_prims sample_env 0 (Marshal sample_auth) (step_open ''10.0.0.1'' login_world)) (step_worker sample_env)"

lemma login_runs: "case logged_in of None \<Rightarrow> False | Some w \<Rightarrow> totalCommands (Engine (shards (srv_router (server w)) ! 0)) = 0 \<and>
   length (shards (srv_router (server w))) = 1 \<and> 
   (case step_plain plain_prims sample_env 0 (Marshal sample_get) w of None \<Rightarrow> False
    | Some w' \<Rightarrow> totalCommands (Engine (shards (srv_router (server w')) ! 0)) = 1 \<and> length (shards (srv_router (server w'))) = 1)"
  by code_simp

lemma login_world_start: "auth_required (server login_world)" "conns login_world = (\<lambda>i. None)" "authJobs (server login_world) = []"
  by (simp_all add: login_world_def auth_required_def)

theorem binary_auth_required_witness:
  "\<exists>es w w'. trace (bin_step plain_prims) login_world es w \<and> bin_step plain_prims w (EvTraffic 0 (Marshal sample_get)) w' \<and>
     stored (server w') \<noteq> stored (server w) \<and> (\<exists>job v. EvAuth job v \<in> set es \<and> job_conn job = 0 \<and> credentials_ok v job)"
proof -
  from login_runs obtain w w' where w: "logged_in = Some w" "step_plain plain_prims sample_env 0 (Marshal sample_get) w = Some w'"
    and diff: "totalCommands (Engine (shards (srv_router (server w')) ! 0)) \<noteq> totalCommands (Engine (shards (srv_router (server w)) ! 0))"
      "length (shards (srv_router (server w))) = 1" "length (shards (srv_router (server w'))) = 1"
    by (fastforce split: option.splits)
  from w(1) obtain w1 where w1: "step_plain plain_prims sample_env 0 (Marshal sample_auth) (step_open ''10.0.0.1'' login_world) = Some w1"
    "step_worker sample_env w1 = Some w" by (auto simp: logged_in_def bind_eq_Some_conv)
  obtain job where "bin_step plain_prims w1 (EvAuth job sample_env) w" by (rule step_worker_step [OF w1(2)])
  note login = this
  have run: "trace (bin_step plain_prims) login_world ((([] @ [EvOpen ''10.0.0.1'']) @ [EvTraffic 0 (Marshal sample_auth)]) @ [EvAuth job sample_env]) w"
    using login step_plain_step [OF w1(1)] step_open_step by (blast intro: trace.intros)
  have changed: "stored (server w') \<noteq> stored (server w)"
  proof
    assume "stored (server w') = stored (server w)"
    then have "map Engine (shards (srv_router (server w'))) ! 0 = map Engine (shards (srv_router (server w))) ! 0" by (simp add: stored_def)
    with diff show False by simp
  qed
  note step = step_plain_step [OF w(2)]
  from binary_auth_required [OF run login_world_start step changed] run step changed show ?thesis by blast
qed

lemma sample_requests_ok: "wire_ok defaultMaxMsgSize sample_get" "wire_ok defaultMaxMsgSize sample_put"
  "length (Marshal sample_get) = 17" "length (Marshal sample_put) = 22"
  by (simp_all add: wire_ok_def normal_def body_def Marshal_def frame_def sample_get_def sample_put_def defaultMaxMsgSize_def msg_types request_payload_def Let_def)

lemma sample_fields: "msg_Type sample_put = MsgRequest" "msg_Op sample_put = OpSet" "msg_Key sample_put = ''k''" "msg_TTL sample_put = 5"
  "msg_Type sample_get = MsgRequest" "msg_Op sample_get = OpGet" "msg_Key sample_get = ''k''"
  by (simp_all add: sample_put_def sample_get_def Let_def)

theorem binary_gate_sound_witness:
  "\<exists>fin c' srv'. handle_frame plain_prims sample_env sample_get 17 (sample_conn\<lparr>authenticated := False\<rparr>)
      (sample_server one_shard (Some (NewStore None 0)) []) = Returns (fin, c', srv') \<and> outbuf c' = frame MsgAuthErr ResponseAuthErr"
proof -
  have "msg_Type sample_get \<noteq> MsgPing" "msg_Type sample_get \<noteq> MsgAuth" by (simp_all add: sample_get_def msg_types Let_def)
  with binary_gate_sound [of "sample_server one_shard (Some (NewStore None 0)) []" "NewStore None 0" sample_get "sample_conn\<lparr>authenticated := False\<rparr>"
      plain_prims sample_env 17] show ?thesis by (simp add: sample_conn_def sample_env_def) blast
qed


theorem pipelined_requests_answered_witness:
  "\<exists>reps c' srv'. onTrafficPlaintext plain_prims (\<lambda>i. sample_env)
      (sample_conn\<lparr>authenticated := False, inbuf := Marshal sample_put @ Marshal sample_get @ take 3 (Marshal sample_put)\<rparr>)
      (sample_server two_shards (Some (NewStore None 0)) []) = Returns (ActNone, c', srv') \<and> inbuf c' = take 3 (Marshal sample_put) \<and>
      length reps = length [sample_put, sample_get] \<and>
      outbuf c' = outbuf (sample_conn\<lparr>authenticated := False, inbuf := Marshal sample_put @ Marshal sample_get @ take 3 (Marshal sample_put)\<rparr>) @
        concat (map (\<lambda>(t, p). frame t p) reps) \<and> router_ok plain_prims (srv_router srv')"
proof -
  have "length (take 3 (Marshal sample_put)) \<noteq> length (Marshal sample_put)" by (simp add: sample_requests_ok)
  then have "strict_prefix (take 3 (Marshal sample_put)) (Marshal sample_put)"
    unfolding strict_prefix_def using take_is_prefix by metis
  then show ?thesis
    by (intro pipelined_requests_answered [where m = sample_put])
      (simp_all add: two_shards_ok sample_requests_ok sample_env_ok sample_conn_def sample_fields)
qed

definition large_put :: message where
  "large_put = (let m = \<lparr>msg_Type = MsgRequest, msg_Op = OpSet, msg_TTL = 0, msg_Key = ''k'', msg_Value = replicate 5000 (CHR ''x''), msg_Payload = []\<rparr>
     in m\<lparr>msg_Payload := request_payload m\<rparr>)"

theorem tls_large_frame_hangs_witness:
  "onTrafficTLS 1000 plain_prims (\<lambda>i. \<lparr>record_len = 512, tls_fails = False\<rparr>) (\<lambda>i j. sample_env)
     (sample_conn\<lparr>over_tls := True, inbuf := Marshal large_put\<rparr>) (sample_server two_shards None []) = None"
proof -
  have "wire_ok defaultMaxMsgSize large_put" "length (Marshal large_put) = 5017"
    by (simp_all add: wire_ok_def normal_def body_def Marshal_def frame_def large_put_def defaultMaxMsgSize_def msg_types request_payload_def Let_def)
  then show ?thesis
    by (intro tls_large_frame_hangs [of _ large_put _ _ "[]"]) (simp_all add: readBufCap_def sample_conn_def)
qed

end
