(* ===== verification/Resp_Protocol.thy ===== *)
theory Resp_Protocol
  imports Stream_Codec
begin

text \<open>
  The Redis protocol, \<^verbatim>\<open>src/internal/resp/protocol.go\<close>: the parser of multibulk commands
  and the encoders of replies. The parser is shown to be stable under further input, so that commands
  can be parsed out of a stream that arrives in arbitrary pieces, and to invert the encoding of
  commands. The type \<open>resp_val\<close> is the reply a client reads; its encoding is prefix free, so
  that a stream of replies has one reading.
\<close>

section \<open>Parsing\<close>

datatype resp_error = ErrIncomplete | ErrProtocol

abbreviation CR :: char where "CR \<equiv> CHR 0x0D"
abbreviation LF :: char where "LF \<equiv> CHR 0x0A"
abbreviation CRLF :: bytes where "CRLF \<equiv> [CR, LF]"

definition maxBulkLen :: int where "maxBulkLen = 512 * 1024 * 1024"

definition parseLine :: "bytes \<Rightarrow> nat \<Rightarrow> resp_error + (int \<times> nat)" where
  "parseLine buf start =
     (let i = start + length (takeWhile (\<lambda>c. c \<noteq> CR) (drop start buf)) in
      if length buf \<le> i + 1 then Inl ErrIncomplete
      else if buf ! (i + 1) \<noteq> LF then Inl ErrProtocol
      else (case Atoi (take (i - start) (drop start buf)) of
              None \<Rightarrow> Inl ErrProtocol
            | Some v \<Rightarrow> Inr (v, i + 2)))"

definition parse_bulk :: "bytes \<Rightarrow> nat \<Rightarrow> resp_error + (bytes \<times> nat)" where
  "parse_bulk buf pos =
     (if length buf \<le> pos then Inl ErrIncomplete
      else if buf ! pos \<noteq> CHR ''$'' then Inl ErrProtocol
      else (case parseLine buf (pos + 1) of
              Inl err \<Rightarrow> Inl err
            | Inr (blen, nxt) \<Rightarrow>
                if blen < 0 \<or> maxBulkLen < blen then Inl ErrProtocol
                else let n = nat blen in
                  if length buf < nxt + n + 2 then Inl ErrIncomplete
                  else if buf ! (nxt + n) \<noteq> CR \<or> buf ! (nxt + n + 1) \<noteq> LF then Inl ErrProtocol
                  else Inr (take n (drop nxt buf), nxt + n + 2)))"

fun parse_bulks :: "nat \<Rightarrow> bytes \<Rightarrow> nat \<Rightarrow> bytes list \<Rightarrow> resp_error + (bytes list \<times> nat)" where
  "parse_bulks 0 buf pos dst = Inr (dst, pos)"
| "parse_bulks (Suc n) buf pos dst =
     (case parse_bulk buf pos of
        Inl err \<Rightarrow> Inl err
      | Inr (b, pos') \<Rightarrow> parse_bulks n buf pos' (dst @ [b]))"

definition Parse :: "bytes \<Rightarrow> resp_error + (bytes list \<times> nat)" where
  "Parse buf =
     (if buf = [] then Inl ErrIncomplete
      else if buf ! 0 \<noteq> CHR ''*'' then Inl ErrProtocol
      else (case parseLine buf 1 of
              Inl err \<Rightarrow> Inl err
            | Inr (n, pos) \<Rightarrow>
                if n < 0 \<or> maxBulkLen < n then Inl ErrProtocol else parse_bulks (nat n) buf pos []))"

section \<open>Encoding\<close>

definition respPong :: bytes where "respPong = ''+PONG'' @ CRLF"
definition respOK :: bytes where "respOK = ''+OK'' @ CRLF"
definition respNullBulk :: bytes where "respNullBulk = ''$-1'' @ CRLF"

definition AppendSimpleString :: "bytes \<Rightarrow> string \<Rightarrow> bytes" where
  "AppendSimpleString dst s = dst @ CHR ''+'' # s @ CRLF"

definition AppendError :: "bytes \<Rightarrow> string \<Rightarrow> bytes" where
  "AppendError dst s = dst @ CHR ''-'' # s @ CRLF"

definition AppendBulk :: "bytes \<Rightarrow> bytes \<Rightarrow> bytes" where
  "AppendBulk dst b = dst @ CHR ''$'' # itoa (int (length b)) @ CRLF @ b @ CRLF"

definition AppendNullBulk :: "bytes \<Rightarrow> bytes" where
  "AppendNullBulk dst = dst @ respNullBulk"

definition AppendInt :: "bytes \<Rightarrow> int \<Rightarrow> bytes" where
  "AppendInt dst n = dst @ CHR '':'' # itoa n @ CRLF"

definition AppendArray :: "bytes \<Rightarrow> nat \<Rightarrow> bytes" where
  "AppendArray dst n = dst @ CHR ''*'' # itoa (int n) @ CRLF"

definition upper_byte :: "char \<Rightarrow> char" where
  "upper_byte c = (if of_char c \<ge> (97 :: nat) \<and> of_char c \<le> (122 :: nat) then char_of (of_char c - (32 :: nat)) else c)"

definition EqualFold :: "bytes \<Rightarrow> string \<Rightarrow> bool" where
  "EqualFold a b = (length a = length b \<and> map upper_byte a = b)"

section \<open>The parser is stable under further input\<close>

lemma takeWhile_stops:
  assumes "length (takeWhile Q xs) < length xs"
  shows "takeWhile Q (xs @ ys) = takeWhile Q xs"
  using assms by (induction xs) auto

lemma parseLine_stable:
  assumes "parseLine buf start = r" "r \<noteq> Inl ErrIncomplete"
  shows "parseLine (buf @ more) start = r"
proof -
  let ?i = "start + length (takeWhile (\<lambda>c. c \<noteq> CR) (drop start buf))"
  have i: "?i + 1 < length buf" using assms by (auto simp: parseLine_def Let_def split: if_splits)
  then have "takeWhile (\<lambda>c. c \<noteq> CR) (drop start buf @ more) = takeWhile (\<lambda>c. c \<noteq> CR) (drop start buf)"
    by (intro takeWhile_stops) simp
  with i assms show ?thesis by (auto simp: parseLine_def Let_def nth_append split: if_splits)
qed

lemma parseLine_next: "parseLine buf start = Inr (v, nxt) \<Longrightarrow> start + 2 \<le> nxt \<and> nxt \<le> length buf"
  by (auto simp: parseLine_def Let_def split: if_splits option.splits)

lemma parse_bulk_stable:
  assumes "parse_bulk buf pos = r" "r \<noteq> Inl ErrIncomplete"
  shows "parse_bulk (buf @ more) pos = r"
proof -
  have len: "pos < length buf" using assms by (auto simp: parse_bulk_def split: if_splits)
  show ?thesis
  proof (cases "buf ! pos = CHR ''$''")
    case True
    with assms len have "parseLine buf (pos + 1) \<noteq> Inl ErrIncomplete" by (auto simp: parse_bulk_def)
    from parseLine_stable [OF refl this] have line: "parseLine (buf @ more) (pos + 1) = parseLine buf (pos + 1)" .
    show ?thesis
    proof (cases "parseLine buf (pos + 1)")
      case (Inr p)
      obtain v nxt where p: "p = (v, nxt)" by fastforce
      with line Inr True len assms show ?thesis by (auto simp: parse_bulk_def nth_append Let_def split: if_splits)
    qed (use line True len assms in \<open>simp add: parse_bulk_def nth_append\<close>)
  qed (use len assms in \<open>simp add: parse_bulk_def nth_append\<close>)
qed

lemma parse_bulk_next: "parse_bulk buf pos = Inr (b, pos') \<Longrightarrow> pos < pos' \<and> pos' \<le> length buf"
  using parseLine_next by (fastforce simp: parse_bulk_def Let_def split: if_splits sum.splits)

lemma parse_bulks_stable:
  "parse_bulks n buf pos dst = r \<Longrightarrow> r \<noteq> Inl ErrIncomplete \<Longrightarrow> parse_bulks n (buf @ more) pos dst = r"
proof (induction n arbitrary: pos dst)
  case (Suc n)
  then have "parse_bulk buf pos \<noteq> Inl ErrIncomplete" by auto
  from parse_bulk_stable [OF refl this] Suc show ?case by (auto split: sum.splits)
qed simp

lemma parse_bulks_next: "parse_bulks n buf pos dst = Inr (bs, pos') \<Longrightarrow> pos \<le> length buf \<Longrightarrow> pos \<le> pos' \<and> pos' \<le> length buf"
proof (induction n arbitrary: pos dst)
  case (Suc n)
  then obtain b p where "parse_bulk buf pos = Inr (b, p)" "parse_bulks n buf p (dst @ [b]) = Inr (bs, pos')" by (auto split: sum.splits)
  with Suc.IH parse_bulk_next show ?case by fastforce
qed simp

lemma Parse_stable:
  assumes "Parse buf = r" "r \<noteq> Inl ErrIncomplete"
  shows "Parse (buf @ more) = r"
proof -
  have ne: "buf \<noteq> []" using assms by (auto simp: Parse_def)
  show ?thesis
  proof (cases "buf ! 0 = CHR ''*''")
    case True
    with assms ne have "parseLine buf 1 \<noteq> Inl ErrIncomplete" by (auto simp: Parse_def)
    from parseLine_stable [OF refl this] parse_bulks_stable [OF refl] True ne assms show ?thesis
      by (auto simp: Parse_def nth_append split: sum.splits if_splits)
  qed (use ne assms in \<open>simp add: Parse_def nth_append\<close>)
qed

lemma Parse_next: "Parse buf = Inr (as, n) \<Longrightarrow> 0 < n \<and> n \<le> length buf"
  using parseLine_next [of buf 1] parse_bulks_next [of _ buf] by (fastforce simp: Parse_def split: if_splits sum.splits)

section \<open>Commands as bytes\<close>

definition enc_command :: "bytes list \<Rightarrow> bytes" where
  "enc_command as = foldl AppendBulk (AppendArray [] (length as)) as"

definition cmd_fits :: "bytes list \<Rightarrow> bool" where
  "cmd_fits as \<longleftrightarrow> int (length as) \<le> maxBulkLen \<and> list_all (\<lambda>b. int (length b) \<le> maxBulkLen) as"

abbreviation bulk_bytes :: "bytes \<Rightarrow> bytes" where
  "bulk_bytes b \<equiv> AppendBulk [] b"

lemma AppendBulk_append: "AppendBulk dst b = dst @ bulk_bytes b"
  by (simp add: AppendBulk_def)

lemma foldl_AppendBulk: "foldl AppendBulk dst as = dst @ concat (map bulk_bytes as)"
proof (induction as arbitrary: dst)
  case (Cons a as)
  then show ?case using AppendBulk_append [of dst a] by simp
qed simp

lemma maxBulkLen_nat: "0 \<le> maxBulkLen" "maxBulkLen < 2 ^ 63"
  by (simp_all add: maxBulkLen_def)

lemma parseLine_itoa:
  assumes "buf = pre @ itoa n @ CRLF @ rest" "- (2 ^ 63) \<le> n" "n < 2 ^ 63"
  shows "parseLine buf (length pre) = Inr (n, length pre + length (itoa n) + 2)"
proof -
  have "takeWhile (\<lambda>c. c \<noteq> CR) (itoa n @ CRLF @ rest) = itoa n"
    using itoa_no_CR [of n] by (subst takeWhile_append2) auto
  with assms show ?thesis by (simp add: parseLine_def Let_def nth_append Atoi_itoa)
qed

lemma parse_bulk_enc:
  assumes "int (length b) \<le> maxBulkLen"
  shows "parse_bulk (pre @ bulk_bytes b @ rest) (length pre) = Inr (b, length pre + length (bulk_bytes b))"
proof -
  let ?buf = "pre @ bulk_bytes b @ rest" and ?n = "int (length b)"
  have "parseLine ?buf (length (pre @ ''$'')) = Inr (?n, length (pre @ ''$'') + length (itoa ?n) + 2)"
    using assms maxBulkLen_nat(2) by (intro parseLine_itoa [where rest = "b @ CRLF @ rest"]) (auto simp: AppendBulk_def)
  with assms show ?thesis by (simp add: parse_bulk_def AppendBulk_def Let_def nth_append numeral_3_eq_3)
qed

lemma parse_bulks_enc:
  "list_all (\<lambda>b. int (length b) \<le> maxBulkLen) as \<Longrightarrow>
   parse_bulks (length as) (pre @ concat (map bulk_bytes as) @ rest) (length pre) dst =
     Inr (dst @ as, length pre + length (concat (map bulk_bytes as)))"
proof (induction as arbitrary: pre dst)
  case (Cons a as)
  have "parse_bulk (pre @ bulk_bytes a @ concat (map bulk_bytes as) @ rest) (length pre) = Inr (a, length (pre @ bulk_bytes a))"
    using Cons.prems parse_bulk_enc by simp
  with Cons.IH [of "pre @ bulk_bytes a" "dst @ [a]"] Cons.prems show ?case by simp
qed simp

lemma Parse_enc:
  assumes "cmd_fits as"
  shows "Parse (enc_command as @ rest) = Inr (as, length (enc_command as))"
proof -
  let ?hd = "AppendArray [] (length as)"
  have enc: "enc_command as = ?hd @ concat (map bulk_bytes as)" by (simp add: enc_command_def foldl_AppendBulk)
  have "parseLine (enc_command as @ rest) (length ''*'') = Inr (int (length as), length ''*'' + length (itoa (int (length as))) + 2)"
    using assms maxBulkLen_nat by (intro parseLine_itoa [where rest = "concat (map bulk_bytes as) @ rest"])
      (auto simp: enc AppendArray_def cmd_fits_def)
  moreover have "parse_bulks (length as) (enc_command as @ rest) (length ?hd) [] = Inr (as, length (enc_command as))"
    using parse_bulks_enc [of as ?hd rest "[]"] assms by (simp add: enc cmd_fits_def)
  ultimately show ?thesis using assms by (simp add: Parse_def enc AppendArray_def cmd_fits_def)
qed

lemma Parse_torn:
  assumes "cmd_fits as" "strict_prefix p (enc_command as)"
  shows "Parse p = Inl ErrIncomplete"
proof (rule ccontr)
  assume "Parse p \<noteq> Inl ErrIncomplete"
  moreover from assms(2) obtain q where q: "enc_command as = p @ q" "q \<noteq> []" by (auto simp: strict_prefix_def prefix_def)
  ultimately have "Parse p = Inr (as, length (enc_command as))"
    using Parse_stable [OF refl] Parse_enc [OF assms(1), of "[]"] by (metis append_Nil2)
  with Parse_next q show False by fastforce
qed

definition parse_dec :: "bytes \<Rightarrow> (bytes list \<times> nat) option" where
  "parse_dec buf = (case Parse buf of Inl err \<Rightarrow> None | Inr r \<Rightarrow> Some r)"

interpretation pcodec: stream_codec enc_command parse_dec cmd_fits
proof unfold_locales
  show "enc_command as \<noteq> []" for as by (simp add: enc_command_def foldl_AppendBulk AppendArray_def)
qed (simp_all add: parse_dec_def Parse_enc Parse_torn)

section \<open>A stream in pieces\<close>

text \<open>The bytes of a connection arrive in pieces; what is left of one piece is parsed with the next.\<close>

fun parse_chunks :: "bytes \<Rightarrow> bytes list \<Rightarrow> bytes list list \<times> bytes" where
  "parse_chunks r [] = ([], r)"
| "parse_chunks r (c # cs) =
     (case decode_all parse_dec (r @ c) of (xs, r') \<Rightarrow> (case parse_chunks r' cs of (ys, r'') \<Rightarrow> (xs @ ys, r'')))"

lemma parse_dec_stable: "parse_dec buf = Some (as, n) \<Longrightarrow> parse_dec (buf @ more) = Some (as, n) \<and> 0 < n \<and> n \<le> length buf"
  using Parse_stable [of buf "Inr (as, n)" more] Parse_next [of buf as n] by (auto simp: parse_dec_def split: sum.splits)

lemma decode_all_append:
  "decode_all parse_dec (a @ b) =
     (case decode_all parse_dec a of (xs, r) \<Rightarrow> (case decode_all parse_dec (r @ b) of (ys, r') \<Rightarrow> (xs @ ys, r')))"
proof (induction "length a" arbitrary: a rule: less_induct)
  case less
  show ?case
  proof (cases "parse_dec a")
    case None
    then have "decode_all parse_dec a = ([], a)" by (subst decode_all.simps) simp
    then show ?thesis by (simp split: prod.split)
  next
    case (Some p)
    obtain as n where p: "p = (as, n)" by fastforce
    from parse_dec_stable Some p have n: "parse_dec (a @ b) = Some (as, n)" "0 < n" "n \<le> length a" by auto
    then have "length (drop n a) < length a" by simp
    note IH = less.hyps [OF this]
    have "decode_all parse_dec (a @ b) = (case decode_all parse_dec (drop n a @ b) of (ys, r') \<Rightarrow> (as # ys, r'))"
      using n by (subst decode_all.simps) (simp split: prod.split)
    moreover have "decode_all parse_dec a = (case decode_all parse_dec (drop n a) of (ys, r') \<Rightarrow> (as # ys, r'))"
      using Some p n by (subst decode_all.simps) (simp split: prod.split)
    ultimately show ?thesis using IH by (simp split: prod.splits)
  qed
qed

lemma parse_chunks_all: "parse_chunks r cs = (case cs of [] \<Rightarrow> ([], r) | _ \<Rightarrow> decode_all parse_dec (r @ concat cs))"
proof (induction cs arbitrary: r)
  case (Cons c cs)
  obtain xs r' where d: "decode_all parse_dec (r @ c) = (xs, r')" by fastforce
  show ?case
  proof (cases cs)
    case Nil
    then show ?thesis using d by simp
  next
    case (Cons c' cs')
    with Cons.IH [of r'] d decode_all_append [of "r @ c" "concat cs"] show ?thesis by (simp split: prod.split)
  qed
qed simp

text \<open>
  C21. However the network cuts a stream of commands into pieces, the server reads the same commands:
  the bytes of any commands within the length limits, followed by an incomplete one, give exactly
  these commands in order, and the incomplete rest is kept.
\<close>

theorem resp_commands_any_pieces:
  assumes "list_all cmd_fits cmds" "concat cs = concat (map enc_command cmds) @ part" "cs \<noteq> []"
    and "part = [] \<or> (cmd_fits c \<and> strict_prefix part (enc_command c))"
  shows "parse_chunks [] cs = (cmds, part)"
proof -
  have "parse_dec [] = None" by (simp add: parse_dec_def Parse_def)
  moreover have "pcodec.torn part" using assms(4) by (auto simp: pcodec.torn_def)
  ultimately have "decode_all parse_dec (concat cs) = (cmds, part)"
    using pcodec.decode_all_enc [OF assms(1)] assms(2) by simp
  with assms(3) show ?thesis by (cases cs) (simp_all add: parse_chunks_all)
qed

theorem resp_commands_any_pieces_witness:
  "parse_chunks [] [take 5 (enc_command [''GET'', ''k'']), drop 5 (enc_command [''GET'', ''k'']) @ take 9 (enc_command [''PING'']), []] =
     ([[''GET'', ''k'']], take 9 (enc_command [''PING'']))"
proof -
  have fits: "cmd_fits [''GET'', ''k'']" "cmd_fits [''PING'']" by (simp_all add: cmd_fits_def maxBulkLen_def)
  have "9 < length (enc_command [''PING''])" by code_simp
  then have "length (take 9 (enc_command [''PING''])) \<noteq> length (enc_command [''PING''])" by simp
  then have "strict_prefix (take 9 (enc_command [''PING''])) (enc_command [''PING''])"
    unfolding strict_prefix_def using take_is_prefix by metis
  with fits show ?thesis
    by (intro resp_commands_any_pieces [where c = "[''PING'']"]) simp_all
qed

section \<open>Replies as values\<close>

datatype resp_val = RSimple string | RError string | RInt int | RBulk bytes | RNull | RArray "resp_val list"

fun enc_val :: "resp_val \<Rightarrow> bytes" where
  "enc_val (RSimple s) = AppendSimpleString [] s"
| "enc_val (RError s) = AppendError [] s"
| "enc_val (RInt n) = AppendInt [] n"
| "enc_val (RBulk b) = AppendBulk [] b"
| "enc_val RNull = AppendNullBulk []"
| "enc_val (RArray vs) = AppendArray [] (length vs) @ concat (map enc_val vs)"

text \<open>A value a client can read: no line break inside a line.\<close>

definition line_ok :: "string \<Rightarrow> bool" where
  "line_ok s \<longleftrightarrow> CR \<notin> set s \<and> LF \<notin> set s"

fun val_ok :: "resp_val \<Rightarrow> bool" where
  "val_ok (RSimple s) = line_ok s"
| "val_ok (RError s) = line_ok s"
| "val_ok (RArray vs) = list_all val_ok vs"
| "val_ok v = True"

lemma line_unique:
  "CR \<notin> set a \<Longrightarrow> CR \<notin> set b \<Longrightarrow> a @ CR # r = b @ CR # r' \<Longrightarrow> a = b \<and> r = r'"
proof (induction a arbitrary: b)
  case Nil
  then show ?case by (cases b) auto
next
  case (Cons x a)
  then show ?case by (cases b) auto
qed

lemma itoa_inj: "itoa m = itoa n \<longleftrightarrow> m = n"
proof
  assume e: "itoa m = itoa n"
  have neg: "(n < 0) = (hd (itoa n) = CHR ''-'')" for n using dec_nat_hd by (simp add: itoa_def)
  have val: "digits_val (if n < 0 then tl (itoa n) else itoa n) = nat \<bar>n\<bar>" for n by (simp add: itoa_def)
  from e neg [of m] neg [of n] val [of m] val [of n] show "m = n" by (auto split: if_splits)
qed simp

lemma null_no_len: "itoa (int n) @ CR # r \<noteq> CHR ''-'' # x"
  using dec_nat_hd [of n] dec_nat_nonempty [of n] by (cases "dec_nat n") (auto simp: itoa_def)

lemmas enc_heads = AppendSimpleString_def AppendError_def AppendInt_def AppendBulk_def AppendNullBulk_def AppendArray_def respNullBulk_def

lemma enc_val_unique:
  "val_ok v \<Longrightarrow> val_ok w \<Longrightarrow> enc_val v @ r = enc_val w @ r' \<Longrightarrow> v = w \<and> r = r'"
proof (induction v arbitrary: w r r')
  case (RSimple s)
  then show ?case using line_unique [of s _ "LF # r"] by (cases w) (auto simp: enc_heads line_ok_def)
next
  case (RError s)
  then show ?case using line_unique [of s _ "LF # r"] by (cases w) (auto simp: enc_heads line_ok_def)
next
  case (RInt n)
  show ?case
  proof (cases w)
    case w: (RInt m)
    with RInt.prems have "itoa n @ CR # LF # r = itoa m @ CR # LF # r'" by (simp add: enc_heads)
    from line_unique [OF itoa_no_CR itoa_no_CR this] have e: "itoa n = itoa m" "r = r'" by auto
    then show ?thesis using w by (simp add: itoa_inj)
  qed (use RInt.prems(3) in \<open>simp_all add: enc_heads\<close>)
next
  case (RBulk b)
  show ?case
  proof (cases w)
    case w: (RBulk b')
    with RBulk.prems have "itoa (int (length b)) @ CR # LF # b @ CR # LF # r = itoa (int (length b')) @ CR # LF # b' @ CR # LF # r'"
      by (simp add: enc_heads)
    from line_unique [OF itoa_no_CR itoa_no_CR this] have e: "itoa (int (length b)) = itoa (int (length b'))" "b @ CR # LF # r = b' @ CR # LF # r'" by auto
    then have "length b = length b'" by (simp add: itoa_inj)
    with e(2) w show ?thesis by simp
  qed (use RBulk.prems(3) null_no_len [of "length b"] in \<open>simp_all add: enc_heads\<close>)
next
  case RNull
  have "itoa (int n) @ CR # x \<noteq> CHR ''-'' # y" "CHR ''-'' # y \<noteq> itoa (int n) @ CR # x" for n x y using null_no_len by metis+
  with RNull show ?case by (cases w) (simp_all add: enc_heads)
next
  case (RArray vs)
  show ?case
  proof (cases w)
    case w: (RArray ws)
    let ?n = "int (length vs)" and ?m = "int (length ws)"
    from RArray.prems w have "itoa ?n @ CR # LF # concat (map enc_val vs) @ r = itoa ?m @ CR # LF # concat (map enc_val ws) @ r'"
      by (simp add: enc_heads)
    from line_unique [OF itoa_no_CR itoa_no_CR this] have e: "itoa ?n = itoa ?m" "concat (map enc_val vs) @ r = concat (map enc_val ws) @ r'" by auto
    have ok: "list_all val_ok vs" "list_all val_ok ws" and len: "length vs = length ws" using RArray.prems w e(1) by (simp_all add: itoa_inj)
    have "vs = ws \<and> r = r'" using len e(2) ok RArray.IH
    proof (induction vs ws arbitrary: r r' rule: list_induct2)
      case (Cons x xs y ys)
      from Cons.prems(4) [of x y "concat (map enc_val xs) @ r" "concat (map enc_val ys) @ r'"] Cons.prems(1-3)
      have "x = y" "concat (map enc_val xs) @ r = concat (map enc_val ys) @ r'" by auto
      moreover have "xs = ys \<and> r = r'"
      proof (rule Cons.IH)
        show "xa = w \<and> q = q'" if "xa \<in> set xs" "val_ok xa" "val_ok w" "enc_val xa @ q = enc_val w @ q'" for xa w q q'
          using that by (intro Cons.prems(4)) simp_all
      qed (use Cons.prems(2,3) calculation(2) in simp_all)
      ultimately show ?case by simp
    qed simp
    then show ?thesis using w by simp
  qed (use RArray.prems(3) in \<open>simp_all add: enc_heads\<close>)
qed

lemma enc_vals_unique:
  "list_all val_ok vs \<Longrightarrow> list_all val_ok ws \<Longrightarrow> length vs \<le> length ws \<Longrightarrow>
   concat (map enc_val vs) @ r = concat (map enc_val ws) \<Longrightarrow> vs = take (length vs) ws \<and> r = concat (map enc_val (drop (length vs) ws))"
proof (induction vs arbitrary: ws)
  case (Cons v vs)
  then obtain w ws' where w: "ws = w # ws'" by (cases ws) auto
  with Cons.prems enc_val_unique [of v w "concat (map enc_val vs) @ r" "concat (map enc_val ws')"] have
    "v = w" "concat (map enc_val vs) @ r = concat (map enc_val ws')" by auto
  with Cons.IH [of ws'] Cons.prems w show ?case by simp
qed simp

section \<open>Appending replies\<close>

definition array_hd :: "nat \<Rightarrow> bytes" where
  "array_hd n = AppendArray [] n"

lemma enc_RArray: "enc_val (RArray vs) = array_hd (length vs) @ concat (map enc_val vs)"
  by (simp add: array_hd_def)

declare enc_val.simps [simp del]

named_theorems append_reply

lemma Append_enc [append_reply]:
  "AppendSimpleString out s = out @ enc_val (RSimple s)"
  "AppendError out s = out @ enc_val (RError s)"
  "AppendInt out n = out @ enc_val (RInt n)"
  "AppendBulk out b = out @ enc_val (RBulk b)"
  "AppendNullBulk out = out @ enc_val RNull"
  "AppendArray out k = out @ array_hd k"
  by (simp_all add: enc_val.simps enc_heads array_hd_def)

lemma respOK_enc [append_reply]: "respOK = enc_val (RSimple ''OK'')"
  and respPong_enc [append_reply]: "respPong = enc_val (RSimple ''PONG'')"
  by (simp_all add: enc_val.simps enc_heads respOK_def respPong_def)

lemma foldl_appends: "(\<And>out x. x \<in> set xs \<Longrightarrow> f out x = out @ concat (map enc_val (g x))) \<Longrightarrow>
    foldl f out xs = out @ concat (map enc_val (concat (map g xs)))"
  by (induction xs arbitrary: out) auto

lemma foldl_bulks [append_reply]: "foldl AppendBulk out bs = out @ concat (map enc_val (map RBulk bs))"
  using foldl_appends [of bs AppendBulk "\<lambda>b. [RBulk b]"] by (simp add: append_reply comp_def)

lemma line_ok_append [simp]: "line_ok (a @ b) \<longleftrightarrow> line_ok a \<and> line_ok b"
  and line_ok_Cons [simp]: "line_ok (c # s) \<longleftrightarrow> c \<noteq> CR \<and> c \<noteq> LF \<and> line_ok s"
  and line_ok_Nil [simp]: "line_ok []"
  by (auto simp: line_ok_def)

end
