(* ===== verification/Resp_Admin.thy ===== *)
theory Resp_Admin
  imports Resp_Protocol Frontend
begin

text \<open>
  The keyless commands of the Redis front end: COMMAND with its table
  (\<^verbatim>\<open>src/internal/resp/command.go\<close>), ROLE (\<^verbatim>\<open>role.go\<close>) and ACL
  (\<^verbatim>\<open>acl.go\<close>). Every handler appends its reply to the bytes collected so far. The lemmas
  say which reply value it appends, and that glob patterns mean what they say.
\<close>

section \<open>The command table\<close>

datatype commandSpec =
  CommandSpec (cs_name: string) (cs_arity: int) (cs_flags: "string list") (cs_firstKey: int) (cs_lastKey: int) (cs_step: int)
    (cs_summary: string) (cs_since: string) (cs_group: string) (cs_complexity: string) (cs_subs: "commandSpec list")

definition sub_spec :: "string \<Rightarrow> int \<Rightarrow> string \<Rightarrow> string \<Rightarrow> string \<Rightarrow> string \<Rightarrow> commandSpec" where
  "sub_spec name arity summary since grp complexity = CommandSpec name arity [] 0 0 0 summary since grp complexity []"

definition respCommands :: "commandSpec list" where
  "respCommands =
     [CommandSpec ''acl'' (- 2) [''admin'', ''noscript'', ''loading'', ''stale''] 0 0 0 ''Manage the access control list'' ''1.1.0'' ''server'' ''O(1)''
        [sub_spec ''setuser'' (- 4) ''Modify or create a user'' ''1.1.0'' ''server'' ''O(1)'',
         sub_spec ''deluser'' 3 ''Delete a user'' ''1.1.0'' ''server'' ''O(1)'',
         sub_spec ''list'' 2 ''List users and their rules'' ''1.1.0'' ''server'' ''O(N)'',
         sub_spec ''log'' (- 2) ''Show recent ACL denials'' ''1.1.0'' ''server'' ''O(N)''],
      CommandSpec ''auth'' (- 2) [''noscript'', ''loading'', ''stale'', ''fast''] 0 0 0 ''Authenticate to the server'' ''1.0.0'' ''connection'' ''O(1)''
        [],
      CommandSpec ''command'' (- 1) [] 0 0 0 ''Get details about server commands'' ''2.8.13'' ''server'' ''O(N)''
        [sub_spec ''count'' 2 ''Return the total number of commands in the server'' ''1.2.0'' ''server'' ''O(1)'',
         sub_spec ''docs'' (- 2) ''Return documentary information about commands'' ''1.2.0'' ''server'' ''O(N)'',
         sub_spec ''info'' (- 2) ''Return details about multiple commands'' ''1.2.0'' ''server'' ''O(N)'',
         sub_spec ''list'' (- 2) (''Return a list of the server'' @ [CHR 0x27] @ ''s command names'') ''1.2.0'' ''server'' ''O(N)'',
         sub_spec ''help'' 2 ''Print this help'' ''1.2.0'' ''server'' ''O(1)''],
      CommandSpec ''del'' (- 2) [''write''] 1 (- 1) 1 ''Delete one or more keys'' ''1.0.0'' ''generic'' ''O(N)''
        [],
      CommandSpec ''get'' 2 [''readonly'', ''fast''] 1 1 1 ''Get the value of a key'' ''1.0.0'' ''string'' ''O(1)''
        [],
      CommandSpec ''ping'' (- 1) [''fast''] 0 0 0 ''Ping the server'' ''1.0.0'' ''connection'' ''O(1)''
        [],
      CommandSpec ''quit'' 1 [''noscript'', ''loading'', ''stale''] 0 0 0 ''Close the connection'' ''1.0.0'' ''connection'' ''O(1)''
        [],
      CommandSpec ''role'' (- 2) [''admin'', ''noscript'', ''loading'', ''stale''] 0 0 0 ''Manage the access control list roles'' ''1.1.0'' ''server'' ''O(1)''
        [sub_spec ''create'' (- 4) ''Create a role'' ''1.1.0'' ''server'' ''O(1)'',
         sub_spec ''setuser'' (- 4) ''Assign a role and password to a user'' ''1.1.0'' ''server'' ''O(1)'',
         sub_spec ''deluser'' 3 ''Delete a user'' ''1.1.0'' ''server'' ''O(1)'',
         sub_spec ''delete'' 3 ''Delete a role'' ''1.1.0'' ''server'' ''O(1)'',
         sub_spec ''list'' 2 ''List roles and their users'' ''1.1.0'' ''server'' ''O(N)'',
         sub_spec ''getuser'' 3 (''Show a user'' @ [CHR 0x27] @ ''s role'') ''1.1.0'' ''server'' ''O(1)''],
      CommandSpec ''set'' (- 3) [''write'', ''denyoom''] 1 1 1 (''Set the string value of a key, ignoring its type. The key is created if it doesn'' @ [CHR 0x27] @ ''t exist.'') ''1.0.0'' ''string'' ''O(1)''
        [],
      CommandSpec ''starttls'' 1 [''noscript'', ''loading'', ''stale''] 0 0 0 ''Upgrade the connection to TLS'' ''1.1.0'' ''connection'' ''O(1)''
        []]"

definition aclCategories :: "string \<Rightarrow> string list" where
  "aclCategories name =
     (if name \<in> cs_name ` set respCommands
      then (case LookupCommand name of Some i \<Rightarrow> CategoriesForCommand i | None \<Rightarrow> []) else [])"

text \<open>
  \<^verbatim>\<open>strings.EqualFold\<close> against a name of ASCII letters: besides the other case of a letter,
  only the Kelvin sign and the long s fold to one.
\<close>

fun str_EqualFold :: "string \<Rightarrow> string \<Rightarrow> bool" where
  "str_EqualFold s [] = (s = [])"
| "str_EqualFold s (d # t) =
     (case s of
        [] \<Rightarrow> False
      | c # s1 \<Rightarrow>
          if ascii_lower c = ascii_lower d then str_EqualFold s1 t
          else if ascii_lower d = CHR ''k'' \<and> take 3 s = [CHR 0xE2, CHR 0x84, CHR 0xAA] then str_EqualFold (drop 3 s) t
          else if ascii_lower d = CHR ''s'' \<and> take 2 s = [CHR 0xC5, CHR 0xBF] then str_EqualFold (drop 2 s) t
          else False)"

definition containsFold :: "string list \<Rightarrow> string \<Rightarrow> bool" where
  "containsFold ss val = list_ex (str_EqualFold val) ss"

definition findCommand :: "bytes \<Rightarrow> (commandSpec \<times> string) option" where
  "findCommand name =
     (case find (\<lambda>c. str_EqualFold name (cs_name c)) respCommands of
        Some c \<Rightarrow> Some (c, [])
      | None \<Rightarrow>
          if CHR ''|'' \<in> set name then
            let p = takeWhile (\<lambda>c. c \<noteq> CHR ''|'') name; sub = drop (length p + 1) name in
            map_option (\<lambda>(c, s). (s, cs_name c))
              (find (\<lambda>(c, s). str_EqualFold p (cs_name c) \<and> str_EqualFold sub (cs_name s))
                 (concat (map (\<lambda>c. map (Pair c) (cs_subs c)) respCommands)))
          else None)"

function globMatch :: "string \<Rightarrow> string \<Rightarrow> bool" where
  "globMatch pat s =
     (case pat of
        [] \<Rightarrow> s = []
      | c # p \<Rightarrow>
          if c = CHR ''*'' then
            let p' = dropWhile (\<lambda>c. c = CHR ''*'') p in
            if p' = [] then True else list_ex (\<lambda>i. globMatch p' (drop i s)) [0..<length s + 1]
          else if c = CHR ''?'' then (case s of [] \<Rightarrow> False | d # s' \<Rightarrow> globMatch p s')
          else (case s of [] \<Rightarrow> False | d # s' \<Rightarrow> d = c \<and> globMatch p s'))"
  by pat_completeness auto
termination
  by (relation "measure (\<lambda>(pat, s). length pat)") (auto simp: le_imp_less_Suc length_dropWhile_le)

declare globMatch.simps [simp del]

section \<open>COMMAND\<close>

definition appendSimpleStringArray :: "bytes \<Rightarrow> string list \<Rightarrow> bytes" where
  "appendSimpleStringArray out ss = foldl AppendSimpleString (AppendArray out (length ss)) ss"

definition appendACLCats :: "bytes \<Rightarrow> string list \<Rightarrow> bytes" where
  "appendACLCats out cats = foldl (\<lambda>out v. AppendSimpleString out (CHR ''@'' # v)) (AppendArray out (length cats)) cats"

definition appendKeySpecs :: "bytes \<Rightarrow> commandSpec \<Rightarrow> bytes" where
  "appendKeySpecs out c =
     (if cs_firstKey c = 0 then AppendArray out 0
      else
        let flags = (if ''write'' \<in> set (cs_flags c) then [''RW'', ''access'', ''update''] else [''RO'', ''access'']);
            lastkey = (if cs_lastKey c = - 1 then - 1 else cs_lastKey c - cs_firstKey c);
            out = AppendArray (AppendArray out 1) 6;
            out = appendSimpleStringArray (AppendBulk out ''flags'') flags;
            out = AppendArray (AppendBulk out ''begin_search'') 4;
            out = AppendBulk (AppendBulk out ''type'') ''index'';
            out = AppendArray (AppendBulk out ''spec'') 2;
            out = AppendInt (AppendBulk out ''index'') (cs_firstKey c);
            out = AppendArray (AppendBulk out ''find_keys'') 4;
            out = AppendBulk (AppendBulk out ''type'') ''range'';
            out = AppendArray (AppendBulk out ''spec'') 6;
            out = AppendInt (AppendBulk out ''lastkey'') lastkey;
            out = AppendInt (AppendBulk out ''keystep'') (cs_step c)
        in AppendInt (AppendBulk out ''limit'') 0)"

definition full_name :: "string \<Rightarrow> commandSpec \<Rightarrow> string" where
  "full_name parent c = (if parent \<noteq> [] then parent @ CHR ''|'' # cs_name c else cs_name c)"

fun appendCommandInfo :: "bytes \<Rightarrow> string \<Rightarrow> commandSpec \<Rightarrow> bytes" where
  "appendCommandInfo out parent (CommandSpec nm ar fl fk lk st su si gr co subs) =
     (let c = CommandSpec nm ar fl fk lk st su si gr co subs;
          name = full_name parent c;
          out = AppendInt (AppendBulk (AppendArray out 10) name) ar;
          out = appendSimpleStringArray out fl;
          out = AppendInt (AppendInt (AppendInt out fk) lk) st;
          out = appendACLCats out (aclCategories name);
          out = AppendArray out 0;
          out = appendKeySpecs out c
      in foldl (\<lambda>out s. appendCommandInfo out name s) (AppendArray out (length subs)) subs)"

definition appendCommandDoc :: "bytes \<Rightarrow> string \<Rightarrow> commandSpec \<Rightarrow> bytes" where
  "appendCommandDoc out parent c =
     foldl AppendBulk (AppendArray (AppendBulk out (full_name parent c)) 8)
       [''summary'', cs_summary c, ''since'', cs_since c, ''group'', cs_group c, ''complexity'', cs_complexity c]"

definition appendCommandDocSubs :: "bytes \<Rightarrow> commandSpec \<Rightarrow> bytes" where
  "appendCommandDocSubs out c = foldl (\<lambda>out s. appendCommandDoc out (cs_name c) s) out (cs_subs c)"

definition commandCount :: "bytes list \<Rightarrow> bytes \<Rightarrow> bytes" where
  "commandCount as out =
     (if length as \<noteq> 2 then AppendError out (wrong_args ''command|count'') else AppendInt out (int (length respCommands)))"

definition commandInfoAll :: "bytes \<Rightarrow> bytes" where
  "commandInfoAll out = foldl (\<lambda>out c. appendCommandInfo out [] c) (AppendArray out (length respCommands)) respCommands"

definition commandInfo :: "bytes list \<Rightarrow> bytes \<Rightarrow> bytes" where
  "commandInfo as out =
     (if length as = 2 then commandInfoAll out
      else foldl (\<lambda>out name. case findCommand name of Some (c, parent) \<Rightarrow> appendCommandInfo out parent c | None \<Rightarrow> AppendNullBulk out)
             (AppendArray out (length as - 2)) (drop 2 as))"

definition commandDocs :: "bytes list \<Rightarrow> bytes \<Rightarrow> bytes" where
  "commandDocs as out =
     (if length as = 2 then
        let n = sum_list (map (\<lambda>c. 1 + length (cs_subs c)) respCommands) in
        foldl (\<lambda>out c. appendCommandDocSubs (appendCommandDoc out [] c) c) (AppendArray out (2 * n)) respCommands
      else
        let n = sum_list (map (\<lambda>name. case findCommand name of
                    Some (c, parent) \<Rightarrow> 2 + (if parent = [] then 2 * length (cs_subs c) else 0) | None \<Rightarrow> 0) (drop 2 as)) in
        foldl (\<lambda>out name. case findCommand name of
                    Some (c, parent) \<Rightarrow>
                      (if parent = [] then appendCommandDocSubs (appendCommandDoc out parent c) c else appendCommandDoc out parent c)
                  | None \<Rightarrow> out) (AppendArray out n) (drop 2 as))"

definition TrimPrefix :: "string \<Rightarrow> string \<Rightarrow> string" where
  "TrimPrefix s p = (if HasPrefix s p then drop (length p) s else s)"

definition list_names :: "bytes list \<Rightarrow> string + string list" where
  "list_names as =
     (if length as = 2 then Inr (map cs_name respCommands)
      else if EqualFold (as ! 2) ''FILTERBY'' then
        if length as \<noteq> 5 then Inl (wrong_args ''command|list'')
        else if EqualFold (as ! 3) ''MODULE'' then Inr []
        else if EqualFold (as ! 3) ''ACLCAT'' then
          Inr (filter (\<lambda>n. containsFold (aclCategories n) (ToLower (TrimPrefix (as ! 4) ''@''))) (map cs_name respCommands))
        else if EqualFold (as ! 3) ''PATTERN'' then Inr (filter (globMatch (ToLower (as ! 4))) (map cs_name respCommands))
        else Inl (''ERR unknown command list filter type '' @ [CHR 0x27] @ as ! 3 @ [CHR 0x27])
      else Inl ''ERR syntax error'')"

definition commandList :: "bytes list \<Rightarrow> bytes \<Rightarrow> bytes" where
  "commandList as out =
     (case list_names as of
        Inl err \<Rightarrow> AppendError out err
      | Inr ns \<Rightarrow> foldl AppendBulk (AppendArray out (length ns)) (sort ns))"

definition help_lines :: "string list" where
  "help_lines =
     [''COMMAND <subcommand> [<arg> [value] [opt] ...]. Subcommands are:'', ''COUNT'',
      ''    Return the total number of commands in the server.'', ''DOCS [<command-name> ...]'',
      ''    Return documentary information about commands.'', ''INFO [<command-name> ...]'',
      ''    Return details about multiple commands.'',
      ''LIST [FILTERBY MODULE <module-name> | ACLCAT <category> | PATTERN <pattern>]'',
      ''    Return a list of the server'' @ [CHR 0x27] @ ''s command names.'', ''HELP'', ''    Print this help.'']"

definition commandHelp :: "bytes list \<Rightarrow> bytes \<Rightarrow> bytes" where
  "commandHelp as out =
     (if length as \<noteq> 2 then AppendError out (wrong_args ''command|help'')
      else foldl AppendBulk (AppendArray out (length help_lines)) help_lines)"

definition resp_command :: "bytes list \<Rightarrow> bytes \<Rightarrow> bytes" where
  "resp_command as out =
     (if length as = 1 then commandInfoAll out
      else if EqualFold (as ! 1) ''COUNT'' then commandCount as out
      else if EqualFold (as ! 1) ''DOCS'' then commandDocs as out
      else if EqualFold (as ! 1) ''INFO'' then commandInfo as out
      else if EqualFold (as ! 1) ''LIST'' then commandList as out
      else if EqualFold (as ! 1) ''HELP'' then commandHelp as out
      else AppendError out (''ERR unknown subcommand '' @ [CHR 0x27] @ as ! 1 @ [CHR 0x27] @ ''. Try COMMAND HELP.''))"

section \<open>ROLE\<close>

definition admin_reply :: "front_env \<Rightarrow> bytes \<Rightarrow> rbac_error option \<times> rbac_store \<Rightarrow> bytes \<times> rbac_store" where
  "admin_reply v out r =
     (case r of (None, p) \<Rightarrow> (out @ respOK, p) | (Some err, p) \<Rightarrow> (AppendError out (''ERR '' @ error_text v err), p))"

definition resp_setUser :: "front_env \<Rightarrow> bytes list \<Rightarrow> bytes \<Rightarrow> rbac_store \<Rightarrow> bytes \<times> rbac_store" where
  "resp_setUser v as out p =
     (case PasswordFromOpts (hash_pass v) (drop 4 as) of
        Inl err \<Rightarrow> admin_reply v out (Some err, p)
      | Inr h \<Rightarrow> admin_reply v out (SetUser (as ! 2) (as ! 3) h p))"

definition needs_option :: "string \<Rightarrow> string" where
  "needs_option name = ''ERR '' @ name @ '' requires a '' @ [CHR 0x27] @ ''>password'' @ [CHR 0x27] @ '' or '' @ [CHR 0x27] @ ''nopass'' @ [CHR 0x27] @ '' option''"

definition resp_roleCreate :: "front_env \<Rightarrow> bytes list \<Rightarrow> bytes \<Rightarrow> rbac_store \<Rightarrow> bytes \<times> rbac_store" where
  "resp_roleCreate v as out p =
     (if length as < 4 then (AppendError out (wrong_args ''role|create''), p)
      else admin_reply v out (CreateRole (as ! 2) (drop 3 as) p))"

definition resp_roleSetUser :: "front_env \<Rightarrow> bytes list \<Rightarrow> bytes \<Rightarrow> rbac_store \<Rightarrow> bytes \<times> rbac_store" where
  "resp_roleSetUser v as out p =
     (if length as < 4 then (AppendError out (wrong_args ''role|setuser''), p)
      else if length as = 4 then (AppendError out (needs_option ''role|setuser''), p)
      else resp_setUser v as out p)"

definition resp_roleDelUser :: "front_env \<Rightarrow> bytes list \<Rightarrow> bytes \<Rightarrow> rbac_store \<Rightarrow> bytes \<times> rbac_store" where
  "resp_roleDelUser v as out p =
     (if length as \<noteq> 3 then (AppendError out (wrong_args ''role|deluser''), p) else admin_reply v out (DelUser (as ! 2) p))"

definition resp_roleDelete :: "front_env \<Rightarrow> bytes list \<Rightarrow> bytes \<Rightarrow> rbac_store \<Rightarrow> bytes \<times> rbac_store" where
  "resp_roleDelete v as out p =
     (if length as \<noteq> 3 then (AppendError out (wrong_args ''role|delete''), p) else admin_reply v out (DeleteRole (as ! 2) p))"

definition appendRoleCommands :: "bytes \<Rightarrow> role \<Rightarrow> bytes" where
  "appendRoleCommands out r = (let ns = GrantedCommands r in foldl AppendBulk (AppendArray out (length ns)) ns)"

definition appendRoleNamespaces :: "bytes \<Rightarrow> role \<Rightarrow> bytes" where
  "appendRoleNamespaces out r = foldl AppendBulk (AppendArray out (length (Namespaces r))) (Namespaces r)"

definition append_role :: "policy \<Rightarrow> bytes \<Rightarrow> string \<Rightarrow> bytes" where
  "append_role q out name =
     (case map_of (Roles q) name of
        None \<Rightarrow> out
      | Some r \<Rightarrow> appendRoleNamespaces (appendRoleCommands (AppendBulk out name) r) r)"

definition resp_roleList :: "bytes list \<Rightarrow> bytes \<Rightarrow> rbac_store \<Rightarrow> bytes" where
  "resp_roleList as out p =
     (if length as \<noteq> 2 then AppendError out (wrong_args ''role|list'')
      else (case active p of
              None \<Rightarrow> AppendError out ''ERR policy not loaded''
            | Some q \<Rightarrow>
                (let ns = sort (map fst (Roles q)) in foldl (append_role q) (AppendArray out (length ns)) ns)))"

definition resp_roleGetUser :: "bytes list \<Rightarrow> bytes \<Rightarrow> rbac_store \<Rightarrow> bytes" where
  "resp_roleGetUser as out p =
     (if length as \<noteq> 3 then AppendError out (wrong_args ''role|getuser'')
      else if active p = None then AppendError out ''ERR policy not loaded''
      else (case UserFor (active p) (as ! 2) of
              None \<Rightarrow> AppendError out (''ERR user '' @ [CHR 0x27] @ as ! 2 @ [CHR 0x27] @ '' does not exist'')
            | Some u \<Rightarrow>
                (let out = AppendBulk (AppendArray out 3) (as ! 2);
                     out = (if user_role u = [] then AppendNullBulk out else AppendBulk out (user_role u))
                 in AppendInt out (if length (PasswordHash u) > 0 then 1 else 0))))"

definition resp_role :: "front_env \<Rightarrow> bytes list \<Rightarrow> bytes \<Rightarrow> rbac_store option \<Rightarrow> bytes \<times> rbac_store option" where
  "resp_role v as out po =
     (case po of
        None \<Rightarrow> (AppendError out ''ERR RBAC is not enabled'', None)
      | Some p \<Rightarrow>
          if length as < 2 then (AppendError out (wrong_args ''role''), po)
          else if EqualFold (as ! 1) ''CREATE'' then map_prod id Some (resp_roleCreate v as out p)
          else if EqualFold (as ! 1) ''SETUSER'' then map_prod id Some (resp_roleSetUser v as out p)
          else if EqualFold (as ! 1) ''DELUSER'' then map_prod id Some (resp_roleDelUser v as out p)
          else if EqualFold (as ! 1) ''DELETE'' then map_prod id Some (resp_roleDelete v as out p)
          else if EqualFold (as ! 1) ''LIST'' then (resp_roleList as out p, po)
          else if EqualFold (as ! 1) ''GETUSER'' then (resp_roleGetUser as out p, po)
          else (AppendError out (''ERR unknown role subcommand '' @ [CHR 0x27] @ as ! 1 @ [CHR 0x27]), po))"

section \<open>ACL\<close>

definition resp_aclSetUser :: "front_env \<Rightarrow> bytes list \<Rightarrow> bytes \<Rightarrow> rbac_store \<Rightarrow> bytes \<times> rbac_store" where
  "resp_aclSetUser v as out p =
     (if length as < 4 then (AppendError out (wrong_args ''acl|setuser''), p)
      else if length as = 4 then (AppendError out (needs_option ''acl|setuser''), p)
      else resp_setUser v as out p)"

definition resp_aclDelUser :: "front_env \<Rightarrow> bytes list \<Rightarrow> bytes \<Rightarrow> rbac_store \<Rightarrow> bytes \<times> rbac_store" where
  "resp_aclDelUser v as out p =
     (if length as \<noteq> 3 then (AppendError out (wrong_args ''acl|deluser''), p) else admin_reply v out (DelUser (as ! 2) p))"

definition appendACLCommands :: "bytes \<Rightarrow> role option \<Rightarrow> bytes" where
  "appendACLCommands out ro = (case ro of None \<Rightarrow> AppendArray out 0 | Some r \<Rightarrow> appendRoleCommands out r)"

definition appendACLNamespaces :: "bytes \<Rightarrow> role option \<Rightarrow> bytes" where
  "appendACLNamespaces out ro = (case ro of None \<Rightarrow> AppendArray out 0 | Some r \<Rightarrow> appendRoleNamespaces out r)"

definition append_user :: "policy \<Rightarrow> bytes \<Rightarrow> string \<Rightarrow> bytes" where
  "append_user q out name =
     (case map_of (Users q) name of
        None \<Rightarrow> out
      | Some u \<Rightarrow>
          (let out = AppendBulk (AppendArray out 5) name;
               out = (if user_role u = [] then AppendNullBulk out else AppendBulk out (user_role u));
               out = AppendInt out (if length (PasswordHash u) > 0 then 1 else 0);
               out = appendACLCommands out (RoleFor (Some q) name)
           in appendACLNamespaces out (RoleFor (Some q) name)))"

definition resp_aclList :: "bytes list \<Rightarrow> bytes \<Rightarrow> rbac_store \<Rightarrow> bytes" where
  "resp_aclList as out p =
     (if length as \<noteq> 2 then AppendError out (wrong_args ''acl|list'')
      else (case active p of
              None \<Rightarrow> AppendError out ''ERR policy not loaded''
            | Some q \<Rightarrow>
                (let ns = sort (map fst (Users q)) in foldl (append_user q) (AppendArray out (length ns)) ns)))"

definition append_event :: "front_env \<Rightarrow> bytes \<Rightarrow> auth_entry \<Rightarrow> bytes" where
  "append_event v out e =
     foldl AppendBulk (AppendArray out 4) [format_time v (Timestamp e), entry_user e, RemoteAddr e, Reason e]"

definition resp_aclLog :: "front_env \<Rightarrow> bytes list \<Rightarrow> bytes \<Rightarrow> rbac_store \<Rightarrow> bytes" where
  "resp_aclLog v as out p =
     (if length as \<noteq> 2 then AppendError out (wrong_args ''acl|log'')
      else foldl (append_event v) (AppendArray out (length (AuthLog p))) (AuthLog p))"

definition resp_acl :: "front_env \<Rightarrow> bytes list \<Rightarrow> bytes \<Rightarrow> rbac_store option \<Rightarrow> bytes \<times> rbac_store option" where
  "resp_acl v as out po =
     (case po of
        None \<Rightarrow> (AppendError out ''ERR RBAC is not enabled'', None)
      | Some p \<Rightarrow>
          if length as < 2 then (AppendError out (wrong_args ''acl''), po)
          else if EqualFold (as ! 1) ''SETUSER'' then map_prod id Some (resp_aclSetUser v as out p)
          else if EqualFold (as ! 1) ''DELUSER'' then map_prod id Some (resp_aclDelUser v as out p)
          else if EqualFold (as ! 1) ''LIST'' then (resp_aclList as out p, po)
          else if EqualFold (as ! 1) ''LOG'' then (resp_aclLog v as out p, po)
          else (AppendError out (''ERR unknown acl subcommand '' @ [CHR 0x27] @ as ! 1 @ [CHR 0x27]), po))"

section \<open>Every reply is one value\<close>

text \<open>The reply a handler appends, as a value; the bytes of a request that it echoes must not break lines.\<close>

definition key_specs :: "commandSpec \<Rightarrow> resp_val list" where
  "key_specs c =
     (if cs_firstKey c = 0 then []
      else [RArray
        [RBulk ''flags'', RArray (map RSimple (if ''write'' \<in> set (cs_flags c) then [''RW'', ''access'', ''update''] else [''RO'', ''access''])),
         RBulk ''begin_search'',
         RArray [RBulk ''type'', RBulk ''index'', RBulk ''spec'', RArray [RBulk ''index'', RInt (cs_firstKey c)]],
         RBulk ''find_keys'',
         RArray [RBulk ''type'', RBulk ''range'', RBulk ''spec'',
           RArray [RBulk ''lastkey'', RInt (if cs_lastKey c = - 1 then - 1 else cs_lastKey c - cs_firstKey c),
             RBulk ''keystep'', RInt (cs_step c), RBulk ''limit'', RInt 0]]]])"

fun info_val :: "string \<Rightarrow> commandSpec \<Rightarrow> resp_val" where
  "info_val parent (CommandSpec nm ar fl fk lk st su si gr co subs) =
     (let c = CommandSpec nm ar fl fk lk st su si gr co subs; name = full_name parent c in
      RArray [RBulk name, RInt ar, RArray (map RSimple fl), RInt fk, RInt lk, RInt st,
        RArray (map (\<lambda>v. RSimple (CHR ''@'' # v)) (aclCategories name)), RArray [], RArray (key_specs c),
        RArray (map (info_val name) subs)])"

definition doc_vals :: "string \<Rightarrow> commandSpec \<Rightarrow> resp_val list" where
  "doc_vals parent c =
     [RBulk (full_name parent c),
      RArray (map RBulk [''summary'', cs_summary c, ''since'', cs_since c, ''group'', cs_group c, ''complexity'', cs_complexity c])]"

lemma appendSimpleStringArray_enc [append_reply]: "appendSimpleStringArray out ss = out @ enc_val (RArray (map RSimple ss))"
  using foldl_appends [of ss AppendSimpleString "\<lambda>s. [RSimple s]"]
  by (simp add: appendSimpleStringArray_def append_reply enc_RArray comp_def)

lemma appendACLCats_enc [append_reply]: "appendACLCats out ss = out @ enc_val (RArray (map (\<lambda>v. RSimple (CHR ''@'' # v)) ss))"
  using foldl_appends [of ss "\<lambda>out v. AppendSimpleString out (CHR ''@'' # v)" "\<lambda>s. [RSimple (CHR ''@'' # s)]"]
  by (simp add: appendACLCats_def append_reply enc_RArray comp_def)

lemma appendKeySpecs_enc [append_reply]: "appendKeySpecs out c = out @ enc_val (RArray (key_specs c))"
  by (simp add: appendKeySpecs_def key_specs_def append_reply enc_RArray Let_def eval_nat_numeral)

lemma appendCommandInfo_enc [append_reply]: "appendCommandInfo out parent c = out @ enc_val (info_val parent c)"
proof (induction c arbitrary: out parent)
  case (CommandSpec nm ar fl fk lk st su si gr co subs)
  let ?name = "full_name parent (CommandSpec nm ar fl fk lk st su si gr co subs)"
  have "foldl (\<lambda>out s. appendCommandInfo out ?name s) o1 subs = o1 @ concat (map enc_val (concat (map (\<lambda>s. [info_val ?name s]) subs)))" for o1
    using CommandSpec.IH by (intro foldl_appends) simp
  then show ?case by (simp add: Let_def append_reply enc_RArray comp_def eval_nat_numeral)
qed

lemma appendCommandDoc_enc [append_reply]: "appendCommandDoc out parent c = out @ concat (map enc_val (doc_vals parent c))"
  by (simp add: appendCommandDoc_def doc_vals_def append_reply enc_RArray eval_nat_numeral)

lemma appendCommandDocSubs_enc [append_reply]:
  "appendCommandDocSubs out c = out @ concat (map enc_val (concat (map (doc_vals (cs_name c)) (cs_subs c))))"
  unfolding appendCommandDocSubs_def by (intro foldl_appends) (simp add: append_reply)

lemma doc_vals_simps [simp]: "length (doc_vals parent c) = 2" "list_all val_ok (doc_vals parent c)"
  by (simp_all add: doc_vals_def)

lemma table_ok: "list_all (\<lambda>c. val_ok (info_val [] c) \<and> list_all (\<lambda>s. val_ok (info_val (cs_name c) s)) (cs_subs c)) respCommands"
  by code_simp

lemma find_set: "find Q xs = Some x \<Longrightarrow> x \<in> set xs"
  by (auto simp: find_Some_iff)

lemma findCommand_ok:
  assumes "findCommand name = Some (c, parent)"
  shows "val_ok (info_val parent c)"
proof (cases "find (\<lambda>c. str_EqualFold name (cs_name c)) respCommands")
  case None
  with assms obtain d where "find (\<lambda>(c, s). str_EqualFold (takeWhile (\<lambda>c. c \<noteq> CHR ''|'') name) (cs_name c) \<and>
      str_EqualFold (drop (length (takeWhile (\<lambda>c. c \<noteq> CHR ''|'') name) + 1) name) (cs_name s))
      (concat (map (\<lambda>c. map (Pair c) (cs_subs c)) respCommands)) = Some (d, c)" "parent = cs_name d"
    by (auto simp: findCommand_def Let_def split: if_splits)
  then show ?thesis using table_ok by (auto simp: list_all_iff dest!: find_set)
next
  case (Some d)
  then show ?thesis using assms table_ok by (auto simp: findCommand_def list_all_iff dest!: find_set)
qed

text \<open>The values two appending handlers may add: one reply, readable when the request breaks no lines.\<close>

definition replies :: "bool \<Rightarrow> bytes \<Rightarrow> bytes \<Rightarrow> bool" where
  "replies readable out out' \<longleftrightarrow> (\<exists>w. out' = out @ enc_val w \<and> (readable \<longrightarrow> val_ok w))"

lemma repliesI: "out' = out @ enc_val w \<Longrightarrow> (readable \<Longrightarrow> val_ok w) \<Longrightarrow> replies readable out out'"
  unfolding replies_def by blast

lemma replies_error [intro]: "(readable \<Longrightarrow> line_ok s) \<Longrightarrow> replies readable out (AppendError out s)"
  by (rule repliesI [where w = "RError s"]) (simp_all add: append_reply)

lemma replies_OK [intro, simp]: "replies readable out (out @ respOK)"
  by (rule repliesI [where w = "RSimple ''OK''"]) (simp_all add: append_reply)

lemma replies_int [intro, simp]: "replies readable out (AppendInt out n)"
  by (rule repliesI [where w = "RInt n"]) (simp_all add: append_reply)

lemma replies_bulks [intro, simp]: "length bs = n \<Longrightarrow> replies readable out (foldl AppendBulk (AppendArray out n) bs)"
  by (rule repliesI [where w = "RArray (map RBulk bs)"]) (simp_all add: append_reply enc_RArray list_all_iff)

lemma replies_empty [intro, simp]: "replies readable out (AppendArray out 0)"
  using replies_bulks [of "[]"] by simp

lemma replies_array:
  assumes "\<And>out x. x \<in> set xs \<Longrightarrow> f out x = out @ concat (map enc_val (g x))" "n = length (concat (map g xs))"
    and "readable \<Longrightarrow> list_all (\<lambda>x. list_all val_ok (g x)) xs"
  shows "replies readable out (foldl f (AppendArray out n) xs)"
  by (rule repliesI [where w = "RArray (concat (map g xs))"])
    (use assms in \<open>auto simp: append_reply enc_RArray foldl_appends list_all_iff\<close>)

lemma wrong_args_line [simp]: "line_ok (wrong_args name) = line_ok name"
  by (simp add: wrong_args_def)

lemma needs_option_line [simp]: "line_ok (needs_option name) = line_ok name"
  by (simp add: needs_option_def)

lemma commandInfoAll_replies: "replies readable out (commandInfoAll out)"
  unfolding commandInfoAll_def using table_ok
  by (intro replies_array [where g = "\<lambda>c. [info_val [] c]"]) (auto simp: append_reply list_all_iff)

lemma sum_list_lengths: "(\<And>x. length (g x) = h x) \<Longrightarrow> sum_list (map h xs) = length (concat (map g xs))"
  by (induction xs) auto

lemma commandDocs_replies: "replies readable out (commandDocs as out)"
proof (cases "length as = 2")
  case True
  let ?g = "\<lambda>c. doc_vals [] c @ concat (map (doc_vals (cs_name c)) (cs_subs c))"
  have "2 * sum_list (map (\<lambda>c. 1 + length (cs_subs c)) cs) = length (concat (map ?g cs))" for cs
    by (induction cs) (simp_all add: length_concat sum_list_triv comp_def)
  then have "replies readable out (foldl (\<lambda>out c. appendCommandDocSubs (appendCommandDoc out [] c) c)
      (AppendArray out (2 * sum_list (map (\<lambda>c. 1 + length (cs_subs c)) respCommands))) respCommands)"
    by (intro replies_array [where g = ?g]) (auto simp: append_reply list_all_iff dest: doc_vals_simps(2) [unfolded list_all_iff, rule_format])
  then show ?thesis using True by (simp add: commandDocs_def Let_def)
next
  case False
  let ?g = "\<lambda>name. case findCommand name of
      Some (c, parent) \<Rightarrow> doc_vals parent c @ (if parent = [] then concat (map (doc_vals (cs_name c)) (cs_subs c)) else []) | None \<Rightarrow> []"
  let ?h = "\<lambda>name. case findCommand name of Some (c, parent) \<Rightarrow> 2 + (if parent = [] then 2 * length (cs_subs c) else 0) | None \<Rightarrow> 0"
  have "sum_list (map ?h (drop 2 as)) = length (concat (map ?g (drop 2 as)))"
    by (rule sum_list_lengths) (simp add: length_concat sum_list_triv comp_def split: option.split prod.split)
  then have "replies readable out (foldl (\<lambda>out name. case findCommand name of
        Some (c, parent) \<Rightarrow> (if parent = [] then appendCommandDocSubs (appendCommandDoc out parent c) c else appendCommandDoc out parent c)
      | None \<Rightarrow> out) (AppendArray out (sum_list (map ?h (drop 2 as)))) (drop 2 as))"
    by (intro replies_array [where g = ?g])
      (auto simp: append_reply list_all_iff split: option.splits prod.splits if_splits dest: doc_vals_simps(2) [unfolded list_all_iff, rule_format])
  then show ?thesis using False by (simp add: commandDocs_def Let_def)
qed

lemma commandInfo_replies: "replies readable out (commandInfo as out)"
proof (cases "length as = 2")
  case False
  have "replies readable out (foldl (\<lambda>out name. case findCommand name of Some (c, parent) \<Rightarrow> appendCommandInfo out parent c | None \<Rightarrow> AppendNullBulk out)
      (AppendArray out (length as - 2)) (drop 2 as))"
    by (rule replies_array [where g = "\<lambda>name. [case findCommand name of Some (c, parent) \<Rightarrow> info_val parent c | None \<Rightarrow> RNull]"])
      (auto simp: append_reply list_all_iff length_concat sum_list_triv comp_def findCommand_ok split: option.split)
  then show ?thesis using False by (simp add: commandInfo_def)
qed (simp add: commandInfo_def commandInfoAll_replies)

lemma resp_command_replies: "as \<noteq> [] \<Longrightarrow> replies (list_all line_ok as) out (resp_command as out)"
proof -
  assume "as \<noteq> []"
  then have ok: "list_all line_ok as \<Longrightarrow> length as \<noteq> 1 \<Longrightarrow> line_ok (as ! 1)" by (cases as; cases "tl as") auto
  have list: "replies (list_all line_ok as) out (commandList as out)" if "length as \<noteq> 1"
    using that \<open>as \<noteq> []\<close> by (auto simp: commandList_def list_names_def list_all_length split: sum.split if_splits intro!: replies_error)
  show ?thesis using ok list
    by (auto simp: resp_command_def commandInfoAll_replies commandDocs_replies commandInfo_replies commandCount_def commandHelp_def intro!: replies_error)
qed

definition texts_ok :: "front_env \<Rightarrow> bool" where
  "texts_ok v \<longleftrightarrow> (\<forall>err. line_ok (error_text v err)) \<and> (\<forall>err. line_ok (store_text v err))"

lemma admin_reply_replies: "texts_ok v \<Longrightarrow> replies readable out (fst (admin_reply v out r))"
  by (auto simp: admin_reply_def texts_ok_def split: prod.split option.split)

lemma fst_map_prod_id: "fst (map_prod id f p) = fst p"
  by (cases p) simp

definition role_vals :: "role option \<Rightarrow> resp_val list" where
  "role_vals ro = (case ro of
     None \<Rightarrow> [RArray [], RArray []]
   | Some r \<Rightarrow> [RArray (map RBulk (GrantedCommands r)), RArray (map RBulk (Namespaces r))])"

lemma role_vals_ok [simp]: "list_all val_ok (role_vals ro)" "length (role_vals ro) = 2"
  by (simp_all add: role_vals_def list_all_iff split: option.split)

lemma append_role_arrays [append_reply]:
  "appendRoleNamespaces (appendRoleCommands out r) r = out @ concat (map enc_val (role_vals (Some r)))"
  "appendACLNamespaces (appendACLCommands out ro) ro = out @ concat (map enc_val (role_vals ro))"
  by (simp_all add: appendRoleNamespaces_def appendRoleCommands_def appendACLNamespaces_def appendACLCommands_def role_vals_def
      append_reply enc_RArray Let_def split: option.split)

definition user_val :: "policy \<Rightarrow> string \<Rightarrow> resp_val" where
  "user_val q name =
     (case map_of (Users q) name of
        None \<Rightarrow> RNull
      | Some u \<Rightarrow> RArray ([RBulk name, if user_role u = [] then RNull else RBulk (user_role u),
          RInt (if length (PasswordHash u) > 0 then 1 else 0)] @ role_vals (RoleFor (Some q) name)))"

lemma append_user_enc: "name \<in> set (map fst (Users q)) \<Longrightarrow> append_user q out name = out @ enc_val (user_val q name)"
  by (auto simp: append_user_def user_val_def append_reply enc_RArray Let_def eval_nat_numeral map_of_eq_None_iff image_iff split: option.split)

lemma resp_aclList_replies: "replies readable out (resp_aclList as out p)"
proof -
  have "replies readable out (foldl (append_user q) (AppendArray out (length ns)) ns)" if "ns = sort (map fst (Users q))" for q ns
    using that by (intro replies_array [where g = "\<lambda>n. [user_val q n]"])
      (auto simp: append_user_enc list_all_iff length_concat sum_list_triv comp_def user_val_def split: option.split dest: role_vals_ok(1) [unfolded list_all_iff, rule_format])
  then show ?thesis by (auto simp: resp_aclList_def Let_def split: option.split)
qed

lemma resp_aclLog_replies: "replies readable out (resp_aclLog v as out p)"
proof -
  have "replies readable out (foldl (append_event v) (AppendArray out (length es)) es)" for es
    by (rule replies_array [where g = "\<lambda>e. [RArray (map RBulk [format_time v (Timestamp e), entry_user e, RemoteAddr e, Reason e])]"])
      (auto simp: append_event_def append_reply enc_RArray eval_nat_numeral list_all_iff length_concat sum_list_triv comp_def)
  then show ?thesis by (auto simp: resp_aclLog_def)
qed

lemma resp_roleGetUser_replies: "replies (list_all line_ok as) out (resp_roleGetUser as out p)"
proof -
  have "replies r out (AppendInt (if user_role u = [] then AppendNullBulk (AppendBulk (AppendArray out 3) n) else AppendBulk (AppendBulk (AppendArray out 3) n) (user_role u)) k)"
    for r n k and u :: user
    by (rule repliesI [where w = "RArray [RBulk n, if user_role u = [] then RNull else RBulk (user_role u), RInt k]"])
      (auto simp: append_reply enc_RArray eval_nat_numeral)
  then show ?thesis by (auto simp: resp_roleGetUser_def Let_def list_all_length split: option.split)
qed

lemma admin_handlers_reply:
  assumes "texts_ok v"
  shows "replies readable out (fst (resp_roleCreate v as out p))" "replies readable out (fst (resp_roleSetUser v as out p))"
    "replies readable out (fst (resp_roleDelUser v as out p))" "replies readable out (fst (resp_roleDelete v as out p))"
    "replies readable out (fst (resp_aclSetUser v as out p))" "replies readable out (fst (resp_aclDelUser v as out p))"
proof -
  have set: "replies readable out (fst (resp_setUser v as out p))"
    using admin_reply_replies [OF assms] by (simp add: resp_setUser_def split: sum.split)
  show "replies readable out (fst (resp_roleCreate v as out p))" "replies readable out (fst (resp_roleSetUser v as out p))"
    "replies readable out (fst (resp_roleDelUser v as out p))" "replies readable out (fst (resp_roleDelete v as out p))"
    "replies readable out (fst (resp_aclSetUser v as out p))" "replies readable out (fst (resp_aclDelUser v as out p))"
    using admin_reply_replies [OF assms] set
    by (simp_all add: resp_roleCreate_def resp_roleSetUser_def resp_roleDelUser_def resp_roleDelete_def resp_aclSetUser_def resp_aclDelUser_def
        replies_error)
qed

lemma sub_line: "list_all line_ok as \<Longrightarrow> \<not> length as < 2 \<Longrightarrow> line_ok (as ! 1)"
  by (simp add: list_all_length)

lemma resp_acl_replies: "texts_ok v \<Longrightarrow> replies (list_all line_ok as) out (fst (resp_acl v as out po))"
  using sub_line [of as] by (cases po) (simp_all add: resp_acl_def resp_aclList_replies resp_aclLog_replies fst_map_prod_id admin_handlers_reply replies_error)

lemma resp_role_replies:
  "texts_ok v \<Longrightarrow> length as < 2 \<or> \<not> EqualFold (as ! 1) ''LIST'' \<Longrightarrow> replies (list_all line_ok as) out (fst (resp_role v as out po))"
  using sub_line [of as] by (cases po) (auto simp: resp_role_def resp_roleGetUser_replies fst_map_prod_id admin_handlers_reply replies_error)

section \<open>ROLE LIST\<close>

lemma list_all_take: "list_all Q xs \<Longrightarrow> list_all Q (take n xs)"
  by (metis append_take_drop_id list_all_append)

lemma append_role_enc:
  "name \<in> set (map fst (Roles q)) \<Longrightarrow> append_role q out name = out @ concat (map enc_val (RBulk name # role_vals (map_of (Roles q) name)))"
  by (auto simp: append_role_def append_reply map_of_eq_None_iff image_iff split: option.split)

text \<open>
  C35. The reply to ROLE LIST is not a reply: with n roles, n at least one, the array header announces
  n elements and 3n follow, so a client takes the first n as the reply and reads the remaining 2n as the
  replies to its next commands; the bytes are not the encoding of any single value.
\<close>

theorem role_list_desynchronises:
  assumes "active p = Some q" "Roles q \<noteq> []" "n = length (Roles q)"
  shows "\<exists>vs. list_all val_ok vs \<and> length vs = 3 * n \<and>
      resp_roleList [cmd, sub] out p = out @ enc_val (RArray (take n vs)) @ concat (map enc_val (drop n vs)) \<and>
      (\<nexists>w. val_ok w \<and> resp_roleList [cmd, sub] out p = out @ enc_val w)"
proof -
  let ?ns = "sort (map fst (Roles q))" and ?g = "\<lambda>n. RBulk n # role_vals (map_of (Roles q) n)"
  let ?vs = "concat (map ?g ?ns)"
  have ok: "list_all val_ok ?vs" using role_vals_ok(1) by (auto simp: list_all_iff)
  have len: "length ?vs = 3 * n" using assms(3) by (simp add: length_concat sum_list_triv comp_def)
  have "foldl (append_role q) (out @ array_hd n) ?ns = (out @ array_hd n) @ concat (map enc_val ?vs)"
    by (intro foldl_appends append_role_enc) simp
  then have bytes: "resp_roleList [cmd, sub] out p = out @ array_hd n @ concat (map enc_val ?vs)"
    using assms(1,3) by (simp add: resp_roleList_def append_reply)
  have split: "array_hd n @ concat (map enc_val ?vs) = enc_val (RArray (take n ?vs)) @ concat (map enc_val (drop n ?vs))"
    using len by (simp add: enc_RArray flip: concat_append map_append)
  have "\<nexists>w. val_ok w \<and> resp_roleList [cmd, sub] out p = out @ enc_val w"
  proof
    assume "\<exists>w. val_ok w \<and> resp_roleList [cmd, sub] out p = out @ enc_val w"
    then obtain w where w: "val_ok w" "enc_val (RArray (take n ?vs)) @ concat (map enc_val (drop n ?vs)) = enc_val w @ []"
      using bytes split by auto
    have "val_ok (RArray (take n ?vs))" using list_all_take [OF ok] by (simp only: val_ok.simps)
    from enc_val_unique [OF this w] have "concat (map enc_val (drop n ?vs)) = []" by simp
    moreover have "enc_val v \<noteq> []" for v by (cases v) (simp_all add: enc_val.simps enc_heads)
    ultimately have "drop n ?vs = []" by (cases "drop n ?vs") auto
    with len assms(2,3) show False by simp
  qed
  with ok len bytes split show ?thesis by (intro exI [of _ ?vs]) simp
qed

definition one_role :: policy where
  "one_role = empty_policy\<lparr>Roles := [(''ops'', \<lparr>role_addr = 0, role_name = ''ops'', Permissions = [], Namespaces = []\<rparr>)]\<rparr>"

theorem role_list_desynchronises_witness:
  "\<exists>vs. list_all val_ok vs \<and> length vs = 3 * 1 \<and>
     resp_roleList [''ROLE'', ''LIST''] [] (sample_store\<lparr>active := Some one_role\<rparr>) =
       [] @ enc_val (RArray (take 1 vs)) @ concat (map enc_val (drop 1 vs)) \<and>
     (\<nexists>w. val_ok w \<and> resp_roleList [''ROLE'', ''LIST''] [] (sample_store\<lparr>active := Some one_role\<rparr>) = [] @ enc_val w)"
  by (rule role_list_desynchronises [where q = one_role]) (simp_all add: one_role_def)

section \<open>Glob patterns\<close>

text \<open>What a pattern means: a star stands for any bytes, a question mark for one, anything else for itself.\<close>

fun glob_lang :: "string \<Rightarrow> string set" where
  "glob_lang [] = {[]}"
| "glob_lang (c # p) =
     (if c = CHR ''*'' then {u @ w |u w. w \<in> glob_lang p}
      else if c = CHR ''?'' then {d # w |d w. w \<in> glob_lang p}
      else {c # w |w. w \<in> glob_lang p})"

lemma glob_lang_star: "s \<in> glob_lang (CHR ''*'' # p) \<longleftrightarrow> (\<exists>i\<le>length s. drop i s \<in> glob_lang p)"
proof
  assume "s \<in> glob_lang (CHR ''*'' # p)"
  then obtain u w where "s = u @ w" "w \<in> glob_lang p" by auto
  then show "\<exists>i\<le>length s. drop i s \<in> glob_lang p" by (intro exI [of _ "length u"]) simp
next
  assume "\<exists>i\<le>length s. drop i s \<in> glob_lang p"
  then obtain i where "s = take i s @ drop i s" "drop i s \<in> glob_lang p" by auto
  then show "s \<in> glob_lang (CHR ''*'' # p)" unfolding glob_lang.simps if_P [OF refl] by blast
qed

lemma glob_lang_star_star: "s \<in> glob_lang (CHR ''*'' # CHR ''*'' # p) \<longleftrightarrow> s \<in> glob_lang (CHR ''*'' # p)"
proof
  assume "s \<in> glob_lang (CHR ''*'' # CHR ''*'' # p)"
  then obtain i j where "i \<le> length s" "j \<le> length s - i" "drop (j + i) s \<in> glob_lang p"
    unfolding glob_lang_star by auto
  then show "s \<in> glob_lang (CHR ''*'' # p)" unfolding glob_lang_star by (intro exI [of _ "j + i"]) simp
next
  assume "s \<in> glob_lang (CHR ''*'' # p)"
  then show "s \<in> glob_lang (CHR ''*'' # CHR ''*'' # p)"
    unfolding glob_lang_star [of _ "CHR ''*'' # p"] by (intro exI [of _ 0]) (simp del: glob_lang.simps)
qed

lemma glob_lang_stars:
  "s \<in> glob_lang (CHR ''*'' # p) \<longleftrightarrow> s \<in> glob_lang (CHR ''*'' # dropWhile (\<lambda>c. c = CHR ''*'') p)"
  by (induction p) (simp_all add: glob_lang_star_star del: glob_lang.simps(2))

lemma globMatch_Nil: "globMatch [] s \<longleftrightarrow> s = []"
  by (subst globMatch.simps) simp

lemma globMatch_star: "globMatch (CHR ''*'' # p) s \<longleftrightarrow> dropWhile (\<lambda>c. c = CHR ''*'') p = [] \<or>
    (\<exists>i\<le>length s. globMatch (dropWhile (\<lambda>c. c = CHR ''*'') p) (drop i s))"
  by (subst globMatch.simps) (auto simp: list_ex_iff Let_def less_Suc_eq_le simp del: upt_Suc)

lemma globMatch_any: "globMatch (CHR ''?'' # p) s \<longleftrightarrow> (\<exists>d s'. s = d # s' \<and> globMatch p s')"
  by (subst globMatch.simps) (simp split: list.split)

lemma globMatch_lit:
  "c \<noteq> CHR ''*'' \<Longrightarrow> c \<noteq> CHR ''?'' \<Longrightarrow> globMatch (c # p) s \<longleftrightarrow> (\<exists>s'. s = c # s' \<and> globMatch p s')"
  by (subst globMatch.simps) (auto split: list.split)

lemma globMatch_lang: "globMatch pat s \<longleftrightarrow> s \<in> glob_lang pat"
proof (induction "length pat" arbitrary: pat s rule: less_induct)
  case less
  show ?case
  proof (cases pat)
    case Nil
    then show ?thesis by (simp add: globMatch_Nil)
  next
    case pat: (Cons c p)
    have IH: "globMatch p' s' \<longleftrightarrow> s' \<in> glob_lang p'" if "length p' \<le> length p" for p' s'
      using less that pat by (simp add: le_imp_less_Suc)
    consider (star) "c = CHR ''*''" | (any) "c = CHR ''?''" | (lit) "c \<noteq> CHR ''*''" "c \<noteq> CHR ''?''" by blast
    then show ?thesis
    proof cases
      case star
      let ?p = "dropWhile (\<lambda>c. c = CHR ''*'') p"
      have "s \<in> glob_lang pat \<longleftrightarrow> (\<exists>i\<le>length s. drop i s \<in> glob_lang ?p)"
        unfolding pat star by (rule trans [OF glob_lang_stars glob_lang_star])
      also have "\<dots> \<longleftrightarrow> ?p = [] \<or> (\<exists>i\<le>length s. drop i s \<in> glob_lang ?p)"
        by (metis dropWhile_eq_Nil_conv drop_all glob_lang.simps(1) le_refl singletonI)
      also have "\<dots> \<longleftrightarrow> globMatch pat s" unfolding pat star globMatch_star using IH [OF length_dropWhile_le] by blast
      finally show ?thesis by blast
    next
      case any
      show ?thesis unfolding pat any globMatch_any using IH [OF order_refl] by auto
    next
      case lit
      show ?thesis unfolding pat globMatch_lit [OF lit] using IH [OF order_refl] lit by auto
    qed
  qed
qed

text \<open>
  C34. COMMAND LIST FILTERBY PATTERN lists the commands whose names the pattern describes: the matcher,
  which tries every rest of the name for a star, decides membership in the language of the pattern, so
  the reply is the sorted names in that language.
\<close>

theorem command_list_pattern:
  "commandList [a, b, ''FILTERBY'', ''PATTERN'', pat] out =
     out @ enc_val (RArray (map RBulk (sort (filter (\<lambda>n. n \<in> glob_lang (ToLower pat)) (map cs_name respCommands)))))"
proof -
  have "filter (globMatch g) ns = filter (\<lambda>n. n \<in> glob_lang g) ns" for g ns using globMatch_lang by (intro filter_cong) auto
  moreover have "EqualFold ''FILTERBY'' ''FILTERBY''" "EqualFold ''PATTERN'' ''PATTERN''"
      "\<not> EqualFold ''PATTERN'' ''MODULE''" "\<not> EqualFold ''PATTERN'' ''ACLCAT''"
    by (simp_all add: EqualFold_def upper_byte_def)
  ultimately show ?thesis by (simp add: commandList_def list_names_def append_reply enc_RArray)
qed

end
