(* ===== verification/Resp_Handshake.thy ===== *)
theory Resp_Handshake
  imports Tellstone_Prelude "HOL-Library.Multiset"
begin

text \<open>
  The deadline for TLS handshakes, \<^verbatim>\<open>src/internal/resp/handshake.go\<close>: connections whose
  handshake is pending are tracked, and a ticker closes those that miss the deadline. The loop of
  \<^verbatim>\<open>sweep\<close> removes entries in place by moving the last one into the gap. Whether a
  handshake has completed is read from the connection at each tick and is an argument.
\<close>

record pendingHandshake =
  ph_conn :: nat
  ph_deadline :: int
  ph_done :: bool

definition tlsHandshakeTimeout :: duration where "tlsHandshakeTimeout = 10 * second"

definition track :: "nat \<Rightarrow> int \<Rightarrow> pendingHandshake list \<Rightarrow> pendingHandshake list" where
  "track c dl ps = ps @ [\<lparr>ph_conn = c, ph_deadline = dl, ph_done = False\<rparr>]"

definition mark_done :: "nat \<Rightarrow> pendingHandshake list \<Rightarrow> pendingHandshake list" where
  "mark_done c ps = map (\<lambda>p. if ph_conn p = c then p\<lparr>ph_done := True\<rparr> else p) ps"

definition settled :: "(nat \<Rightarrow> bool) \<Rightarrow> pendingHandshake \<Rightarrow> bool" where
  "settled completed p \<longleftrightarrow> ph_done p \<or> completed (ph_conn p)"

function sweep_loop :: "int \<Rightarrow> (nat \<Rightarrow> bool) \<Rightarrow> nat \<Rightarrow> pendingHandshake list \<Rightarrow> nat list \<Rightarrow> nat list \<times> pendingHandshake list" where
  "sweep_loop now completed i ps closed =
     (if i < length ps then
        let p = ps ! i; final = length ps - 1 in
        if \<not> settled completed p \<and> now < ph_deadline p then sweep_loop now completed (i + 1) ps closed
        else sweep_loop now completed i (take final (ps[i := ps ! final])) (if settled completed p then closed else closed @ [ph_conn p])
      else (closed, ps))"
  by pat_completeness auto
termination
  by (relation "measure (\<lambda>(now, completed, i, ps, closed). length ps - i)") auto

declare sweep_loop.simps [simp del]

definition sweep :: "int \<Rightarrow> (nat \<Rightarrow> bool) \<Rightarrow> pendingHandshake list \<Rightarrow> nat list \<times> pendingHandshake list" where
  "sweep now completed ps = sweep_loop now completed 0 ps []"

definition OnTick :: "duration \<Rightarrow> int \<Rightarrow> (nat \<Rightarrow> bool) \<Rightarrow> pendingHandshake list \<Rightarrow> duration \<times> nat list \<times> pendingHandshake list" where
  "OnTick handshakeTimeout now completed ps = (handshakeTimeout div 10, sweep now completed ps)"

section \<open>What a sweep does\<close>

definition waiting :: "int \<Rightarrow> (nat \<Rightarrow> bool) \<Rightarrow> pendingHandshake \<Rightarrow> bool" where
  "waiting now completed p \<longleftrightarrow> \<not> settled completed p \<and> now < ph_deadline p"

definition overdue :: "int \<Rightarrow> (nat \<Rightarrow> bool) \<Rightarrow> pendingHandshake \<Rightarrow> bool" where
  "overdue now completed p \<longleftrightarrow> \<not> settled completed p \<and> ph_deadline p \<le> now"

lemma mset_swap_delete:
  assumes "i < length ps"
  shows "mset (take (length ps - 1) (ps[i := ps ! (length ps - 1)])) = mset ps - {#ps ! i#}"
proof -
  obtain xs x where ps: "ps = xs @ [x]" using assms by (cases ps rule: rev_cases) auto
  show ?thesis
  proof (cases "i = length xs")
    case True
    then show ?thesis using ps by (simp add: list_update_append)
  next
    case False
    with assms ps have "i < length xs" by simp
    then show ?thesis using ps by (simp add: nth_append list_update_append mset_update)
  qed
qed

lemma sweep_loop_mset:
  assumes "sweep_loop now completed i ps closed = (closed', ps')" "i \<le> length ps" "list_all (waiting now completed) (take i ps)"
  shows "mset ps' = filter_mset (waiting now completed) (mset ps) \<and>
    mset closed' = mset closed + image_mset ph_conn (filter_mset (overdue now completed) (mset ps))"
  using assms
proof (induction now completed i ps closed rule: sweep_loop.induct)
  case (1 now completed i ps closed)
  let ?w = "waiting now completed" and ?o = "overdue now completed"
  show ?case
  proof (cases "i < length ps")
    case False
    with 1(3-5) have "closed' = closed" "ps' = ps" "list_all ?w ps" by (simp_all add: sweep_loop.simps [of _ _ i])
    moreover from this have "filter_mset ?w (mset ps) = mset ps" "filter_mset ?o (mset ps) = {#}"
      by (auto simp: list_all_iff filter_empty_conv filter_id_conv waiting_def overdue_def simp flip: mset_filter intro!: arg_cong [of _ _ mset])
    ultimately show ?thesis by simp
  next
    case in_range: True
    let ?p = "ps ! i" and ?rest = "take (length ps - 1) (ps[i := ps ! (length ps - 1)])"
    show ?thesis
    proof (cases "?w ?p")
      case True
      have "list_all ?w (take (i + 1) ps)" using 1(5) True in_range by (simp add: take_Suc_conv_app_nth)
      moreover have w: "\<not> settled completed ?p \<and> now < ph_deadline ?p" using True by (simp add: waiting_def)
      moreover have "sweep_loop now completed (i + 1) ps closed = (closed', ps')"
        using 1(3) w in_range by (simp add: sweep_loop.simps [of _ _ i] Let_def)
      ultimately show ?thesis using in_range by (intro 1(1) [OF in_range refl refl]) simp_all
    next
      case False
      let ?cl = "if settled completed ?p then closed else closed @ [ph_conn ?p]"
      have step: "sweep_loop now completed i ?rest ?cl = (closed', ps')"
        using 1(3) False in_range by (auto simp: sweep_loop.simps [of _ _ i ps] Let_def waiting_def)
      have "take i ?rest = take i ps" using in_range by (auto simp: min_def)
      moreover have "\<not> (\<not> settled completed ?p \<and> now < ph_deadline ?p)" "i \<le> length ?rest" using False in_range by (simp_all add: waiting_def)
      ultimately have
        IH: "mset ps' = filter_mset ?w (mset ?rest)" "mset closed' = mset ?cl + image_mset ph_conn (filter_mset ?o (mset ?rest))"
        using 1(2) [OF in_range refl refl _ step] 1(5) by metis+
      have split: "mset ps = add_mset ?p (mset ?rest)"
        using mset_swap_delete [OF in_range] in_range by (simp add: nth_mem)
      have "?o ?p \<longleftrightarrow> \<not> settled completed ?p" using False by (auto simp: waiting_def overdue_def)
      with IH split False show ?thesis by simp
    qed
  qed
qed

lemma sweep_mset:
  assumes "sweep now completed ps = (closed, ps')"
  shows "mset ps' = filter_mset (waiting now completed) (mset ps)"
    and "mset closed = image_mset ph_conn (filter_mset (overdue now completed) (mset ps))"
  using sweep_loop_mset [of now completed 0 ps "[]" closed ps'] assms by (simp_all add: sweep_def)

lemma sweep_sets:
  assumes "sweep now completed ps = (closed, ps')"
  shows "set ps' = {p \<in> set ps. waiting now completed p}" and "set closed = ph_conn ` {p \<in> set ps. overdue now completed p}"
  using sweep_mset [OF assms, THEN arg_cong [of _ _ set_mset]] by auto

section \<open>Ticks\<close>

text \<open>
  The ticker calls \<^verbatim>\<open>OnTick\<close> again and again. Each tick has its time and its view of the
  handshakes; the result is the connections closed, with the time of the tick that closed them.
\<close>

fun run_ticks :: "(int \<times> (nat \<Rightarrow> bool)) list \<Rightarrow> pendingHandshake list \<Rightarrow> (int \<times> nat) list" where
  "run_ticks [] ps = []"
| "run_ticks ((now, completed) # ts) ps =
     (case OnTick tlsHandshakeTimeout now completed ps of (_, closed, ps') \<Rightarrow> map (Pair now) closed @ run_ticks ts ps')"

lemma run_ticks_Cons:
  obtains ps' where "set ps' = {p \<in> set ps. waiting now completed p}"
    "set (run_ticks ((now, completed) # ts) ps) = Pair now ` ph_conn ` {p \<in> set ps. overdue now completed p} \<union> set (run_ticks ts ps')"
proof -
  obtain closed ps' where s: "sweep now completed ps = (closed, ps')" by fastforce
  from that [of ps'] sweep_sets [OF s] s show thesis by (simp add: OnTick_def)
qed

lemma tick_closes_overdue: "(t, c) \<in> set (run_ticks ts ps) \<Longrightarrow>
    \<exists>p completed. p \<in> set ps \<and> (t, completed) \<in> set ts \<and> ph_conn p = c \<and> overdue t completed p"
proof (induction ts arbitrary: ps)
  case (Cons tick ts)
  obtain now completed where tick: "tick = (now, completed)" by fastforce
  obtain ps' where ps': "set ps' = {p \<in> set ps. waiting now completed p}"
    "set (run_ticks (tick # ts) ps) = Pair now ` ph_conn ` {p \<in> set ps. overdue now completed p} \<union> set (run_ticks ts ps')"
    unfolding tick by (rule run_ticks_Cons)
  from Cons.prems [unfolded ps'(2)] consider p where "p \<in> set ps" "overdue now completed p" "t = now" "ph_conn p = c" | "(t, c) \<in> set (run_ticks ts ps')" by blast
  then show ?case
  proof cases
    case 1
    then show ?thesis using tick by auto
  next
    case 2
    with Cons.IH ps'(1) show ?thesis by (metis (no_types, lifting) list.set_intros(2) mem_Collect_eq)
  qed
qed simp

lemma tick_closes_stalled:
  "p \<in> set ps \<Longrightarrow> \<forall>(t, completed) \<in> set ts. \<not> settled completed p \<Longrightarrow>
   find (\<lambda>(t, _). ph_deadline p \<le> t) ts = Some (t', completed') \<Longrightarrow> (t', ph_conn p) \<in> set (run_ticks ts ps)"
proof (induction ts arbitrary: ps)
  case (Cons tick ts)
  obtain now completed where tick: "tick = (now, completed)" by fastforce
  obtain ps' where ps': "set ps' = {p \<in> set ps. waiting now completed p}"
    "set (run_ticks (tick # ts) ps) = Pair now ` ph_conn ` {p \<in> set ps. overdue now completed p} \<union> set (run_ticks ts ps')"
    unfolding tick by (rule run_ticks_Cons)
  show ?case
  proof (cases "ph_deadline p \<le> now")
    case True
    with Cons.prems tick have "overdue now completed p" "t' = now" by (auto simp: overdue_def)
    with Cons.prems(1) show ?thesis unfolding ps'(2) by blast
  next
    case False
    with Cons.prems tick ps'(1) have "p \<in> set ps'" by (auto simp: waiting_def)
    with Cons.IH [of ps'] Cons.prems(2,3) False tick ps'(2) show ?thesis by auto
  qed
qed simp

text \<open>
  C22. A client that stalls in the TLS handshake is disconnected, and no other: whatever connections
  come and go around it, a tracked connection that neither completes its handshake nor closes is
  closed by the first tick at or after its deadline; and a tick closes a connection only if it was
  tracked, had not completed its handshake by that tick and its deadline had passed.
\<close>

theorem handshake_deadline_enforced:
  assumes "ps = qs @ track c dl rs" "\<forall>(t, completed) \<in> set ts. \<not> completed c" "find (\<lambda>(t, _). dl \<le> t) ts = Some (t', completed')"
  shows "(t', c) \<in> set (run_ticks ts ps) \<and>
    (\<forall>(t, i) \<in> set (run_ticks ts ps). \<exists>p completed. p \<in> set ps \<and> ph_conn p = i \<and> (t, completed) \<in> set ts \<and>
           \<not> ph_done p \<and> \<not> completed i \<and> ph_deadline p \<le> t)"
proof (rule conjI)
  let ?p = "\<lparr>ph_conn = c, ph_deadline = dl, ph_done = False\<rparr>"
  have "?p \<in> set ps" "\<forall>(t, completed) \<in> set ts. \<not> settled completed ?p" using assms(1,2) by (auto simp: track_def settled_def)
  from tick_closes_stalled [OF this, of t' completed'] assms(3) show "(t', c) \<in> set (run_ticks ts ps)" by simp
  show "\<forall>(t, i) \<in> set (run_ticks ts ps). \<exists>p completed. p \<in> set ps \<and> ph_conn p = i \<and> (t, completed) \<in> set ts \<and>
           \<not> ph_done p \<and> \<not> completed i \<and> ph_deadline p \<le> t"
    using tick_closes_overdue by (fastforce simp: overdue_def settled_def)
qed

theorem handshake_deadline_enforced_witness:
  "(12, 7) \<in> set (run_ticks [(4, \<lambda>i. False), (8, \<lambda>i. i = 3), (12, \<lambda>i. i = 3)] (track 3 10 [] @ track 7 10 (track 5 20 [])))"
  using handshake_deadline_enforced [of _ "track 3 10 []" 7 10 "track 5 20 []" "[(4, \<lambda>i. False), (8, \<lambda>i. i = 3), (12, \<lambda>i. i = 3)]" 12] by simp

end
