(* ===== verification/Resp_Server.thy ===== *)
theory Resp_Server
  imports Resp_Admin Resp_Handshake Login_Interface
begin

text \<open>
  The Redis front end, \<^verbatim>\<open>src/internal/resp/server.go\<close> with the reply encoder
  \<^verbatim>\<open>src/internal/resp/respreply.go\<close>: the state of a connection, authentication, the
  dispatch of a command, the loop over the commands of a buffer, the plain and the TLS read paths,
  the upgrade by STARTTLS and the password workers. \<open>rc_inbuf\<close> holds the bytes the event loop
  has and has not yet given away: the ring buffer of a plain connection, the decrypted bytes of a
  TLS connection. \<open>rc_outbuf\<close> holds what was written to the client.
\<close>

section \<open>State\<close>

record resp_conn =
  rc_id :: nat
  rc_shardID :: int
  rc_tls :: bool
  rc_readBuf :: bytes
  rc_cap :: nat
  rc_pending :: "int option"
  rc_authenticated :: bool
  rc_session :: "session option"
  rc_remoteAddr :: string
  rc_closeAfterReply :: bool
  rc_upgradeTLS :: bool
  rc_authPending :: bool
  rc_authFails :: int
  rc_inbuf :: bytes
  rc_outbuf :: bytes

record resp_server =
  sv_router :: router
  sv_tls :: bool
  sv_startTLS :: bool
  sv_requirePassHash :: bytes
  sv_policy :: "rbac_store option"
  sv_oauth :: bool
  sv_authJobs :: "auth_job list"
  sv_audit :: log_engine
  sv_handshakes :: "pendingHandshake list"
  sv_handshakeTimeout :: duration
  sv_nextConn :: uint64
  sv_connectedClients :: uint64
  sv_totalConnections :: uint64
  sv_bytesRead :: uint64
  sv_bytesWritten :: uint64
  sv_protocolErrors :: uint64

text \<open>The environment of one round of an event: besides the shared part, the outcome of further calls on the connection.\<close>

record resp_env =
  re_env :: front_env
  flush_ok :: bool
  discard_ok :: bool
  hs_completed :: bool

definition resp_maxAuthFails :: int where "resp_maxAuthFails = 3"

definition maxTLSReadBuf :: nat where "maxTLSReadBuf = 64 * 2 ^ 20"

definition initialReadBuf :: nat where "initialReadBuf = 4096"

definition resp_NewServer :: "(bytes \<Rightarrow> bytes option) \<Rightarrow> router \<Rightarrow> bool \<Rightarrow> bytes \<Rightarrow> bool \<Rightarrow> rbac_store option \<Rightarrow> bool \<Rightarrow> log_engine \<Rightarrow>
    resp_server go" where
  "resp_NewServer hash r tls requirePass startTLS po oauth au =
     (let srv = \<lparr>sv_router = r, sv_tls = tls, sv_startTLS = startTLS, sv_requirePassHash = [], sv_policy = po, sv_oauth = oauth,
            sv_authJobs = [], sv_audit = au, sv_handshakes = [], sv_handshakeTimeout = tlsHandshakeTimeout, sv_nextConn = 0,
            sv_connectedClients = 0, sv_totalConnections = 0, sv_bytesRead = 0, sv_bytesWritten = 0, sv_protocolErrors = 0\<rparr>
      in if requirePass \<noteq> [] \<and> po = None
         then (case hash requirePass of None \<Rightarrow> Panics | Some h \<Rightarrow> Returns (srv\<lparr>sv_requirePassHash := h\<rparr>))
         else Returns srv)"

definition resp_on_shard :: "int \<Rightarrow> (shard \<Rightarrow> shard) \<Rightarrow> resp_server \<Rightarrow> resp_server" where
  "resp_on_shard sid f srv =
     (let r = sv_router srv; i = nat sid in
      if 0 \<le> sid \<and> i < length (shards r) then srv\<lparr>sv_router := r\<lparr>shards := (shards r)[i := f (shards r ! i)]\<rparr>\<rparr> else srv)"

definition resp_record :: "event_type \<Rightarrow> string \<Rightarrow> (string \<times> string) list \<Rightarrow> resp_server \<Rightarrow> resp_server" where
  "resp_record ev msg fs srv = srv\<lparr>sv_audit := Record ev msg fs (sv_audit srv)\<rparr>"

definition count_written :: "nat \<Rightarrow> resp_conn \<Rightarrow> resp_server \<Rightarrow> resp_server" where
  "count_written n c srv =
     resp_on_shard (rc_shardID c) (AddBytesWritten (of_nat n)) (srv\<lparr>sv_bytesWritten := sv_bytesWritten srv + of_nat n\<rparr>)"

definition count_read :: "nat \<Rightarrow> resp_conn \<Rightarrow> resp_server \<Rightarrow> resp_server" where
  "count_read n c srv =
     resp_on_shard (rc_shardID c) (AddBytesRead (of_nat n)) (srv\<lparr>sv_bytesRead := sv_bytesRead srv + of_nat n\<rparr>)"

section \<open>Opening and closing\<close>

definition connectionAuth :: "resp_server \<Rightarrow> bool \<times> session option" where
  "connectionAuth srv =
     (case sv_policy srv of
        Some ps \<Rightarrow>
          if NoPassDefault (active ps) then (True, Some (NewSessionContext ''default'' (RoleFor (active ps) ''default'')))
          else (False, None)
      | None \<Rightarrow> (sv_requirePassHash srv = [], None))"

definition new_conn :: "nat \<Rightarrow> int \<Rightarrow> string \<Rightarrow> resp_server \<Rightarrow> resp_conn" where
  "new_conn i sid addr srv =
     \<lparr>rc_id = i, rc_shardID = sid, rc_tls = False, rc_readBuf = [], rc_cap = 0, rc_pending = None,
      rc_authenticated = fst (connectionAuth srv), rc_session = snd (connectionAuth srv), rc_remoteAddr = addr,
      rc_closeAfterReply = False, rc_upgradeTLS = False, rc_authPending = False, rc_authFails = 0, rc_inbuf = [], rc_outbuf = []\<rparr>"

text \<open>Installing TLS on a connection: a fresh read buffer, and the handshake is tracked from now on.\<close>

definition install_tls :: "int \<Rightarrow> resp_conn \<Rightarrow> resp_server \<Rightarrow> resp_conn \<times> resp_server" where
  "install_tls now c srv =
     (let dl = now + sv_handshakeTimeout srv in
      (c\<lparr>rc_tls := True, rc_readBuf := [], rc_cap := initialReadBuf, rc_pending := Some dl\<rparr>,
       srv\<lparr>sv_handshakes := track (rc_id c) dl (sv_handshakes srv)\<rparr>))"

definition resp_OnOpen :: "int \<Rightarrow> nat \<Rightarrow> string \<Rightarrow> resp_server \<Rightarrow> resp_conn \<times> resp_server" where
  "resp_OnOpen now i addr srv =
     (let srv1 = srv\<lparr>sv_connectedClients := sv_connectedClients srv + 1, sv_totalConnections := sv_totalConnections srv + 1\<rparr>;
          n = length (shards (sv_router srv));
          sid = (if n > 0 then uint (sv_nextConn srv mod of_nat n) else - 1);
          srv2 = (if n > 0 then resp_on_shard sid (IncTotalConnections \<circ> IncConnectedClients) (srv1\<lparr>sv_nextConn := sv_nextConn srv + 1\<rparr>) else srv1);
          c = new_conn i sid addr srv;
          (c', srv3) = (if sv_tls srv \<and> \<not> sv_startTLS srv then install_tls now c srv2 else (c, srv2))
      in (c', resp_record EventConnect ''client connected''
                [(''remote_addr'', addr), (''protocol'', ''resp''), (''shard_id'', itoa sid)] srv3))"

definition resp_OnClose :: "resp_conn \<Rightarrow> resp_server \<Rightarrow> resp_server" where
  "resp_OnClose c srv =
     (let srv1 = srv\<lparr>sv_connectedClients := sv_connectedClients srv - 1\<rparr>;
          srv2 = (if rc_pending c \<noteq> None then srv1\<lparr>sv_handshakes := mark_done (rc_id c) (sv_handshakes srv1)\<rparr> else srv1)
      in resp_record EventDisconnect ''client disconnected'' [(''remote_addr'', rc_remoteAddr c), (''protocol'', ''resp'')]
           (resp_on_shard (rc_shardID c) DecConnectedClients srv2))"

section \<open>Authentication\<close>

type_synonym resp_result = "(bytes \<times> bool) \<times> resp_conn \<times> resp_server"

definition resp_authFailed :: "int \<Rightarrow> string \<Rightarrow> string \<Rightarrow> bytes \<Rightarrow> resp_conn \<Rightarrow> resp_server \<Rightarrow> resp_result" where
  "resp_authFailed now username reason out c srv =
     (let srv1 = srv\<lparr>sv_policy := map_option (LogAuthFailure now username (rc_remoteAddr c) reason) (sv_policy srv)\<rparr>;
          srv2 = resp_record EventAuthFailure ''authentication failed''
                   [(''user'', username), (''remote_addr'', rc_remoteAddr c), (''reason'', reason), (''protocol'', ''resp'')] srv1;
          c1 = c\<lparr>rc_authFails := rc_authFails c + 1\<rparr>;
          c2 = (if rc_authFails c1 \<ge> resp_maxAuthFails then c1\<lparr>rc_closeAfterReply := True\<rparr> else c1)
      in ((AppendError out ''ERR invalid password'', False), c2, srv2))"

definition enqueue :: "auth_job \<Rightarrow> bytes \<Rightarrow> resp_conn \<Rightarrow> resp_server \<Rightarrow> resp_result" where
  "enqueue job out c srv =
     (if length (sv_authJobs srv) < authQueueCap
      then ((out, True), c\<lparr>rc_authPending := True\<rparr>, srv\<lparr>sv_authJobs := sv_authJobs srv @ [job]\<rparr>)
      else ((AppendError out ''ERR invalid password'', False), c, srv))"

definition dispatchAuth :: "string \<Rightarrow> bytes \<Rightarrow> bytes \<Rightarrow> session option \<Rightarrow> bytes \<Rightarrow> resp_conn \<Rightarrow> resp_server \<Rightarrow> resp_result" where
  "dispatchAuth username password passHash sc out c srv =
     enqueue \<lparr>job_conn = rc_id c, job_password = password, job_passHash = passHash, job_session = sc, job_username = username,
       job_reason = ''invalid password'', job_oauth = False\<rparr> out c srv"

definition dispatchOAuth :: "bytes \<Rightarrow> bytes \<Rightarrow> resp_conn \<Rightarrow> resp_server \<Rightarrow> resp_result" where
  "dispatchOAuth token out c srv =
     enqueue \<lparr>job_conn = rc_id c, job_password = token, job_passHash = [], job_session = None, job_username = [],
       job_reason = ''invalid token'', job_oauth = True\<rparr> out c srv"

definition authRBAC :: "front_env \<Rightarrow> rbac_store \<Rightarrow> bytes list \<Rightarrow> bytes \<Rightarrow> resp_conn \<Rightarrow> resp_server \<Rightarrow> resp_result" where
  "authRBAC v ps as out c srv =
     (let username = (if length as = 3 then as ! 1 else ''default'') in
      case active ps of
        None \<Rightarrow> resp_authFailed (wall_clock v) username ''policy not loaded'' out c srv
      | Some p \<Rightarrow>
          (case UserFor (Some p) username of
             None \<Rightarrow> resp_authFailed (wall_clock v) username ''unknown user'' out c srv
           | Some u \<Rightarrow>
               let sc = NewSessionContext username (RoleFor (Some p) username) in
               if length (PasswordHash u) = 0 then
                 ((out @ respOK, False), c\<lparr>rc_authenticated := True, rc_session := Some sc\<rparr>,
                  resp_record EventAuthSuccess ''client authenticated''
                    [(''user'', username), (''remote_addr'', rc_remoteAddr c), (''protocol'', ''resp'')] srv)
               else dispatchAuth username (last as) (PasswordHash u) (Some sc) out c srv))"

definition auth :: "front_env \<Rightarrow> bytes list \<Rightarrow> bytes \<Rightarrow> resp_conn \<Rightarrow> resp_server \<Rightarrow> resp_result" where
  "auth v as out c srv =
     (if length as \<noteq> 2 \<and> length as \<noteq> 3 then ((AppendError out (wrong_args ''auth''), False), c, srv)
      else case sv_policy srv of
        Some ps \<Rightarrow>
          if sv_oauth srv \<and> length as = 2 \<and> IsJWT (as ! 1) then dispatchOAuth (as ! 1) out c srv
          else authRBAC v ps as out c srv
      | None \<Rightarrow>
          if sv_requirePassHash srv = [] then ((out @ respOK, False), c, srv)
          else let username = (if length as = 3 then as ! 1 else ''default'') in
            if username \<noteq> ''default'' then resp_authFailed (wall_clock v) username ''unknown user'' out c srv
            else dispatchAuth username (last as) (sv_requirePassHash srv) None out c srv)"

section \<open>One command\<close>

text \<open>The reply encoder of the command layer.\<close>

definition respReply :: "front_env \<Rightarrow> bytes \<Rightarrow> shard_error reply \<Rightarrow> bytes" where
  "respReply v out r =
     (case r of
        RepOK \<Rightarrow> out @ respOK
      | RepBulk b \<Rightarrow> AppendBulk out b
      | RepNull \<Rightarrow> AppendNullBulk out
      | RepInt n \<Rightarrow> AppendInt out n
      | RepDenied cmd \<Rightarrow> AppendError out (''NOPERM no permission for '' @ [CHR 0x27] @ cmd @ [CHR 0x27] @ '' command on this key'')
      | RepErrorMsg s \<Rightarrow> AppendError out s
      | RepStorageErr err \<Rightarrow> AppendError out (''ERR '' @ store_text v err))"

definition authorizedCmd :: "resp_conn \<Rightarrow> uint16 \<Rightarrow> resp_server \<Rightarrow> bool" where
  "authorizedCmd c cmd srv =
     (sv_policy srv = None \<or> (case rc_session c of None \<Rightarrow> False | Some sc \<Rightarrow> AllowsCommand sc cmd))"

definition countCommand :: "resp_conn \<Rightarrow> resp_server \<Rightarrow> resp_server" where
  "countCommand c srv =
     srv\<lparr>sv_policy := (case (sv_policy srv, rc_session c) of (Some ps, Some sc) \<Rightarrow> Some (CountCommand sc ps) | (po, _) \<Rightarrow> po)\<rparr>"

definition countDenied :: "resp_server \<Rightarrow> resp_server" where
  "countDenied srv = srv\<lparr>sv_policy := map_option IncDenied (sv_policy srv)\<rparr>"

definition deniedReply :: "int \<Rightarrow> string \<Rightarrow> bytes \<Rightarrow> bool \<Rightarrow> bytes \<Rightarrow> resp_conn \<Rightarrow> resp_server \<Rightarrow> resp_result" where
  "deniedReply now cmd key keyless out c srv =
     (let usr = (case rc_session c of Some sc \<Rightarrow> Username sc | None \<Rightarrow> []);
          srv1 = countDenied srv;
          srv2 = srv1\<lparr>sv_policy := map_option (LogDenied now usr (rc_remoteAddr c) cmd key) (sv_policy srv1)\<rparr>;
          srv3 = resp_record EventACLDeny ''command denied by rbac policy''
                   [(''user'', usr), (''command'', cmd), (''key'', key), (''remote_addr'', rc_remoteAddr c), (''protocol'', ''resp'')] srv2;
          msg = ''NOPERM no permission for '' @ [CHR 0x27] @ cmd @ [CHR 0x27] @ '' command''
      in ((AppendError out (if keyless then msg else msg @ '' on this key''), False), c, srv3))"

definition dispatchSTARTTLS :: "bytes list \<Rightarrow> bytes \<Rightarrow> resp_conn \<Rightarrow> resp_server \<Rightarrow> resp_result" where
  "dispatchSTARTTLS as out c srv =
     (if length as \<noteq> 1 then ((AppendError out (wrong_args ''starttls''), False), c, srv)
      else if rc_tls c then ((AppendError out ''ERR connection is already encrypted'', False), c, srv)
      else if \<not> sv_tls srv then ((AppendError out ''ERR TLS not configured'', False), c, srv)
      else ((out @ respOK, False), c\<lparr>rc_upgradeTLS := True\<rparr>, srv))"

text \<open>The commands the command layer does not know.\<close>

definition local_command :: "front_env \<Rightarrow> bytes list \<Rightarrow> bytes \<Rightarrow> resp_conn \<Rightarrow> resp_server \<Rightarrow> resp_result" where
  "local_command v as out c srv =
     (let cmd = as ! 0 in
      if EqualFold cmd ''PING'' then ((if length as \<ge> 2 then AppendBulk out (as ! 1) else out @ respPong, False), c, srv)
      else if EqualFold cmd ''COMMAND'' then
        (if \<not> authorizedCmd c cmd_Command srv then deniedReply (wall_clock v) ''command'' [] True out c srv
         else ((resp_command as out, False), c, countCommand c srv))
      else if EqualFold cmd ''ROLE'' then
        (if \<not> authorizedCmd c cmd_Role srv then deniedReply (wall_clock v) ''role'' [] True out c srv
         else (case resp_role v as out (sv_policy (countCommand c srv)) of
                 (out', po) \<Rightarrow> ((out', False), c, (countCommand c srv)\<lparr>sv_policy := po\<rparr>)))
      else if EqualFold cmd ''ACL'' then
        (if \<not> authorizedCmd c cmd_ACL srv then deniedReply (wall_clock v) ''acl'' [] True out c srv
         else (case resp_acl v as out (sv_policy (countCommand c srv)) of
                 (out', po) \<Rightarrow> ((out', False), c, (countCommand c srv)\<lparr>sv_policy := po\<rparr>)))
      else if EqualFold cmd ''QUIT'' then ((out @ respOK, False), c\<lparr>rc_closeAfterReply := True\<rparr>, srv)
      else if sv_startTLS srv \<and> EqualFold cmd ''STARTTLS'' then dispatchSTARTTLS as out c srv
      else ((AppendError out (''ERR unknown command '' @ [CHR 0x27] @ cmd @ [CHR 0x27]), False), c, srv))"

definition resp_ctx :: "bytes list \<Rightarrow> resp_conn \<Rightarrow> ctx" where
  "resp_ctx as c = \<lparr>Args = as, ctx_TTL = 0, Session = rc_session c, Remote = rc_remoteAddr c, Protocol = ''resp''\<rparr>"

definition audit_dispatch :: "bytes list \<Rightarrow> resp_conn \<Rightarrow> resp_server \<Rightarrow> resp_server" where
  "audit_dispatch as c srv =
     resp_record EventCommand ''command dispatched''
       [(''command'', as ! 0), (''key'', if length as \<ge> 2 then as ! 1 else []),
        (''user'', case rc_session c of Some sc \<Rightarrow> Username sc | None \<Rightarrow> ''default''), (''remote_addr'', rc_remoteAddr c),
        (''protocol'', ''resp'')] srv"

definition dispatch :: "prims \<Rightarrow> front_env \<Rightarrow> bytes list \<Rightarrow> bytes \<Rightarrow> resp_conn \<Rightarrow> resp_server \<Rightarrow> resp_result go" where
  "dispatch P v as out c srv =
     (if as = [] then Returns ((AppendError out ''ERR empty command'', False), c, srv)
      else let cmd = as ! 0 in
        if EqualFold cmd ''AUTH'' then Returns (auth v as out c srv)
        else if \<not> rc_authenticated c \<and> sv_startTLS srv \<and> EqualFold cmd ''STARTTLS'' then Returns (dispatchSTARTTLS as out c srv)
        else if \<not> rc_authenticated c \<and> \<not> EqualFold cmd ''PING'' \<and> \<not> EqualFold cmd ''QUIT''
        then Returns ((AppendError out ''NOAUTH Authentication required'', False), c, srv)
        else go_bind (server_exec P (exec_envs v) (wall_clock v) (resp_ctx as c)
                 \<lparr>kv = sv_router srv, pol = sv_policy srv, aud = Some (sv_audit srv)\<rparr>) (\<lambda>(rep, st).
               let srv1 = srv\<lparr>sv_router := kv st, sv_policy := pol st, sv_audit := (case aud st of Some a \<Rightarrow> a | None \<Rightarrow> sv_audit srv)\<rparr> in
               case rep of
                 Some r \<Rightarrow> Returns ((respReply v out r, False), c, srv1)
               | None \<Rightarrow> Returns (local_command v as out c (audit_dispatch as c srv1))))"

section \<open>The commands of a buffer\<close>

text \<open>
  STARTTLS takes effect at once: the accepted reply is flushed, the bytes of the command are given
  back and TLS is installed. The result is the action the caller takes.
\<close>

definition upgradeToTLS :: "resp_env \<Rightarrow> nat \<Rightarrow> bytes \<Rightarrow> resp_conn \<Rightarrow> resp_server \<Rightarrow> action \<times> resp_conn \<times> resp_server" where
  "upgradeToTLS v consumed out c srv =
     (if \<not> sv_tls srv then (ActClose, c, srv)
      else if \<not> write_ok (re_env v) then (ActClose, c, srv)
      else let c1 = c\<lparr>rc_outbuf := rc_outbuf c @ out\<rparr> in
        if \<not> flush_ok v \<or> \<not> discard_ok v then (ActClose, c1, srv)
        else let srv1 = count_read consumed c (count_written (length out) c srv);
                 (c2, srv2) = install_tls (wall_clock (re_env v)) (c1\<lparr>rc_inbuf := drop consumed (rc_inbuf c1)\<rparr>) srv1
             in (ActNone, c2\<lparr>rc_upgradeTLS := False\<rparr>, srv2))"

record buf_end =
  be_consumed :: nat
  be_upgraded :: bool
  be_bad :: bool
  be_out :: bytes

function processBuffer :: "prims \<Rightarrow> (nat \<Rightarrow> resp_env) \<Rightarrow> bytes \<Rightarrow> nat \<Rightarrow> bytes \<Rightarrow> resp_conn \<Rightarrow> resp_server \<Rightarrow>
    (buf_end \<times> resp_conn \<times> resp_server) go" where
  "processBuffer P vs src consumed out c srv =
     (let stop = (\<lambda>n upgraded bad out. \<lparr>be_consumed = n, be_upgraded = upgraded, be_bad = bad, be_out = out\<rparr>) in
      if \<not> consumed < length src then Returns (stop consumed False False out, c, srv)
      else case Parse (drop consumed src) of
        Inl ErrIncomplete \<Rightarrow> Returns (stop consumed False False out, c, srv)
      | Inl ErrProtocol \<Rightarrow> Returns (stop consumed False True out, c, srv\<lparr>sv_protocolErrors := sv_protocolErrors srv + 1\<rparr>)
      | Inr (as, n) \<Rightarrow>
          go_bind (dispatch P (re_env (vs 0)) as out c srv) (\<lambda>((out', async), c', srv').
            if async then Returns (stop (consumed + n) False False out', c', srv')
            else if rc_upgradeTLS c' then
              (case upgradeToTLS (vs 0) (consumed + n) out' c' srv' of (act, c'', srv'') \<Rightarrow>
                 Returns (stop (consumed + n) (act \<noteq> ActClose) (act = ActClose) out', c'', srv''))
            else if rc_closeAfterReply c' then Returns (stop (consumed + n) False False out', c', srv')
            else processBuffer P (\<lambda>i. vs (Suc i)) src (consumed + n) out' c' srv'))"
  by pat_completeness auto
termination
  by (relation "measure (\<lambda>(P, vs, src, consumed, out, c, srv). length src - consumed)") (auto dest!: Parse_next)

declare processBuffer.simps [simp del]

function hasPipelinedSTARTTLS :: "bytes \<Rightarrow> nat \<Rightarrow> bool" where
  "hasPipelinedSTARTTLS buf consumed =
     (if \<not> consumed < length buf then False
      else case Parse (drop consumed buf) of
        Inl err \<Rightarrow> False
      | Inr (as, n) \<Rightarrow>
          if length as = 1 \<and> EqualFold (as ! 0) ''STARTTLS'' then consumed \<noteq> 0 \<or> consumed + n \<noteq> length buf
          else hasPipelinedSTARTTLS buf (consumed + n))"
  by pat_completeness auto
termination
  by (relation "measure (\<lambda>(buf, consumed). length buf - consumed)") (auto dest!: Parse_next)

declare hasPipelinedSTARTTLS.simps [simp del]

section \<open>The read paths\<close>

text \<open>Writing the replies of a buffer; nothing is written when there are none.\<close>

definition flush_replies :: "front_env \<Rightarrow> bytes \<Rightarrow> resp_conn \<Rightarrow> resp_server \<Rightarrow> (resp_conn \<times> resp_server) option" where
  "flush_replies v out c srv =
     (if out = [] then Some (c, srv)
      else if \<not> write_ok v then None
      else Some (c\<lparr>rc_outbuf := rc_outbuf c @ out\<rparr>, count_written (length out) c srv))"

definition resp_onTrafficPlaintext :: "prims \<Rightarrow> (nat \<Rightarrow> resp_env) \<Rightarrow> resp_conn \<Rightarrow> resp_server \<Rightarrow> (action \<times> resp_conn \<times> resp_server) go" where
  "resp_onTrafficPlaintext P vs c srv =
     (let v = vs 0; buf = rc_inbuf c in
      if rc_authPending c then Returns (ActNone, c, srv)
      else if \<not> peek_ok (re_env v) then Returns (ActClose, c, srv)
      else if sv_startTLS srv \<and> hasPipelinedSTARTTLS buf 0
      then Returns (ActClose, c, srv\<lparr>sv_protocolErrors := sv_protocolErrors srv + 1\<rparr>)
      else go_bind (processBuffer P vs buf 0 [] c srv) (\<lambda>(r, c1, srv1).
        if be_bad r then Returns (ActClose, c1, srv1)
        else if be_upgraded r \<or> be_consumed r = 0 then Returns (ActNone, c1, srv1)
        else case flush_replies (re_env v) (be_out r) c1 srv1 of
          None \<Rightarrow> Returns (ActClose, c1, srv1)
        | Some (c2, srv2) \<Rightarrow>
            if \<not> discard_ok v then Returns (ActClose, c2, srv2)
            else Returns (if rc_closeAfterReply c2 then ActClose else ActNone,
                   c2\<lparr>rc_inbuf := drop (be_consumed r) (rc_inbuf c2)\<rparr>, count_read (be_consumed r) c2 srv2)))"

definition handleDecryptedResp :: "prims \<Rightarrow> (nat \<Rightarrow> resp_env) \<Rightarrow> resp_conn \<Rightarrow> resp_server \<Rightarrow> (action \<times> resp_conn \<times> resp_server) go" where
  "handleDecryptedResp P vs c srv =
     (if rc_authPending c then Returns (ActNone, c, srv)
      else go_bind (processBuffer P vs (rc_readBuf c) 0 [] c srv) (\<lambda>(r, c1, srv1).
        if be_bad r then Returns (ActClose, c1, srv1)
        else if be_consumed r = 0 then Returns (ActNone, c1, srv1)
        else case flush_replies (re_env (vs 0)) (be_out r) c1 srv1 of
          None \<Rightarrow> Returns (ActClose, c1, srv1)
        | Some (c2, srv2) \<Rightarrow>
            Returns (if rc_closeAfterReply c2 then ActClose else ActNone,
              c2\<lparr>rc_readBuf := drop (be_consumed r) (rc_readBuf c2)\<rparr>, count_read (be_consumed r) c2 srv2)))"

text \<open>The read buffer doubles when it is full; at the ceiling the connection is closed.\<close>

definition grow :: "resp_conn \<Rightarrow> resp_conn option" where
  "grow c =
     (if length (rc_readBuf c) = rc_cap c
      then if rc_cap c \<ge> maxTLSReadBuf then None else Some (c\<lparr>rc_cap := min (rc_cap c * 2) maxTLSReadBuf\<rparr>)
      else Some c)"

fun resp_onTrafficTLS :: "nat \<Rightarrow> prims \<Rightarrow> (nat \<Rightarrow> tls_env) \<Rightarrow> (nat \<Rightarrow> nat \<Rightarrow> resp_env) \<Rightarrow> resp_conn \<Rightarrow> resp_server \<Rightarrow>
    (action \<times> resp_conn \<times> resp_server) go option" where
  "resp_onTrafficTLS 0 P ts vs c srv = None"
| "resp_onTrafficTLS (Suc fuel) P ts vs c srv =
     (case grow c of
        None \<Rightarrow> Some (Returns (ActClose, c, srv))
      | Some c0 \<Rightarrow>
          (case tls_Read (ts 0) (rc_cap c0 - length (rc_readBuf c0)) (rc_inbuf c0) of
             (n, err) \<Rightarrow>
               (case (if n > 0
                      then handleDecryptedResp P (vs 0)
                             (c0\<lparr>rc_readBuf := rc_readBuf c0 @ take n (rc_inbuf c0), rc_inbuf := drop n (rc_inbuf c0)\<rparr>) srv
                      else Returns (ActNone, c0, srv)) of
                  Panics \<Rightarrow> Some Panics
                | Returns (act, c', srv') \<Rightarrow>
                    if act \<noteq> ActNone then Some (Returns (act, c', srv'))
                    else (case err of
                            Some ErrNotEnough \<Rightarrow> Some (Returns (ActNone, c', srv'))
                          | Some TLSFailure \<Rightarrow> Some (Returns (ActClose, c', srv'))
                          | None \<Rightarrow> resp_onTrafficTLS fuel P (\<lambda>i. ts (Suc i)) (\<lambda>i. vs (Suc i)) c' srv'))))"

text \<open>
  A handshake that is late is closed when its client sends something. A connection without the
  record of its handshake would be a nil dereference.
\<close>

definition resp_OnTraffic :: "nat \<Rightarrow> prims \<Rightarrow> (nat \<Rightarrow> tls_env) \<Rightarrow> (nat \<Rightarrow> nat \<Rightarrow> resp_env) \<Rightarrow> resp_conn \<Rightarrow> resp_server \<Rightarrow>
    (action \<times> resp_conn \<times> resp_server) go option" where
  "resp_OnTraffic fuel P ts vs c srv =
     (if rc_tls c then
        if hs_completed (vs 0 0) then resp_onTrafficTLS fuel P ts vs c srv
        else (case rc_pending c of
                None \<Rightarrow> Some Panics
              | Some dl \<Rightarrow>
                  if dl < wall_clock (re_env (vs 0 0)) then Some (Returns (ActClose, c, srv))
                  else resp_onTrafficTLS fuel P ts vs c srv)
      else Some (resp_onTrafficPlaintext P (vs 0) c srv))"

section \<open>The password workers\<close>

definition resp_authWorker :: "front_env \<Rightarrow> auth_job \<Rightarrow> resp_conn \<Rightarrow> resp_server \<Rightarrow> action \<times> resp_conn \<times> resp_server" where
  "resp_authWorker v job c srv =
     (let c1 = c\<lparr>rc_authPending := False\<rparr>;
          ((reply, _), c2, srv2) =
            (case job_accepted v job (sv_policy srv) of
               Some (s, name) \<Rightarrow>
                 (([] @ respOK, False), c1\<lparr>rc_authenticated := True, rc_session := s\<rparr>,
                  resp_record EventAuthSuccess ''client authenticated''
                    [(''user'', name), (''remote_addr'', rc_remoteAddr c), (''protocol'', ''resp'')] srv)
             | None \<Rightarrow> resp_authFailed (wall_clock v) (if job_oauth job then [] else job_username job) (job_reason job) [] c1 srv)
      in if \<not> write_ok v then (ActClose, c2, srv2)
         else (if rc_closeAfterReply c2 then ActClose else ActNone, c2\<lparr>rc_outbuf := rc_outbuf c2 @ reply\<rparr>, count_written (length reply) c2 srv2))"

section \<open>The server as a transition system\<close>

record resp_world =
  rw_server :: resp_server
  rw_conns :: "nat \<Rightarrow> resp_conn option"
  rw_next :: nat

datatype resp_event = ROpen string int | RHangup nat | RTraffic nat bytes | RAuth auth_job front_env | RTick int

definition close_conn :: "nat \<Rightarrow> resp_world \<Rightarrow> resp_world" where
  "close_conn i w =
     (case rw_conns w i of
        None \<Rightarrow> w
      | Some c \<Rightarrow> w\<lparr>rw_server := resp_OnClose c (rw_server w), rw_conns := (rw_conns w)(i := None)\<rparr>)"

definition settle :: "nat \<Rightarrow> action \<times> resp_conn \<times> resp_server \<Rightarrow> resp_world \<Rightarrow> resp_world" where
  "settle i r w =
     (case r of (act, c, srv) \<Rightarrow>
        (let w' = w\<lparr>rw_server := srv, rw_conns := (rw_conns w)(i := Some c)\<rparr> in if act = ActClose then close_conn i w' else w'))"

inductive resp_step :: "prims \<Rightarrow> resp_world \<Rightarrow> resp_event \<Rightarrow> resp_world \<Rightarrow> bool" for P where
  opened: "resp_OnOpen now (rw_next w) addr (rw_server w) = (c, srv) \<Longrightarrow>
    resp_step P w (ROpen addr now) (w\<lparr>rw_server := srv, rw_conns := (rw_conns w)(rw_next w := Some c), rw_next := Suc (rw_next w)\<rparr>)"
| hangup: "rw_conns w i = Some c \<Longrightarrow> resp_step P w (RHangup i) (close_conn i w)"
| traffic: "rw_conns w i = Some c \<Longrightarrow>
    resp_OnTraffic fuel P ts vs (c\<lparr>rc_inbuf := rc_inbuf c @ bs\<rparr>) (rw_server w) = Some (Returns r) \<Longrightarrow>
    resp_step P w (RTraffic i bs) (settle i r w)"
| worker: "k < length (sv_authJobs (rw_server w)) \<Longrightarrow> sv_authJobs (rw_server w) ! k = job \<Longrightarrow>
    srv = (rw_server w)\<lparr>sv_authJobs := take k (sv_authJobs (rw_server w)) @ drop (Suc k) (sv_authJobs (rw_server w))\<rparr> \<Longrightarrow>
    w' = (case rw_conns w (job_conn job) of
            None \<Rightarrow> w\<lparr>rw_server := srv\<rparr>
          | Some c \<Rightarrow> settle (job_conn job) (resp_authWorker v job c srv) w) \<Longrightarrow>
    resp_step P w (RAuth job v) w'"
| tick: "OnTick (sv_handshakeTimeout (rw_server w)) now completed (sv_handshakes (rw_server w)) = (d, closed, ps) \<Longrightarrow>
    resp_step P w (RTick now) (fold close_conn closed (w\<lparr>rw_server := (rw_server w)\<lparr>sv_handshakes := ps\<rparr>\<rparr>))"

inductive_cases resp_stepE: "resp_step P w e w'"

section \<open>What an event may change\<close>

text \<open>The data of the server: the engines of the shards, the files and the policy.\<close>

definition resp_stored :: "resp_server \<Rightarrow> engine list \<times> pstorage \<times> policy option option" where
  "resp_stored srv = (map Engine (shards (sv_router srv)), pstore (sv_router srv), map_option active (sv_policy srv))"

text \<open>What no event changes: the password of the server and whether there is a policy.\<close>

definition resp_fixed :: "resp_server \<Rightarrow> bytes \<times> bool" where
  "resp_fixed srv = (sv_requirePassHash srv, sv_policy srv = None)"

text \<open>An account that needs no password: without a policy the server itself, otherwise a user.\<close>

definition no_password :: "resp_server \<Rightarrow> bool" where
  "no_password srv =
     (case sv_policy srv of
        None \<Rightarrow> sv_requirePassHash srv = []
      | Some ps \<Rightarrow> (case active ps of None \<Rightarrow> False | Some p \<Rightarrow> list_ex (\<lambda>(n, u). PasswordHash u = []) (Users p)))"

lemma no_password_cong: "resp_fixed srv = resp_fixed srv' \<Longrightarrow> resp_stored srv = resp_stored srv' \<Longrightarrow> no_password srv = no_password srv'"
  by (auto simp: resp_fixed_def resp_stored_def no_password_def split: option.split)

lemma resp_on_shard_fields [simp]: "sv_policy (resp_on_shard sid f srv) = sv_policy srv" "sv_authJobs (resp_on_shard sid f srv) = sv_authJobs srv"
  "sv_requirePassHash (resp_on_shard sid f srv) = sv_requirePassHash srv" "sv_startTLS (resp_on_shard sid f srv) = sv_startTLS srv"
  "sv_tls (resp_on_shard sid f srv) = sv_tls srv" "sv_audit (resp_on_shard sid f srv) = sv_audit srv"
  "sv_handshakes (resp_on_shard sid f srv) = sv_handshakes srv" "sv_handshakeTimeout (resp_on_shard sid f srv) = sv_handshakeTimeout srv"
  by (simp_all add: resp_on_shard_def Let_def)

lemma resp_record_fields [simp]: "sv_policy (resp_record ev msg fs srv) = sv_policy srv" "sv_authJobs (resp_record ev msg fs srv) = sv_authJobs srv"
  "sv_requirePassHash (resp_record ev msg fs srv) = sv_requirePassHash srv" "sv_router (resp_record ev msg fs srv) = sv_router srv"
  "sv_tls (resp_record ev msg fs srv) = sv_tls srv" "sv_startTLS (resp_record ev msg fs srv) = sv_startTLS srv"
  by (simp_all add: resp_record_def)

lemma resp_on_shard_stored:
  assumes "\<And>s. Engine (f s) = Engine s"
  shows "resp_stored (resp_on_shard sid f srv) = resp_stored srv"
  using assms by (auto simp: resp_stored_def resp_on_shard_def Let_def map_update list_update_same_conv)

text \<open>Steps that leave everything alone a login depends on.\<close>

definition same_server :: "resp_server \<Rightarrow> resp_server \<Rightarrow> bool" where
  "same_server srv srv' \<longleftrightarrow> resp_fixed srv' = resp_fixed srv \<and> sv_authJobs srv' = sv_authJobs srv \<and> resp_stored srv' = resp_stored srv"

lemma same_server_refl [simp]: "same_server srv srv"
  by (simp add: same_server_def)

lemma same_server_trans: "same_server a b \<Longrightarrow> same_server b c \<Longrightarrow> same_server a c"
  by (simp add: same_server_def)

lemma same_server_updates [simp]:
  "same_server srv (srv'\<lparr>sv_bytesRead := n\<rparr>) = same_server srv srv'" "same_server srv (srv'\<lparr>sv_bytesWritten := n\<rparr>) = same_server srv srv'"
  "same_server srv (srv'\<lparr>sv_protocolErrors := n\<rparr>) = same_server srv srv'" "same_server srv (srv'\<lparr>sv_nextConn := n\<rparr>) = same_server srv srv'"
  "same_server srv (srv'\<lparr>sv_handshakes := hs\<rparr>) = same_server srv srv'" "same_server srv (resp_record ev msg fs srv') = same_server srv srv'"
  "same_server srv (srv'\<lparr>sv_connectedClients := m\<rparr>) = same_server srv srv'" "same_server srv (srv'\<lparr>sv_totalConnections := m\<rparr>) = same_server srv srv'"
  by (simp_all add: same_server_def resp_fixed_def resp_stored_def)

lemma same_server_on_shard [simp]:
  assumes "\<And>s. Engine (f s) = Engine s"
  shows "same_server srv (resp_on_shard sid f srv') = same_server srv srv'"
  using resp_on_shard_stored [OF assms] by (simp add: same_server_def resp_fixed_def)

lemma same_server_counts [simp]: "same_server srv (count_written n c srv') = same_server srv srv'"
  "same_server srv (count_read n c srv') = same_server srv srv'"
  by (simp_all add: count_written_def count_read_def)

lemma same_server_policy: "map_option active po = map_option active (sv_policy srv) \<Longrightarrow> same_server srv (srv\<lparr>sv_policy := po\<rparr>)"
  by (cases po; cases "sv_policy srv") (auto simp: same_server_def resp_fixed_def resp_stored_def)

text \<open>
  A job a connection submits is its own and never without something to check; without a policy it is
  the password of the server that is checked.
\<close>

definition resp_own :: "nat \<Rightarrow> resp_server \<Rightarrow> auth_job \<Rightarrow> bool" where
  "resp_own i srv job \<longleftrightarrow> job_conn job = i \<and> (job_oauth job \<or> job_passHash job \<noteq> []) \<and>
     (sv_policy srv = None \<longrightarrow> \<not> job_oauth job \<and> job_passHash job = sv_requirePassHash srv)"

lemma resp_own_cong: "resp_fixed srv = resp_fixed srv' \<Longrightarrow> resp_own i srv job = resp_own i srv' job"
  by (auto simp: resp_fixed_def resp_own_def)

definition resp_quiet :: "resp_conn \<Rightarrow> resp_server \<Rightarrow> resp_conn \<Rightarrow> resp_server \<Rightarrow> bool" where
  "resp_quiet c srv c' srv' \<longleftrightarrow> rc_id c' = rc_id c \<and> resp_fixed srv' = resp_fixed srv \<and>
     (\<forall>job. job \<in> set (sv_authJobs srv') \<longrightarrow> job \<in> set (sv_authJobs srv) \<or> resp_own (rc_id c) srv job) \<and>
     (rc_authenticated c \<or> no_password srv \<or> \<not> rc_authenticated c' \<and> resp_stored srv' = resp_stored srv)"

lemma resp_quiet_trans:
  assumes "resp_quiet c srv c1 srv1" "resp_quiet c1 srv1 c2 srv2"
  shows "resp_quiet c srv c2 srv2"
  using assms resp_own_cong [of srv1 srv] no_password_cong [of srv1 srv] by (auto simp: resp_quiet_def)

lemma resp_quiet_same: "same_server srv srv' \<Longrightarrow> rc_id c' = rc_id c \<Longrightarrow> rc_authenticated c' = rc_authenticated c \<Longrightarrow> resp_quiet c srv c' srv'"
  by (auto simp: resp_quiet_def same_server_def)

section \<open>Commands of a connection that has not logged in\<close>

lemma resp_authFailed_quiet:
  assumes "resp_authFailed now u r out c srv = (x, c', srv')"
  shows "same_server srv srv' \<and> rc_id c' = rc_id c \<and> rc_authenticated c' = rc_authenticated c"
proof -
  have "map_option active (map_option (LogAuthFailure now u (rc_remoteAddr c) r) (sv_policy srv)) = map_option active (sv_policy srv)"
    by (cases "sv_policy srv") simp_all
  from same_server_policy [OF this] assms show ?thesis by (auto simp: resp_authFailed_def Let_def split: if_splits)
qed

lemma resp_authFailed_quiet': "resp_authFailed now u r out c srv = (x, c', srv') \<Longrightarrow> resp_quiet c srv c' srv'"
  using resp_authFailed_quiet by (fastforce intro: resp_quiet_same)

lemma enqueue_quiet: "enqueue job out c srv = (x, c', srv') \<Longrightarrow> resp_own (rc_id c) srv job \<Longrightarrow> resp_quiet c srv c' srv'"
  by (auto simp: enqueue_def resp_quiet_def resp_fixed_def resp_stored_def split: if_splits)

lemma nopass_user: "UserFor (Some p) n = Some u \<Longrightarrow> PasswordHash u = [] \<Longrightarrow> sv_policy srv = Some ps \<Longrightarrow> active ps = Some p \<Longrightarrow> no_password srv"
  by (auto simp: no_password_def UserFor_def list_ex_iff dest!: map_of_SomeD intro!: bexI)

lemma authRBAC_quiet:
  assumes "authRBAC v ps as out c srv = (x, c', srv')" "sv_policy srv = Some ps"
  shows "resp_quiet c srv c' srv'"
proof (cases "active ps")
  case None
  with assms show ?thesis by (auto simp: authRBAC_def Let_def intro: resp_authFailed_quiet')
next
  case (Some p)
  let ?n = "if length as = 3 then as ! 1 else ''default''"
  show ?thesis
  proof (cases "UserFor (Some p) ?n")
    case None
    with assms Some show ?thesis by (auto simp: authRBAC_def Let_def intro: resp_authFailed_quiet')
  next
    case (Some u)
    show ?thesis
    proof (cases "PasswordHash u = []")
      case True
      then have "no_password srv" using nopass_user Some assms(2) \<open>active ps = Some p\<close> by blast
      moreover have "rc_id c' = rc_id c" "same_server srv srv'"
        using assms(1) Some \<open>active ps = Some p\<close> True by (auto simp: authRBAC_def Let_def)
      ultimately show ?thesis by (simp add: resp_quiet_def same_server_def)
    next
      case False
      with assms Some \<open>active ps = Some p\<close> show ?thesis
        by (auto simp: authRBAC_def Let_def dispatchAuth_def resp_own_def elim!: enqueue_quiet)
    qed
  qed
qed

lemma auth_quiet: "auth v as out c srv = (x, c', srv') \<Longrightarrow> resp_quiet c srv c' srv'"
  by (auto simp: auth_def Let_def dispatchOAuth_def dispatchAuth_def resp_own_def split: if_splits option.splits
      intro: resp_quiet_same authRBAC_quiet resp_authFailed_quiet' elim!: enqueue_quiet)

lemma dispatchSTARTTLS_quiet: "dispatchSTARTTLS as out c srv = (x, c', srv') \<Longrightarrow> srv' = srv \<and> rc_id c' = rc_id c \<and> rc_authenticated c' = rc_authenticated c"
  by (auto simp: dispatchSTARTTLS_def split: if_splits)

lemma PING_QUIT_Lookup: "EqualFold cmd ''PING'' \<or> EqualFold cmd ''QUIT'' \<Longrightarrow> cmd_Lookup cmd = None"
  by (auto simp: EqualFold_def cmd_Lookup_def commands_def equalFoldASCII_def)

lemma cmd_Execute_unknown: "cmd_Lookup (as ! 0) = None \<Longrightarrow> as \<noteq> [] \<Longrightarrow> server_exec P vs now (resp_ctx as c) st = Returns (None, st)"
  by (cases as) (auto simp: cmd_Execute_def resp_ctx_def)

lemma cmd_Execute_pol: "server_exec P vs now cx st = Returns (rep, st') \<Longrightarrow> pol st' = None \<longleftrightarrow> pol st = None"
proof (cases "Args cx")
  case (Cons name rest)
  assume e: "server_exec P vs now cx st = Returns (rep, st')"
  with Cons show ?thesis
    by (auto simp: cmd_Execute_def deny_def Let_def split: option.splits if_splits prod.splits)
qed (auto simp: cmd_Execute_def)

lemma admin_policy: "resp_role v as out po = (out', po') \<Longrightarrow> po' = None \<longleftrightarrow> po = None" "resp_acl v as out po = (out', po') \<Longrightarrow> po' = None \<longleftrightarrow> po = None"
  by (auto simp: resp_role_def resp_acl_def map_prod_def split: option.splits if_splits prod.splits)

lemma countCommand_same: "same_server srv (countCommand c srv)"
  unfolding countCommand_def by (rule same_server_policy) (auto split: option.split)

lemma deniedReply_same: "deniedReply now cmd key keyless out c srv = (x, c', srv') \<Longrightarrow> same_server srv srv' \<and> c' = c"
proof -
  have "same_server srv (srv\<lparr>sv_policy := map_option (LogDenied now u (rc_remoteAddr c) cmd key) (map_option IncDenied (sv_policy srv))\<rparr>)" for u
    by (rule same_server_policy) (simp add: option.map_comp comp_def)
  then show "deniedReply now cmd key keyless out c srv = (x, c', srv') \<Longrightarrow> same_server srv srv' \<and> c' = c"
    by (auto simp: deniedReply_def countDenied_def Let_def)
qed

text \<open>The commands outside the command layer keep jobs and configuration; PING and QUIT keep all.\<close>

lemma local_command_frame:
  assumes "local_command v as out c srv = (x, c', srv')"
  shows "resp_fixed srv' = resp_fixed srv \<and> sv_authJobs srv' = sv_authJobs srv \<and> rc_id c' = rc_id c \<and> rc_authenticated c' = rc_authenticated c \<and>
    (EqualFold (as ! 0) ''PING'' \<or> EqualFold (as ! 0) ''QUIT'' \<longrightarrow> same_server srv srv')"
proof -
  have pq: "EqualFold cmd ''QUIT'' \<Longrightarrow> \<not> EqualFold cmd ''COMMAND'' \<and> \<not> EqualFold cmd ''ROLE'' \<and> \<not> EqualFold cmd ''ACL''" for cmd
    by (auto simp: EqualFold_def)
  have count: "resp_fixed (countCommand c srv) = resp_fixed srv" "sv_authJobs (countCommand c srv) = sv_authJobs srv" for c
    using countCommand_same [of srv c] by (simp_all add: same_server_def)
  have adm: "resp_fixed ((countCommand c srv)\<lparr>sv_policy := po\<rparr>) = resp_fixed srv"
    if "resp_role v as out (sv_policy (countCommand c srv)) = (out', po) \<or> resp_acl v as out (sv_policy (countCommand c srv)) = (out', po)" for c out' po
  proof -
    have "po = None \<longleftrightarrow> sv_policy (countCommand c srv) = None" using that admin_policy by blast
    then show ?thesis using count(1) [of c] by (simp add: resp_fixed_def)
  qed
  show ?thesis using assms pq [of "as ! 0"]
    by (auto simp: local_command_def Let_def count same_server_def dest: deniedReply_same [unfolded same_server_def] dispatchSTARTTLS_quiet adm [OF disjI1] adm [OF disjI2]
        split: if_splits prod.splits)
qed

abbreviation exec_state :: "resp_server \<Rightarrow> server_state" where
  "exec_state srv \<equiv> \<lparr>kv = sv_router srv, pol = sv_policy srv, aud = Some (sv_audit srv)\<rparr>"

abbreviation after_exec :: "resp_server \<Rightarrow> server_state \<Rightarrow> resp_server" where
  "after_exec srv st \<equiv> srv\<lparr>sv_router := kv st, sv_policy := pol st, sv_audit := (case aud st of Some a \<Rightarrow> a | None \<Rightarrow> sv_audit srv)\<rparr>"

definition refused :: "bytes list \<Rightarrow> resp_conn \<Rightarrow> resp_server \<Rightarrow> bool" where
  "refused as c srv \<longleftrightarrow> as = [] \<or> EqualFold (as ! 0) ''AUTH'' \<or> \<not> rc_authenticated c \<and> \<not> EqualFold (as ! 0) ''PING'' \<and> \<not> EqualFold (as ! 0) ''QUIT''"

lemma STARTTLS_name: "EqualFold cmd ''STARTTLS'' \<Longrightarrow> \<not> EqualFold cmd ''PING'' \<and> \<not> EqualFold cmd ''QUIT''"
  by (auto simp: EqualFold_def)

lemma dispatch_exec:
  assumes "\<not> refused as c srv"
  shows "dispatch P v as out c srv =
    go_bind (server_exec P (exec_envs v) (wall_clock v) (resp_ctx as c) (exec_state srv)) (\<lambda>(rep, st).
      case rep of
        Some r \<Rightarrow> Returns ((respReply v out r, False), c, after_exec srv st)
      | None \<Rightarrow> Returns (local_command v as out c (audit_dispatch as c (after_exec srv st))))"
proof -
  have "as \<noteq> []" "\<not> EqualFold (as ! 0) ''AUTH''" "\<not> (\<not> rc_authenticated c \<and> sv_startTLS srv \<and> EqualFold (as ! 0) ''STARTTLS'')"
    "\<not> (\<not> rc_authenticated c \<and> \<not> EqualFold (as ! 0) ''PING'' \<and> \<not> EqualFold (as ! 0) ''QUIT'')"
    using assms STARTTLS_name by (auto simp: refused_def)
  then show ?thesis unfolding dispatch_def Let_def by (simp only: if_False simp_thms)
qed

lemma dispatch_quiet:
  assumes "dispatch P v as out c srv = Returns (x, c', srv')"
  shows "resp_quiet c srv c' srv'"
proof (cases "refused as c srv")
  case True
  with assms show ?thesis
    by (auto simp: refused_def dispatch_def Let_def intro: resp_quiet_same auth_quiet split: if_splits dest!: dispatchSTARTTLS_quiet)
next
  case False
  obtain rep st where e: "server_exec P (exec_envs v) (wall_clock v) (resp_ctx as c) (exec_state srv) = Returns (rep, st)"
    using assms unfolding dispatch_exec [OF False] by auto
  let ?s = "after_exec srv st" and ?a = "audit_dispatch as c (after_exec srv st)"
  have fixed: "resp_fixed ?s = resp_fixed srv" using cmd_Execute_pol [OF e] by (simp add: resp_fixed_def)
  have same: "resp_stored ?s = resp_stored srv" if "\<not> rc_authenticated c"
  proof -
    have "cmd_Lookup (as ! 0) = None" "as \<noteq> []" using that False PING_QUIT_Lookup by (auto simp: refused_def)
    from cmd_Execute_unknown [OF this, of P "exec_envs v" "wall_clock v" c "exec_state srv"] e show ?thesis by (simp add: resp_stored_def)
  qed
  show ?thesis
  proof (cases rep)
    case None
    with assms e have l: "local_command v as out c ?a = (x, c', srv')" unfolding dispatch_exec [OF False] by simp
    have a: "resp_fixed ?a = resp_fixed ?s" "resp_stored ?a = resp_stored ?s" "sv_authJobs ?a = sv_authJobs srv"
      by (simp_all add: audit_dispatch_def resp_fixed_def resp_stored_def)
    note frame = local_command_frame [OF l]
    have "\<not> rc_authenticated c \<Longrightarrow> resp_stored srv' = resp_stored ?a" using frame False by (auto simp: refused_def same_server_def)
    with frame a fixed same show ?thesis by (auto simp: resp_quiet_def)
  next
    case (Some r)
    with assms e have r: "c' = c" "srv' = ?s" unfolding dispatch_exec [OF False] by simp_all
    then have "sv_authJobs srv' = sv_authJobs srv" by simp
    with fixed same show ?thesis unfolding r by (auto simp: resp_quiet_def)
  qed
qed

lemma upgradeToTLS_quiet: "upgradeToTLS v n out c srv = (act, c', srv') \<Longrightarrow> resp_quiet c srv c' srv'"
  by (rule resp_quiet_same) (auto simp: upgradeToTLS_def install_tls_def Let_def split: if_splits)

lemma flush_replies_quiet: "flush_replies v out c srv = Some (c', srv') \<Longrightarrow> resp_quiet c srv c' srv'"
  by (rule resp_quiet_same) (auto simp: flush_replies_def split: if_splits)

section \<open>The loop over a buffer\<close>

text \<open>
  How the loop over the commands of a buffer ends, for any property the commands that go on keep:
  at the end of the complete commands, at a malformed one, or behind a command that stops the loop
  (an AUTH given to the workers, an upgrade, a closing reply).
\<close>

abbreviation stop_at :: "nat \<Rightarrow> bool \<Rightarrow> bool \<Rightarrow> bytes \<Rightarrow> buf_end" where
  "stop_at n upgraded bad out \<equiv> \<lparr>be_consumed = n, be_upgraded = upgraded, be_bad = bad, be_out = out\<rparr>"

definition goes_on :: "bool \<Rightarrow> resp_conn \<Rightarrow> bool" where
  "goes_on async c \<longleftrightarrow> \<not> async \<and> \<not> rc_upgradeTLS c \<and> \<not> rc_closeAfterReply c"

inductive buf_final :: "prims \<Rightarrow> bytes \<Rightarrow> nat \<Rightarrow> bytes \<Rightarrow> resp_conn \<Rightarrow> resp_server \<Rightarrow> buf_end \<Rightarrow> resp_conn \<Rightarrow> resp_server \<Rightarrow> bool"
  for P src where
  ended: "\<not> n < length src \<or> Parse (drop n src) = Inl ErrIncomplete \<Longrightarrow> buf_final P src n out c srv (stop_at n False False out) c srv"
| malformed: "n < length src \<Longrightarrow> Parse (drop n src) = Inl ErrProtocol \<Longrightarrow>
    buf_final P src n out c srv (stop_at n False True out) c (srv\<lparr>sv_protocolErrors := sv_protocolErrors srv + 1\<rparr>)"
| stopped: "n < length src \<Longrightarrow> Parse (drop n src) = Inr (as, k) \<Longrightarrow> dispatch P e as out c srv = Returns ((out1, async), c1, srv1) \<Longrightarrow>
    async \<or> \<not> rc_upgradeTLS c1 \<and> rc_closeAfterReply c1 \<Longrightarrow> buf_final P src n out c srv (stop_at (n + k) False False out1) c1 srv1"
| upgrade: "n < length src \<Longrightarrow> Parse (drop n src) = Inr (as, k) \<Longrightarrow> dispatch P (re_env v) as out c srv = Returns ((out1, False), c1, srv1) \<Longrightarrow>
    rc_upgradeTLS c1 \<Longrightarrow> upgradeToTLS v (n + k) out1 c1 srv1 = (act, c2, srv2) \<Longrightarrow>
    buf_final P src n out c srv (stop_at (n + k) (act \<noteq> ActClose) (act = ActClose) out1) c2 srv2"

lemma processBuffer_ends:
  "\<not> n < length src \<Longrightarrow> processBuffer P vs src n out c srv = Returns (stop_at n False False out, c, srv)"
  "n < length src \<Longrightarrow> Parse (drop n src) = Inl ErrIncomplete \<Longrightarrow> processBuffer P vs src n out c srv = Returns (stop_at n False False out, c, srv)"
  "n < length src \<Longrightarrow> Parse (drop n src) = Inl ErrProtocol \<Longrightarrow>
     processBuffer P vs src n out c srv = Returns (stop_at n False True out, c, srv\<lparr>sv_protocolErrors := sv_protocolErrors srv + 1\<rparr>)"
  by (subst processBuffer.simps, simp)+

lemma processBuffer_command:
  assumes "n < length src" "Parse (drop n src) = Inr (as, k)"
  shows "processBuffer P vs src n out c srv =
    go_bind (dispatch P (re_env (vs 0)) as out c srv) (\<lambda>((out1, async), c1, srv1).
      if goes_on async c1 then processBuffer P (\<lambda>i. vs (Suc i)) src (n + k) out1 c1 srv1
      else if async \<or> \<not> rc_upgradeTLS c1 then Returns (stop_at (n + k) False False out1, c1, srv1)
      else case upgradeToTLS (vs 0) (n + k) out1 c1 srv1 of (act, c2, srv2) \<Rightarrow>
        Returns (stop_at (n + k) (act \<noteq> ActClose) (act = ActClose) out1, c2, srv2))"
  using assms by (subst processBuffer.simps) (auto simp: goes_on_def intro!: arg_cong2 [where f = go_bind] ext)

lemma processBuffer_rule:
  assumes "processBuffer P vs src n out c srv = Returns (r, c', srv')" "I n out c srv"
    and "\<And>n (v :: resp_env) as k out c srv out1 c1 srv1. I n out c srv \<Longrightarrow> n < length src \<Longrightarrow> Parse (drop n src) = Inr (as, k) \<Longrightarrow>
      dispatch P (re_env v) as out c srv = Returns ((out1, False), c1, srv1) \<Longrightarrow> goes_on False c1 \<Longrightarrow> I (n + k) out1 c1 srv1"
  shows "\<exists>n0 out0 c0 srv0. I n0 out0 c0 srv0 \<and> buf_final P src n0 out0 c0 srv0 r c' srv'"
  using assms(1,2)
proof (induction "length src - n" arbitrary: vs n out c srv rule: less_induct)
  case less
  consider "\<not> n < length src" | e where "n < length src" "Parse (drop n src) = Inl e" | as k where "n < length src" "Parse (drop n src) = Inr (as, k)"
    by (metis obj_sumE surj_pair)
  then show ?case
  proof cases
    case 1
    with less.prems have "buf_final P src n out c srv r c' srv'" by (auto simp: processBuffer_ends intro: buf_final.intros)
    with less.prems show ?thesis by blast
  next
    case 2
    with less.prems have "buf_final P src n out c srv r c' srv'" by (cases e) (auto simp: processBuffer_ends intro: buf_final.intros)
    with less.prems show ?thesis by blast
  next
    case 3
    obtain out1 async c1 srv1 where d: "dispatch P (re_env (vs 0)) as out c srv = Returns ((out1, async), c1, srv1)"
      using less.prems(1) unfolding processBuffer_command [OF 3] by auto
    show ?thesis
    proof (cases "goes_on async c1")
      case True
      then have a: "\<not> async" by (simp add: goes_on_def)
      have "processBuffer P (\<lambda>i. vs (Suc i)) src (n + k) out1 c1 srv1 = Returns (r, c', srv')"
        using less.prems(1) True unfolding processBuffer_command [OF 3] d by simp
      moreover have "I (n + k) out1 c1 srv1" using assms(3) [OF less.prems(2) 3, of "vs 0"] d True a by simp
      moreover have "length src - (n + k) < length src - n" using Parse_next [OF 3(2)] 3(1) by auto
      ultimately show ?thesis using less.hyps by blast
    next
      case False
      with less.prems(1) d 3 have "buf_final P src n out c srv r c' srv'" unfolding processBuffer_command [OF 3]
        by (auto simp: goes_on_def split: prod.splits if_splits intro: stopped upgrade)
      with less.prems show ?thesis by blast
    qed
  qed
qed

lemma processBuffer_quiet:
  assumes "processBuffer P vs src n out c srv = Returns (r, c', srv')"
  shows "resp_quiet c srv c' srv'"
proof -
  have start: "resp_quiet c srv c srv" by (rule resp_quiet_same) simp_all
  have go: "resp_quiet c srv c1 srv1" if "resp_quiet c srv c0 srv0" "dispatch P v as out0 c0 srv0 = Returns (x, c1, srv1)" for v as out0 c0 srv0 x c1 srv1
    using resp_quiet_trans [OF that(1) dispatch_quiet [OF that(2)]] .
  obtain n0 out0 c0 srv0 where q: "resp_quiet c srv c0 srv0" "buf_final P src n0 out0 c0 srv0 r c' srv'"
    using processBuffer_rule [where I = "\<lambda>n out c1 srv1. resp_quiet c srv c1 srv1", OF assms start] go by blast
  from q(2) show ?thesis
  proof (cases rule: buf_final.cases)
    case ended
    with q(1) show ?thesis by simp
  next
    case malformed
    have "resp_quiet c0 srv0 c' srv'" unfolding malformed by (rule resp_quiet_same) simp_all
    with q(1) show ?thesis by (rule resp_quiet_trans)
  next
    case stopped
    with go q(1) show ?thesis by blast
  next
    case (upgrade as k v out1 c1 srv1 act)
    from go [OF q(1) upgrade(4)] upgradeToTLS_quiet [OF upgrade(6)] show ?thesis by (rule resp_quiet_trans)
  qed
qed

lemma resp_quiet_conn [simp]: "resp_quiet c srv (c'\<lparr>rc_inbuf := b\<rparr>) srv' = resp_quiet c srv c' srv'"
  "resp_quiet c srv (c'\<lparr>rc_readBuf := b\<rparr>) srv' = resp_quiet c srv c' srv'" "resp_quiet (c\<lparr>rc_inbuf := b\<rparr>) srv c' srv' = resp_quiet c srv c' srv'"
  "resp_quiet (c\<lparr>rc_readBuf := b\<rparr>) srv c' srv' = resp_quiet c srv c' srv'" "resp_quiet (c\<lparr>rc_cap := m\<rparr>) srv c' srv' = resp_quiet c srv c' srv'"
  by (simp_all add: resp_quiet_def)

lemma resp_quiet_count [simp]: "resp_quiet c srv c' (count_read n c1 srv') = resp_quiet c srv c' srv'"
proof -
  have "same_server srv' (count_read n c1 srv')" by simp
  then show ?thesis by (simp add: resp_quiet_def same_server_def)
qed

lemma resp_onTrafficPlaintext_quiet:
  assumes "resp_onTrafficPlaintext P vs c srv = Returns (act, c', srv')"
  shows "resp_quiet c srv c' srv'"
proof (cases "rc_authPending c \<or> \<not> peek_ok (re_env (vs 0)) \<or> sv_startTLS srv \<and> hasPipelinedSTARTTLS (rc_inbuf c) 0")
  case True
  with assms show ?thesis by (intro resp_quiet_same) (auto simp: resp_onTrafficPlaintext_def Let_def split: if_splits)
next
  case False
  then obtain r c1 srv1 where r: "processBuffer P vs (rc_inbuf c) 0 [] c srv = Returns (r, c1, srv1)"
    using assms by (auto simp: resp_onTrafficPlaintext_def Let_def)
  note q = processBuffer_quiet [OF r]
  show ?thesis
  proof (cases "flush_replies (re_env (vs 0)) (be_out r) c1 srv1")
    case None
    with assms False r q show ?thesis by (auto simp: resp_onTrafficPlaintext_def Let_def split: if_splits)
  next
    case (Some p)
    obtain c2 srv2 where p: "p = (c2, srv2)" by fastforce
    have "resp_quiet c srv c2 srv2" using q flush_replies_quiet [OF Some [unfolded p]] by (rule resp_quiet_trans)
    with assms False r q Some p show ?thesis by (auto simp: resp_onTrafficPlaintext_def Let_def split: if_splits)
  qed
qed

lemma handleDecryptedResp_quiet:
  assumes "handleDecryptedResp P vs c srv = Returns (act, c', srv')"
  shows "resp_quiet c srv c' srv'"
proof (cases "rc_authPending c")
  case True
  with assms show ?thesis by (intro resp_quiet_same) (auto simp: handleDecryptedResp_def)
next
  case False
  then obtain r c1 srv1 where r: "processBuffer P vs (rc_readBuf c) 0 [] c srv = Returns (r, c1, srv1)"
    using assms by (auto simp: handleDecryptedResp_def)
  note q = processBuffer_quiet [OF r]
  show ?thesis
  proof (cases "flush_replies (re_env (vs 0)) (be_out r) c1 srv1")
    case None
    with assms False r q show ?thesis by (auto simp: handleDecryptedResp_def split: if_splits)
  next
    case (Some p)
    obtain c2 srv2 where p: "p = (c2, srv2)" by fastforce
    have "resp_quiet c srv c2 srv2" using q flush_replies_quiet [OF Some [unfolded p]] by (rule resp_quiet_trans)
    with assms False r q Some p show ?thesis by (auto simp: handleDecryptedResp_def split: if_splits)
  qed
qed

lemma resp_onTrafficTLS_quiet: "resp_onTrafficTLS fuel P ts vs c srv = Some (Returns (act, c', srv')) \<Longrightarrow> resp_quiet c srv c' srv'"
proof (induction fuel arbitrary: ts vs c srv)
  case (Suc fuel)
  have refl: "resp_quiet c srv c srv" by (rule resp_quiet_same) simp_all
  show ?case
  proof (cases "grow c")
    case None
    with Suc.prems refl show ?thesis by simp
  next
    case (Some c0)
    then have c0: "resp_quiet c0 srv = resp_quiet c srv" by (auto simp: grow_def fun_eq_iff split: if_splits)
    obtain n err where r: "tls_Read (ts 0) (rc_cap c0 - length (rc_readBuf c0)) (rc_inbuf c0) = (n, err)" by fastforce
    let ?m = "if n > 0 then handleDecryptedResp P (vs 0) (c0\<lparr>rc_readBuf := rc_readBuf c0 @ take n (rc_inbuf c0), rc_inbuf := drop n (rc_inbuf c0)\<rparr>) srv
              else Returns (ActNone, c0, srv)"
    obtain a1 c1 srv1 where m: "?m = Returns (a1, c1, srv1)" using Suc.prems Some r by (cases ?m) auto
    have "resp_quiet c0 srv c0 srv" by (rule resp_quiet_same) simp_all
    with m have q: "resp_quiet c srv c1 srv1" unfolding c0 [symmetric] using handleDecryptedResp_quiet by (fastforce split: if_splits)
    show ?thesis
    proof (cases "a1 = ActNone \<and> err = None")
      case True
      then have "resp_onTrafficTLS fuel P (\<lambda>i. ts (Suc i)) (\<lambda>i. vs (Suc i)) c1 srv1 = Some (Returns (act, c', srv'))"
        using Suc.prems Some r m by simp
      with Suc.IH q show ?thesis using resp_quiet_trans by blast
    next
      case False
      then show ?thesis using Suc.prems Some r m q by (auto split: option.splits tls_error.splits if_splits)
    qed
  qed
qed simp

lemma resp_OnTraffic_quiet:
  assumes "resp_OnTraffic fuel P ts vs c srv = Some (Returns (act, c', srv'))"
  shows "resp_quiet c srv c' srv'"
proof -
  have "resp_quiet c srv c srv" by (rule resp_quiet_same) simp_all
  with assms show ?thesis using resp_onTrafficTLS_quiet resp_onTrafficPlaintext_quiet
    by (auto simp: resp_OnTraffic_def split: if_splits option.splits)
qed

end
