(* ===== verification/Resp_Safety.thy ===== *)
theory Resp_Safety
  imports Resp_Server
begin

text \<open>
  What the Redis front end guarantees over all interleavings of connections, arriving bytes,
  password workers and handshake ticks: no data without credentials, no plain bytes behind STARTTLS,
  replies a client can read, a read path that returns, and what SET and GET answer.
\<close>

section \<open>No data without credentials\<close>

definition presented :: "front_env \<Rightarrow> auth_job \<Rightarrow> bool" where
  "presented v job =
     (if job_oauth job then verify_token v (job_password job) \<noteq> None else check_pass v (job_passHash job) (job_password job))"

definition resp_inv :: "bytes \<times> bool \<Rightarrow> resp_world \<Rightarrow> bool" where
  "resp_inv fx w \<longleftrightarrow> resp_fixed (rw_server w) = fx \<and>
     (\<forall>job. job \<in> set (sv_authJobs (rw_server w)) \<longrightarrow> resp_own (job_conn job) (rw_server w) job) \<and>
     (\<forall>i c. rw_conns w i = Some c \<longrightarrow> rc_id c = i)"

definition resp_logged_in :: "resp_world \<Rightarrow> nat \<Rightarrow> bool" where
  "resp_logged_in w i = (case rw_conns w i of None \<Rightarrow> False | Some c \<Rightarrow> rc_authenticated c)"

definition resp_grants :: "bytes \<times> bool \<Rightarrow> resp_world \<Rightarrow> resp_event \<Rightarrow> nat \<Rightarrow> bool" where
  "resp_grants fx w e i \<longleftrightarrow> no_password (rw_server w) \<or>
     (\<exists>job v. e = RAuth job v \<and> job_conn job = i \<and> presented v job \<and> (snd fx \<longrightarrow> check_pass v (fst fx) (job_password job)))"

lemma OnClose_same: "same_server srv (resp_OnClose c srv)"
  by (simp add: resp_OnClose_def Let_def)

lemma close_conn_same: "same_server (rw_server w) (rw_server (close_conn i w))"
  "rw_conns (close_conn i w) j = (if j = i then None else rw_conns w j)"
  by (simp_all add: close_conn_def OnClose_same split: option.split)

lemma fold_close_same: "same_server (rw_server w) (rw_server (fold close_conn is w)) \<and>
    (\<forall>j c. rw_conns (fold close_conn is w) j = Some c \<longrightarrow> rw_conns w j = Some c)"
proof (induction "is" arbitrary: w)
  case (Cons i "is")
  have "rw_conns (close_conn i w) j = Some c \<Longrightarrow> rw_conns w j = Some c" for j c by (simp add: close_conn_same split: if_splits)
  moreover have "same_server (rw_server w) (rw_server (close_conn i w))" by (rule close_conn_same)
  ultimately show ?case using Cons.IH [of "close_conn i w"] by (simp only: fold_simps) (blast intro: same_server_trans)
qed simp

lemma settle_result:
  "same_server srv (rw_server (settle i (act, c, srv) w))"
  "rw_conns (settle i (act, c, srv) w) j = (if j = i then if act = ActClose then None else Some c else rw_conns w j)"
  by (simp_all add: settle_def Let_def close_conn_same close_conn_same(1) [of "w\<lparr>rw_server := srv, rw_conns := (rw_conns w)(i := Some c)\<rparr>" i, simplified])

lemma OnOpen_result:
  assumes "resp_OnOpen now i addr srv = (c, srv')"
  shows "same_server srv srv' \<and> rc_id c = i \<and> rc_authenticated c = fst (connectionAuth srv)"
  using assms by (auto simp: resp_OnOpen_def Let_def install_tls_def new_conn_def split: if_splits)

lemma connectionAuth_no_password: "fst (connectionAuth srv) \<Longrightarrow> no_password srv"
  by (auto simp: connectionAuth_def NoPassDefault_def no_password_def list_ex_iff split: option.splits if_splits dest!: map_of_SomeD intro!: bexI)

lemma resp_authWorker_result:
  assumes "resp_authWorker v job c srv = (act, c', srv')" "resp_own (job_conn job) srv job"
  shows "same_server srv srv' \<and> rc_id c' = rc_id c \<and>
    (rc_authenticated c' \<longrightarrow> rc_authenticated c \<or> presented v job \<and> (sv_policy srv = None \<longrightarrow> check_pass v (sv_requirePassHash srv) (job_password job)))"
proof (cases "job_accepted v job (sv_policy srv)")
  case None
  let ?c = "c\<lparr>rc_authPending := False\<rparr>"
  obtain x c2 srv2 where f: "resp_authFailed (wall_clock v) (if job_oauth job then [] else job_username job) (job_reason job) [] ?c srv = (x, c2, srv2)"
    by (metis prod_cases3)
  with None assms(1) have "rc_id c' = rc_id c2 \<and> rc_authenticated c' = rc_authenticated c2 \<and> same_server srv2 srv'"
    by (auto simp: resp_authWorker_def Let_def split: if_splits prod.splits)
  with resp_authFailed_quiet [OF f] show ?thesis by (auto intro: same_server_trans)
next
  case (Some r)
  have "presented v job \<and> (sv_policy srv = None \<longrightarrow> check_pass v (sv_requirePassHash srv) (job_password job))"
    using Some assms(2) by (auto simp: job_accepted_def presented_def resp_own_def ResolveOAuthToken_def split: if_splits option.splits)
  moreover have "same_server srv srv' \<and> rc_id c' = rc_id c"
    using Some assms(1) by (auto simp: resp_authWorker_def Let_def split: if_splits prod.splits)
  ultimately show ?thesis by simp
qed

lemma resp_step_inv:
  assumes "resp_inv fx w" "resp_step P w e w'"
  shows "resp_inv fx w' \<and> (\<forall>i. resp_logged_in w' i \<longrightarrow> resp_logged_in w i \<or> resp_grants fx w e i)"
  using assms(2)
proof (cases rule: resp_step.cases)
  case (opened now addr c srv)
  note o = OnOpen_result [OF opened(3)]
  then have "resp_inv fx w'" using assms(1) opened(2) resp_own_cong [of srv "rw_server w"] by (auto simp: resp_inv_def same_server_def)
  moreover have "resp_grants fx w e i" if "\<not> resp_logged_in w i" "resp_logged_in w' i" for i
    using that o opened(2) connectionAuth_no_password by (auto simp: resp_logged_in_def resp_grants_def split: if_splits option.splits)
  ultimately show ?thesis by blast
next
  case (hangup i c)
  note s = close_conn_same [where w = w and i = i]
  with assms(1) hangup(2) resp_own_cong [of "rw_server w'" "rw_server w"] show ?thesis
    by (auto simp: resp_inv_def same_server_def resp_logged_in_def split: if_splits)
next
  case (traffic i c fuel ts vs bs r)
  obtain act c' srv' where r: "r = (act, c', srv')" by (cases r)
  have q: "resp_quiet c (rw_server w) c' srv'" using resp_OnTraffic_quiet [OF traffic(4) [unfolded r]] by simp
  note s = settle_result [where srv = srv' and i = i and act = act and c = c' and w = w]
  have fx: "resp_fixed (rw_server w') = fx" "resp_fixed (rw_server w) = fx" "rc_id c = i"
    using s(1) q assms(1) traffic(2,3) r by (auto simp: same_server_def resp_quiet_def resp_inv_def)
  have "resp_own (job_conn job) (rw_server w') job" if "job \<in> set (sv_authJobs (rw_server w'))" for job
  proof -
    have "job \<in> set (sv_authJobs (rw_server w)) \<or> resp_own i (rw_server w) job"
      using that s(1) q traffic(2) r fx(3) by (auto simp: same_server_def resp_quiet_def)
    then have "resp_own (job_conn job) (rw_server w) job" using assms(1) by (auto simp: resp_inv_def resp_own_def)
    with resp_own_cong [of "rw_server w'" "rw_server w"] fx show ?thesis by simp
  qed
  moreover have "rc_id c1 = j" if "rw_conns w' j = Some c1" for j c1
    using that s(2) q assms(1) traffic(2,3) r by (auto simp: resp_quiet_def resp_inv_def split: if_splits)
  ultimately have "resp_inv fx w'" using fx(1) by (simp add: resp_inv_def)
  moreover have "resp_logged_in w j \<or> resp_grants fx w e j" if "resp_logged_in w' j" for j
    using that s(2) q traffic(2,3) r by (auto simp: resp_logged_in_def resp_grants_def resp_quiet_def split: option.splits if_splits)
  ultimately show ?thesis by blast
next
  case (worker k job srv v)
  have fx: "resp_fixed srv = fx" and own: "resp_own (job_conn job) srv job"
    using assms(1) worker(2-4) resp_own_cong [of srv "rw_server w"] nth_mem [OF worker(2)] by (auto simp: resp_inv_def resp_fixed_def)
  have jobs: "resp_own (job_conn j) srv j" if "j \<in> set (sv_authJobs srv)" for j
    using that assms(1) worker(4) resp_own_cong [of srv "rw_server w"] by (auto simp: resp_inv_def resp_fixed_def dest: in_set_takeD in_set_dropD)
  show ?thesis
  proof (cases "rw_conns w (job_conn job)")
    case None
    with worker(5) assms(1) fx jobs show ?thesis by (simp add: resp_inv_def resp_logged_in_def)
  next
    case (Some c)
    obtain act c' srv' where a: "resp_authWorker v job c srv = (act, c', srv')" by (metis prod_cases3)
    note res = resp_authWorker_result [OF a own]
    note s = settle_result [where srv = srv' and i = "job_conn job" and act = act and c = c' and w = w]
    have w': "w' = settle (job_conn job) (act, c', srv') w" using worker(5) Some a by simp
    have same: "same_server srv (rw_server w')" unfolding w' using res s(1) by (blast intro: same_server_trans)
    have "resp_inv fx w'" using same fx jobs assms(1) s(2) res Some resp_own_cong [of "rw_server w'" srv]
      by (auto simp: resp_inv_def same_server_def w' split: if_splits)
    moreover have "resp_logged_in w j \<or> resp_grants fx w e j" if l: "resp_logged_in w' j" for j
    proof (cases "resp_logged_in w j")
      case False
      then have "j = job_conn job" "rc_authenticated c'" "\<not> rc_authenticated c"
        using l s(2) Some by (auto simp: resp_logged_in_def w' split: if_splits option.splits)
      then show ?thesis using res fx worker(1) by (auto simp: resp_grants_def resp_fixed_def)
    qed simp
    ultimately show ?thesis by blast
  qed
next
  case (tick now completed d closed ps)
  let ?w = "w\<lparr>rw_server := (rw_server w)\<lparr>sv_handshakes := ps\<rparr>\<rparr>"
  note f = fold_close_same [of ?w closed]
  have same: "same_server (rw_server w) (rw_server w')" unfolding tick(2) by (rule same_server_trans [OF _ conjunct1 [OF f]]) simp
  with assms(1) f tick(2) resp_own_cong [of "rw_server w'" "rw_server w"] show ?thesis
    by (auto simp: resp_inv_def same_server_def resp_logged_in_def split: option.splits)
qed

interpretation rlogin: login_system "resp_step P" "resp_inv fx" resp_logged_in "resp_grants fx" for P fx
  using resp_step_inv by unfold_locales blast+

text \<open>
  C5. Over the Redis protocol nothing is reached without credentials: in every interleaving of
  connections, arriving bytes, password workers and handshake ticks, a connection whose bytes change
  the stored data, the files or the policy was let in before. Either a job of its own was checked and
  held, against the password of the server when there is no policy, or at that time an account
  without a password existed.
\<close>

theorem resp_auth_required:
  assumes "trace (resp_step P) w0 es w" "rw_conns w0 = (\<lambda>i. None)" "sv_authJobs (rw_server w0) = []"
    and "resp_step P w (RTraffic i bs) w'" "resp_stored (rw_server w') \<noteq> resp_stored (rw_server w)"
  shows "\<exists>es1 w1. prefix es1 es \<and> trace (resp_step P) w0 es1 w1 \<and> (no_password (rw_server w1) \<or>
      (\<exists>job v. prefix (es1 @ [RAuth job v]) es \<and> job_conn job = i \<and> presented v job \<and>
         (sv_policy (rw_server w0) = None \<longrightarrow> check_pass v (sv_requirePassHash (rw_server w0)) (job_password job))))"
proof -
  let ?fx = "resp_fixed (rw_server w0)"
  have inv0: "resp_inv ?fx w0" using assms(2,3) by (simp add: resp_inv_def)
  have out0: "\<not> resp_logged_in w0 i" using assms(2) by (simp add: resp_logged_in_def)
  from assms(4) obtain c act c' srv' where c: "rw_conns w i = Some c" "resp_quiet c (rw_server w) c' srv'" "w' = settle i (act, c', srv') w"
  proof (cases rule: resp_step.cases)
    case (traffic c fuel ts vs r)
    obtain act c' srv' where r: "r = (act, c', srv')" by (cases r)
    from resp_OnTraffic_quiet [OF traffic(3) [unfolded r]] traffic r that show ?thesis by simp
  qed
  have "resp_stored (rw_server w') = resp_stored srv'"
    unfolding c(3) using settle_result(1) [of srv' i act c' w] by (simp add: same_server_def)
  then have "rc_authenticated c \<or> no_password (rw_server w)" using c(2) assms(5) by (auto simp: resp_quiet_def)
  then show ?thesis
  proof
    assume "rc_authenticated c"
    then have "resp_logged_in w i" using c(1) by (simp add: resp_logged_in_def)
    from rlogin.logged_in_granted [OF assms(1) inv0 out0 this] obtain es1 e w1
      where g: "prefix (es1 @ [e]) es" "trace (resp_step P) w0 es1 w1" "resp_grants ?fx w1 e i" by blast
    have p: "prefix es1 es" using g(1) append_prefixD by blast
    from g(3) consider "no_password (rw_server w1)" | job v where "e = RAuth job v" "job_conn job = i" "presented v job"
        "sv_policy (rw_server w0) = None \<longrightarrow> check_pass v (sv_requirePassHash (rw_server w0)) (job_password job)"
      by (auto simp: resp_grants_def resp_fixed_def)
    then show ?thesis
    proof cases
      case 1
      with g(2) p show ?thesis by blast
    next
      case 2
      with g(1) have "prefix (es1 @ [RAuth job v]) es" by simp
      with 2 g(2) p show ?thesis
        by (intro exI [of _ es1] exI [of _ w1] conjI disjI2 exI [of _ job] exI [of _ v]) simp_all
    qed
  next
    assume "no_password (rw_server w)"
    with assms(1) show ?thesis by (intro exI [of _ es] exI [of _ w]) simp
  qed
qed

section \<open>Concrete runs\<close>

definition resp_sample_env :: resp_env where
  "resp_sample_env = \<lparr>re_env = sample_env, flush_ok = True, discard_ok = True, hs_completed = True\<rparr>"

definition resp_sample :: "bool \<Rightarrow> bytes \<Rightarrow> resp_world" where
  "resp_sample tls pass =
     \<lparr>rw_server = (case resp_NewServer Some one_shard tls pass tls None False quiet_log of Returns s \<Rightarrow> s), rw_conns = \<lambda>i. None, rw_next = 0\<rparr>"

definition do_open :: "string \<Rightarrow> resp_world \<Rightarrow> resp_world" where
  "do_open addr w = (case resp_OnOpen 0 (rw_next w) addr (rw_server w) of (c, srv) \<Rightarrow>
     w\<lparr>rw_server := srv, rw_conns := (rw_conns w)(rw_next w := Some c), rw_next := Suc (rw_next w)\<rparr>)"

definition do_traffic :: "nat \<Rightarrow> bytes \<Rightarrow> resp_world \<Rightarrow> resp_world option" where
  "do_traffic i bs w = (case rw_conns w i of
     None \<Rightarrow> None
   | Some c \<Rightarrow> (case resp_OnTraffic 5 plain_prims (\<lambda>k. \<lparr>record_len = 100, tls_fails = False\<rparr>) (\<lambda>j k. resp_sample_env) (c\<lparr>rc_inbuf := rc_inbuf c @ bs\<rparr>) (rw_server w) of
       Some (Returns r) \<Rightarrow> Some (settle i r w) | _ \<Rightarrow> None))"

definition do_worker :: "resp_world \<Rightarrow> resp_world option" where
  "do_worker w = (case sv_authJobs (rw_server w) of [] \<Rightarrow> None
     | job # jobs \<Rightarrow> (let srv = (rw_server w)\<lparr>sv_authJobs := jobs\<rparr> in
        Some (case rw_conns w (job_conn job) of None \<Rightarrow> w\<lparr>rw_server := srv\<rparr> | Some c \<Rightarrow> settle (job_conn job) (resp_authWorker sample_env job c srv) w)))"

lemma do_open_step: "resp_step P w (ROpen addr 0) (do_open addr w)"
  by (cases "resp_OnOpen 0 (rw_next w) addr (rw_server w)") (simp add: do_open_def opened)

lemma do_traffic_step: "do_traffic i bs w = Some w' \<Longrightarrow> resp_step plain_prims w (RTraffic i bs) w'"
  by (auto simp: do_traffic_def intro: traffic split: option.splits go.splits)

lemma do_worker_step:
  assumes "do_worker w = Some w'"
  obtains job where "resp_step P w (RAuth job sample_env) w'"
proof -
  from assms obtain job jobs where j: "sv_authJobs (rw_server w) = job # jobs" by (auto simp: do_worker_def split: list.splits)
  have "resp_step P w (RAuth job sample_env) w'"
    by (rule worker [where k = 0]) (use assms j in \<open>auto simp: do_worker_def Let_def split: option.splits\<close>)
  then show thesis by (rule that)
qed

definition resp_login :: "resp_world option" where
  "resp_login = Option.bind (do_traffic 0 (enc_command [''auth'', ''pw'']) (do_open ''10.0.0.1'' (resp_sample False ''pw''))) do_worker"

lemma resp_login_runs: "case resp_login of None \<Rightarrow> False | Some w \<Rightarrow> totalCommands (Engine (shards (sv_router (rw_server w)) ! 0)) = 0 \<and>
   length (shards (sv_router (rw_server w))) = 1 \<and>
   (case do_traffic 0 (enc_command [''get'', ''k'']) w of None \<Rightarrow> False
    | Some w' \<Rightarrow> totalCommands (Engine (shards (sv_router (rw_server w')) ! 0)) = 1 \<and> length (shards (sv_router (rw_server w'))) = 1)"
  by code_simp

theorem resp_auth_required_witness:
  "\<exists>es w w'. trace (resp_step plain_prims) (resp_sample False ''pw'') es w \<and> resp_step plain_prims w (RTraffic 0 (enc_command [''get'', ''k''])) w' \<and>
     resp_stored (rw_server w') \<noteq> resp_stored (rw_server w) \<and>
     (\<exists>es1 w1. prefix es1 es \<and> trace (resp_step plain_prims) (resp_sample False ''pw'') es1 w1 \<and> (no_password (rw_server w1) \<or>
        (\<exists>job v. prefix (es1 @ [RAuth job v]) es \<and> job_conn job = 0 \<and> presented v job)))"
proof -
  from resp_login_runs obtain w w' where w: "resp_login = Some w" "do_traffic 0 (enc_command [''get'', ''k'']) w = Some w'"
    and diff: "totalCommands (Engine (shards (sv_router (rw_server w')) ! 0)) \<noteq> totalCommands (Engine (shards (sv_router (rw_server w)) ! 0))"
      "length (shards (sv_router (rw_server w))) = 1" "length (shards (sv_router (rw_server w'))) = 1"
    by (fastforce split: option.splits)
  from w(1) obtain w1 where w1: "do_traffic 0 (enc_command [''auth'', ''pw'']) (do_open ''10.0.0.1'' (resp_sample False ''pw'')) = Some w1"
    "do_worker w1 = Some w" by (auto simp: resp_login_def bind_eq_Some_conv)
  obtain job where login: "resp_step plain_prims w1 (RAuth job sample_env) w" by (rule do_worker_step [OF w1(2)])
  have run: "trace (resp_step plain_prims) (resp_sample False ''pw'')
      ((([] @ [ROpen ''10.0.0.1'' 0]) @ [RTraffic 0 (enc_command [''auth'', ''pw''])]) @ [RAuth job sample_env]) w"
    using login do_traffic_step [OF w1(1)] do_open_step by (blast intro: trace.intros)
  have changed: "resp_stored (rw_server w') \<noteq> resp_stored (rw_server w)"
  proof
    assume "resp_stored (rw_server w') = resp_stored (rw_server w)"
    then have "map Engine (shards (sv_router (rw_server w'))) ! 0 = map Engine (shards (sv_router (rw_server w))) ! 0" by (simp add: resp_stored_def)
    with diff show False by simp
  qed
  have start: "rw_conns (resp_sample False ''pw'') = (\<lambda>i. None)" "sv_authJobs (rw_server (resp_sample False ''pw'')) = []"
    by (simp_all add: resp_sample_def resp_NewServer_def Let_def)
  note step = do_traffic_step [OF w(2)]
  from resp_auth_required [OF run start step changed] run step changed show ?thesis by blast
qed

section \<open>The state of a connection\<close>

text \<open>A command changes who a connection is and what happens to it next, never its buffers or its TLS state.\<close>

definition same_wire :: "resp_conn \<Rightarrow> resp_conn \<Rightarrow> bool" where
  "same_wire c c' \<longleftrightarrow> rc_id c' = rc_id c \<and> rc_shardID c' = rc_shardID c \<and> rc_tls c' = rc_tls c \<and> rc_readBuf c' = rc_readBuf c \<and> rc_cap c' = rc_cap c \<and>
     rc_pending c' = rc_pending c \<and> rc_remoteAddr c' = rc_remoteAddr c \<and> rc_inbuf c' = rc_inbuf c \<and> rc_outbuf c' = rc_outbuf c"

definition same_config :: "resp_server \<Rightarrow> resp_server \<Rightarrow> bool" where
  "same_config srv srv' \<longleftrightarrow> sv_startTLS srv' = sv_startTLS srv \<and> sv_tls srv' = sv_tls srv"

lemma same_config_frame [simp]: "same_config srv (resp_record ev msg fs srv') = same_config srv srv'" "same_config srv (countCommand c srv') = same_config srv srv'"
  "same_config srv (resp_on_shard sid f srv') = same_config srv srv'" "same_config srv (audit_dispatch as c srv') = same_config srv srv'"
  by (simp_all add: same_config_def countCommand_def audit_dispatch_def)

definition accepted :: "bytes list \<Rightarrow> bytes \<Rightarrow> resp_conn \<Rightarrow> resp_server \<Rightarrow> resp_result \<Rightarrow> bool" where
  "accepted as out c srv r \<longleftrightarrow> length as = 1 \<and> EqualFold (as ! 0) ''STARTTLS'' \<and> sv_startTLS srv \<and> \<not> rc_tls c \<and>
     fst r = (out @ respOK, False) \<and> fst (snd r) = c\<lparr>rc_upgradeTLS := True\<rparr> \<and> same_server srv (snd (snd r))"

definition wire_result :: "bytes list \<Rightarrow> bytes \<Rightarrow> resp_conn \<Rightarrow> resp_server \<Rightarrow> resp_result \<Rightarrow> bool" where
  "wire_result as out c srv r \<longleftrightarrow> same_wire c (fst (snd r)) \<and> same_config srv (snd (snd r)) \<and>
     (rc_upgradeTLS (fst (snd r)) \<longrightarrow> rc_upgradeTLS c \<or> accepted as out c srv r)"

lemma wire_result_same: "same_wire c c' \<Longrightarrow> rc_upgradeTLS c' = rc_upgradeTLS c \<Longrightarrow> same_config srv srv' \<Longrightarrow> wire_result as out c srv (x, c', srv')"
  by (simp add: wire_result_def)

lemma resp_authFailed_wire: "wire_result as out c srv (resp_authFailed now u r out c srv)"
  unfolding resp_authFailed_def Let_def by (rule wire_result_same) (simp_all add: same_wire_def same_config_def)

lemma enqueue_wire: "wire_result as out c srv (enqueue job out c srv)"
  unfolding enqueue_def by (simp add: wire_result_def same_wire_def same_config_def)

lemma auth_wire: "wire_result as out c srv (auth v as out c srv)"
proof -
  have same: "wire_result as out c srv (x, c, srv)" for x by (rule wire_result_same) (simp_all add: same_wire_def same_config_def)
  have "wire_result as out c srv (x, c\<lparr>rc_authenticated := True, rc_session := sc\<rparr>, resp_record ev msg fs srv)" for x sc ev msg fs
    by (rule wire_result_same) (simp_all add: same_wire_def same_config_def)
  then have "wire_result as out c srv (authRBAC v ps as out c srv)" for ps
    unfolding authRBAC_def Let_def dispatchAuth_def by (simp only: resp_authFailed_wire enqueue_wire if_split option.split simp_thms)
  with same show ?thesis unfolding auth_def Let_def dispatchAuth_def dispatchOAuth_def
    by (simp only: resp_authFailed_wire enqueue_wire if_split option.split simp_thms)
qed

lemma dispatchSTARTTLS_wire: "EqualFold (as ! 0) ''STARTTLS'' \<Longrightarrow> sv_startTLS srv \<Longrightarrow> wire_result as out c srv (dispatchSTARTTLS as out c srv)"
  by (auto simp: dispatchSTARTTLS_def wire_result_def accepted_def same_wire_def same_config_def)

lemma deniedReply_wire: "wire_result as out c srv (deniedReply now cmd key keyless out c srv)"
  unfolding deniedReply_def Let_def countDenied_def by (rule wire_result_same) (simp_all add: same_wire_def same_config_def)

lemma local_command_wire: "wire_result as out c srv (local_command v as out c srv)"
proof -
  have same: "wire_result as out c srv (x, c, srv')" if "same_config srv srv'" for x srv'
    using that by (intro wire_result_same) (simp_all add: same_wire_def)
  have pol: "same_config srv ((countCommand c srv)\<lparr>sv_policy := po\<rparr>)" for po by (simp add: same_config_def countCommand_def)
  have quit: "wire_result as out c srv (x, c\<lparr>rc_closeAfterReply := True\<rparr>, srv)" for x
    by (rule wire_result_same) (simp_all add: same_wire_def same_config_def)
  have refl: "same_config srv srv" by (simp add: same_config_def)
  show ?thesis unfolding local_command_def Let_def
    by (simp add: same pol quit refl deniedReply_wire dispatchSTARTTLS_wire split: prod.split)
qed

lemma dispatch_wire:
  assumes "dispatch P v as out c srv = Returns r"
  shows "wire_result as out c srv r"
proof (cases "refused as c srv")
  case True
  have "wire_result as out c srv (x, c, srv)" for x by (rule wire_result_same) (simp_all add: same_wire_def same_config_def)
  with True assms show ?thesis
    by (auto simp: refused_def dispatch_def Let_def auth_wire dispatchSTARTTLS_wire split: if_splits)
next
  case False
  obtain rep st where e: "server_exec P (exec_envs v) (wall_clock v) (resp_ctx as c) (exec_state srv) = Returns (rep, st)"
    using assms unfolding dispatch_exec [OF False] by auto
  show ?thesis
  proof (cases rep)
    case None
    let ?a = "audit_dispatch as c (after_exec srv st)"
    from None assms e have r: "r = local_command v as out c ?a" unfolding dispatch_exec [OF False] by simp
    have "same_config srv ?a" by (simp add: same_config_def audit_dispatch_def)
    moreover have "same_server srv ?a" if "EqualFold (as ! 0) ''STARTTLS''"
    proof -
      have "cmd_Lookup (as ! 0) = None" "as \<noteq> []" using that False by (auto simp: refused_def EqualFold_def cmd_Lookup_def commands_def equalFoldASCII_def)
      from cmd_Execute_unknown [OF this, of P "exec_envs v" "wall_clock v" c "exec_state srv"] e show ?thesis
        by (simp add: same_server_def audit_dispatch_def resp_fixed_def resp_stored_def)
    qed
    ultimately show ?thesis using local_command_wire [of as out c ?a v] unfolding r wire_result_def accepted_def
      by (auto simp: same_config_def intro: same_server_trans)
  next
    case (Some x)
    with assms e have "r = ((respReply v out x, False), c, after_exec srv st)" unfolding dispatch_exec [OF False] by simp
    then show ?thesis by (simp add: wire_result_def same_wire_def same_config_def)
  qed
qed

lemma same_wire_trans: "same_wire a b \<Longrightarrow> same_wire b c \<Longrightarrow> same_wire a c"
  by (simp add: same_wire_def)

text \<open>What the loop knows while it goes on, on a buffer that passed the check for pipelined upgrades.\<close>

definition loop_inv :: "bytes \<Rightarrow> resp_conn \<Rightarrow> resp_server \<Rightarrow> nat \<Rightarrow> bytes \<Rightarrow> resp_conn \<Rightarrow> resp_server \<Rightarrow> bool" where
  "loop_inv src c srv n out c1 srv1 \<longleftrightarrow> same_wire c c1 \<and> same_config srv srv1 \<and> \<not> rc_upgradeTLS c1 \<and> n \<le> length src \<and>
     (n = 0 \<longrightarrow> out = [] \<and> c1 = c \<and> srv1 = srv) \<and>
     (sv_startTLS srv \<and> \<not> rc_tls c \<longrightarrow> n < length src \<longrightarrow> \<not> hasPipelinedSTARTTLS src n)"

lemma hasPipelined_command:
  assumes "n < length src" "Parse (drop n src) = Inr (as, k)"
  shows "hasPipelinedSTARTTLS src n = (if length as = 1 \<and> EqualFold (as ! 0) ''STARTTLS'' then n \<noteq> 0 \<or> n + k \<noteq> length src
      else hasPipelinedSTARTTLS src (n + k))"
  using assms by (subst hasPipelinedSTARTTLS.simps) simp

lemma loop_inv_step:
  assumes "loop_inv src c srv n out c0 srv0" "n < length src" "Parse (drop n src) = Inr (as, k)"
    and "dispatch P v as out c0 srv0 = Returns ((out1, async), c1, srv1)" "\<not> rc_upgradeTLS c1"
  shows "loop_inv src c srv (n + k) out1 c1 srv1"
proof -
  have k: "0 < k" "n + k \<le> length src" using Parse_next [OF assms(3)] assms(2) by auto
  have "\<not> hasPipelinedSTARTTLS src (n + k)" if "sv_startTLS srv" "\<not> rc_tls c" "n + k < length src"
    using assms(1) that hasPipelined_command [OF assms(2,3)] assms(2) by (auto simp: loop_inv_def split: if_splits)
  with assms(1,5) dispatch_wire [OF assms(4)] k show ?thesis
    by (auto simp: loop_inv_def wire_result_def same_config_def intro: same_wire_trans)
qed

lemma buffer_end:
  assumes "processBuffer P vs src 0 [] c srv = Returns (r, c', srv')" "\<not> rc_upgradeTLS c"
    and "sv_startTLS srv \<and> \<not> rc_tls c \<longrightarrow> \<not> hasPipelinedSTARTTLS src 0"
  shows "be_consumed r \<le> length src \<and> (be_consumed r = 0 \<longrightarrow> c' = c) \<and>
    (\<not> be_upgraded r \<and> same_wire c c' \<and> \<not> rc_upgradeTLS c' \<or> be_bad r \<or>
     be_upgraded r \<and> (\<exists>cmd v srv1 act. Parse src = Inr ([cmd], length src) \<and> EqualFold cmd ''STARTTLS'' \<and> \<not> rc_tls c \<and> same_server srv srv1 \<and>
       act \<noteq> ActClose \<and> upgradeToTLS v (length src) respOK (c\<lparr>rc_upgradeTLS := True\<rparr>) srv1 = (act, c', srv')))"
proof -
  have start: "loop_inv src c srv 0 [] c srv" using assms(2,3) by (simp add: loop_inv_def same_wire_def same_config_def)
  have go: "loop_inv src c srv (n + k) out1 c1 srv1" if "loop_inv src c srv n out0 c0 srv0" "n < length src" "Parse (drop n src) = Inr (as, k)"
      "dispatch P (re_env v) as out0 c0 srv0 = Returns ((out1, False), c1, srv1)" "goes_on False c1"
    for n and v :: resp_env and as k out0 c0 srv0 out1 c1 srv1
    using loop_inv_step [OF that(1-4)] that(5) by (simp add: goes_on_def)
  have "\<exists>n0 out0 c0 srv0. loop_inv src c srv n0 out0 c0 srv0 \<and> buf_final P src n0 out0 c0 srv0 r c' srv'"
    by (rule processBuffer_rule [where I = "loop_inv src c srv", OF assms(1) start]) (rule go)
  then obtain n0 out0 c0 srv0 where i: "loop_inv src c srv n0 out0 c0 srv0" and f: "buf_final P src n0 out0 c0 srv0 r c' srv'" by blast
  from f show ?thesis
  proof (cases rule: buf_final.cases)
    case ended
    with i show ?thesis by (auto simp: loop_inv_def)
  next
    case malformed
    with i show ?thesis by (auto simp: loop_inv_def)
  next
    case (stopped as k e out1 async)
    have "\<not> rc_upgradeTLS c'"
      using i dispatch_wire [OF stopped(4)] stopped(5) by (auto simp: loop_inv_def wire_result_def accepted_def)
    with loop_inv_step [OF i stopped(2,3,4)] stopped Parse_next [OF stopped(3)] show ?thesis by (auto simp: loop_inv_def)
  next
    case (upgrade as k v out1 c1 srv1 act)
    have a: "accepted as out0 c0 srv0 ((out1, False), c1, srv1)"
      using i dispatch_wire [OF upgrade(4)] upgrade(5) by (auto simp: loop_inv_def wire_result_def)
    have "\<not> hasPipelinedSTARTTLS src n0" using i a upgrade(2) by (auto simp: loop_inv_def accepted_def same_wire_def same_config_def)
    with hasPipelined_command [OF upgrade(2,3)] a have n: "n0 = 0" "k = length src" by (auto simp: accepted_def)
    with i have z: "out0 = []" "c0 = c" "srv0 = srv" by (simp_all add: loop_inv_def)
    obtain cmd where "as = [cmd]" "EqualFold cmd ''STARTTLS''" using a by (auto simp: accepted_def length_Suc_conv)
    then show ?thesis using upgrade n z a by (cases "act = ActClose") (auto simp: accepted_def)
  qed
qed

definition conn_ok :: "resp_conn \<Rightarrow> bool" where
  "conn_ok c \<longleftrightarrow> \<not> rc_upgradeTLS c \<and> \<not> rc_closeAfterReply c \<and>
     (rc_tls c \<longrightarrow> rc_pending c \<noteq> None \<and> 0 < rc_cap c \<and> length (rc_readBuf c) \<le> rc_cap c)"

definition upgraded :: "resp_conn \<Rightarrow> resp_conn \<Rightarrow> bool" where
  "upgraded c c' \<longleftrightarrow> (\<exists>cmd. Parse (rc_inbuf c) = Inr ([cmd], length (rc_inbuf c)) \<and> EqualFold cmd ''STARTTLS'') \<and> rc_inbuf c' = [] \<and> rc_readBuf c' = [] \<and>
     rc_outbuf c' = rc_outbuf c @ respOK \<and> rc_authenticated c' = rc_authenticated c \<and> rc_session c' = rc_session c"

lemma initialReadBuf_pos: "0 < initialReadBuf"
  by (simp add: initialReadBuf_def)

lemma flush_replies_result: "flush_replies v out c srv = Some (c', srv') \<Longrightarrow> c' = c\<lparr>rc_outbuf := rc_outbuf c @ out\<rparr> \<and> same_server srv srv'"
  by (auto simp: flush_replies_def split: if_splits)

lemma plain_conn_ok:
  assumes "resp_onTrafficPlaintext P vs c srv = Returns (ActNone, c', srv')" "conn_ok c" "\<not> rc_tls c"
  shows "conn_ok c' \<and> (rc_tls c' \<longrightarrow> upgraded c c' \<and> same_server srv srv')"
proof (cases "rc_authPending c")
  case True
  with assms show ?thesis by (simp add: resp_onTrafficPlaintext_def Let_def)
next
  case False
  have ok: "peek_ok (re_env (vs 0))" "\<not> (sv_startTLS srv \<and> hasPipelinedSTARTTLS (rc_inbuf c) 0)"
    using assms(1) False by (auto simp: resp_onTrafficPlaintext_def Let_def split: if_splits)
  obtain r c1 srv1 where r: "processBuffer P vs (rc_inbuf c) 0 [] c srv = Returns (r, c1, srv1)"
    using assms(1) False ok by (auto simp: resp_onTrafficPlaintext_def Let_def)
  have b: "\<not> be_bad r" using assms(1) False ok r by (auto simp: resp_onTrafficPlaintext_def Let_def)
  have "\<not> rc_upgradeTLS c" "sv_startTLS srv \<and> \<not> rc_tls c \<longrightarrow> \<not> hasPipelinedSTARTTLS (rc_inbuf c) 0"
    using assms(2) ok by (auto simp: conn_ok_def)
  note e = buffer_end [OF r this]
  show ?thesis
  proof (cases "be_upgraded r")
    case True
    with assms(1) False ok r b have "c' = c1" "srv' = srv1" by (simp_all add: resp_onTrafficPlaintext_def Let_def)
    with e True b assms(2) show ?thesis
      by (auto simp: conn_ok_def upgraded_def upgradeToTLS_def install_tls_def Let_def initialReadBuf_pos split: if_splits)
  next
    case up: False
    show ?thesis
    proof (cases "be_consumed r = 0")
      case True
      with assms e False ok r b up show ?thesis by (simp add: resp_onTrafficPlaintext_def Let_def)
    next
      case False
      with assms(1) \<open>\<not> rc_authPending c\<close> ok r b up obtain c2 srv2 where
        "flush_replies (re_env (vs 0)) (be_out r) c1 srv1 = Some (c2, srv2)" "c' = c2\<lparr>rc_inbuf := drop (be_consumed r) (rc_inbuf c2)\<rparr>" "\<not> rc_closeAfterReply c2"
        by (auto simp: resp_onTrafficPlaintext_def Let_def split: option.splits if_splits)
      with e up b assms(2,3) show ?thesis by (auto simp: conn_ok_def same_wire_def dest: flush_replies_result)
    qed
  qed
qed

lemma decrypted_conn_ok:
  assumes "handleDecryptedResp P vs c srv = Returns (ActNone, c', srv')" "conn_ok c" "rc_tls c"
  shows "conn_ok c' \<and> rc_tls c' \<and> rc_inbuf c' = rc_inbuf c"
proof (cases "rc_authPending c")
  case True
  with assms show ?thesis by (simp add: handleDecryptedResp_def)
next
  case False
  obtain r c1 srv1 where r: "processBuffer P vs (rc_readBuf c) 0 [] c srv = Returns (r, c1, srv1)"
    using assms(1) False by (auto simp: handleDecryptedResp_def)
  have b: "\<not> be_bad r" using assms(1) False r by (auto simp: handleDecryptedResp_def)
  have "\<not> rc_upgradeTLS c" "sv_startTLS srv \<and> \<not> rc_tls c \<longrightarrow> \<not> hasPipelinedSTARTTLS (rc_readBuf c) 0"
    using assms(2,3) by (auto simp: conn_ok_def)
  note e = buffer_end [OF r this]
  show ?thesis
  proof (cases "be_consumed r = 0")
    case True
    with assms e False r b show ?thesis by (simp add: handleDecryptedResp_def)
  next
    case c: False
    with assms(1) False r b obtain c2 srv2 where
      "flush_replies (re_env (vs 0)) (be_out r) c1 srv1 = Some (c2, srv2)" "c' = c2\<lparr>rc_readBuf := drop (be_consumed r) (rc_readBuf c2)\<rparr>" "\<not> rc_closeAfterReply c2"
      by (auto simp: handleDecryptedResp_def split: option.splits if_splits)
    with e b assms(2,3) show ?thesis by (auto simp: conn_ok_def same_wire_def dest!: flush_replies_result)
  qed
qed

lemma grow_ok:
  assumes "grow c = Some c0" "conn_ok c" "rc_tls c"
  shows "conn_ok c0 \<and> rc_tls c0 \<and> length (rc_readBuf c0) < rc_cap c0 \<and> rc_inbuf c0 = rc_inbuf c"
  using assms by (auto simp: grow_def conn_ok_def min_def split: if_splits)

lemma tls_Read_bounds:
  "0 < space \<Longrightarrow> tls_Read t space avail = (n, err) \<Longrightarrow> n \<le> space \<and> n \<le> length avail \<and> (n = 0 \<longrightarrow> avail = [] \<and> err \<noteq> None)"
  by (cases avail) (auto simp: tls_Read_def split: if_splits)

text \<open>One round of the TLS loop on a connection in order: the buffer has room, and what was read is at most what was there.\<close>

lemma tls_round:
  assumes "conn_ok c" "rc_tls c" "grow c = Some c0" "tls_Read t (rc_cap c0 - length (rc_readBuf c0)) (rc_inbuf c0) = (n, err)"
    and "(if n > 0 then handleDecryptedResp P vs (c0\<lparr>rc_readBuf := rc_readBuf c0 @ take n (rc_inbuf c0), rc_inbuf := drop n (rc_inbuf c0)\<rparr>) srv
          else Returns (ActNone, c0, srv)) = Returns (ActNone, c1, srv1)"
  shows "conn_ok c1 \<and> rc_tls c1 \<and> (err = None \<longrightarrow> length (rc_inbuf c1) < length (rc_inbuf c))"
proof -
  note g = grow_ok [OF assms(3,1,2)]
  have n: "n \<le> rc_cap c0 - length (rc_readBuf c0)" "n \<le> length (rc_inbuf c0)" "n = 0 \<longrightarrow> rc_inbuf c0 = [] \<and> err \<noteq> None"
    using tls_Read_bounds [OF _ assms(4)] g by auto
  show ?thesis
  proof (cases "n = 0")
    case True
    with assms(5) g n show ?thesis by simp
  next
    case False
    have "conn_ok (c0\<lparr>rc_readBuf := rc_readBuf c0 @ take n (rc_inbuf c0), rc_inbuf := drop n (rc_inbuf c0)\<rparr>)"
      using g n by (auto simp: conn_ok_def)
    with decrypted_conn_ok [of P vs _ srv c1 srv1] assms(5) False g n show ?thesis by fastforce
  qed
qed

lemma tls_conn_ok:
  "resp_onTrafficTLS fuel P ts vs c srv = Some (Returns (ActNone, c', srv')) \<Longrightarrow> conn_ok c \<Longrightarrow> rc_tls c \<Longrightarrow> conn_ok c' \<and> rc_tls c'"
proof (induction fuel arbitrary: ts vs c srv)
  case (Suc fuel)
  from Suc.prems(1) obtain c0 where g: "grow c = Some c0" by (cases "grow c") auto
  obtain n err where r: "tls_Read (ts 0) (rc_cap c0 - length (rc_readBuf c0)) (rc_inbuf c0) = (n, err)" by fastforce
  let ?m = "if n > 0 then handleDecryptedResp P (vs 0) (c0\<lparr>rc_readBuf := rc_readBuf c0 @ take n (rc_inbuf c0), rc_inbuf := drop n (rc_inbuf c0)\<rparr>) srv
            else Returns (ActNone, c0, srv)"
  obtain c1 srv1 where m: "?m = Returns (ActNone, c1, srv1)"
    using Suc.prems(1) g r by (cases ?m) (auto split: if_splits)
  note rd = tls_round [OF Suc.prems(2,3) g r m]
  show ?case
  proof (cases err)
    case None
    then have "resp_onTrafficTLS fuel P (\<lambda>i. ts (Suc i)) (\<lambda>i. vs (Suc i)) c1 srv1 = Some (Returns (ActNone, c', srv'))"
      using Suc.prems(1) g r m by simp
    with Suc.IH rd show ?thesis by blast
  next
    case (Some e)
    with Suc.prems(1) g r m rd show ?thesis by (cases e) auto
  qed
qed simp

lemma tls_returns:
  "length (rc_inbuf c) < fuel \<Longrightarrow> conn_ok c \<Longrightarrow> rc_tls c \<Longrightarrow> \<exists>r. resp_onTrafficTLS fuel P ts vs c srv = Some r"
proof (induction fuel arbitrary: ts vs c srv)
  case (Suc fuel)
  show ?case
  proof (cases "grow c")
    case (Some c0)
    obtain n err where r: "tls_Read (ts 0) (rc_cap c0 - length (rc_readBuf c0)) (rc_inbuf c0) = (n, err)" by fastforce
    let ?m = "if n > 0 then handleDecryptedResp P (vs 0) (c0\<lparr>rc_readBuf := rc_readBuf c0 @ take n (rc_inbuf c0), rc_inbuf := drop n (rc_inbuf c0)\<rparr>) srv
              else Returns (ActNone, c0, srv)"
    show ?thesis
    proof (cases "\<exists>c1 srv1. ?m = Returns (ActNone, c1, srv1) \<and> err = None")
      case True
      then obtain c1 srv1 where m: "?m = Returns (ActNone, c1, srv1)" "err = None" by blast
      from tls_round [OF Suc.prems(2,3) Some r m(1)] m(2) Suc.prems(1)
      have "\<exists>r. resp_onTrafficTLS fuel P (\<lambda>i. ts (Suc i)) (\<lambda>i. vs (Suc i)) c1 srv1 = Some r" by (intro Suc.IH) auto
      then show ?thesis using Some r m by simp
    next
      case False
      then show ?thesis using Some r by (cases ?m) (auto split: option.split tls_error.split)
    qed
  qed simp
qed simp

section \<open>Every connection stays in order\<close>

definition conns_ok :: "resp_world \<Rightarrow> bool" where
  "conns_ok w \<longleftrightarrow> (\<forall>i c. rw_conns w i = Some c \<longrightarrow> conn_ok c)"

lemma conn_ok_inbuf [simp]: "conn_ok (c\<lparr>rc_inbuf := b\<rparr>) = conn_ok c"
  by (simp add: conn_ok_def)

lemma OnTraffic_conn_ok:
  assumes "resp_OnTraffic fuel P ts vs c srv = Some (Returns (ActNone, c', srv'))" "conn_ok c"
  shows "conn_ok c' \<and> (\<not> rc_tls c \<and> rc_tls c' \<longrightarrow> upgraded c c' \<and> same_server srv srv')"
proof (cases "rc_tls c")
  case True
  with assms have "resp_onTrafficTLS fuel P ts vs c srv = Some (Returns (ActNone, c', srv'))"
    by (auto simp: resp_OnTraffic_def split: if_splits option.splits)
  with tls_conn_ok True assms(2) show ?thesis by blast
next
  case False
  with assms plain_conn_ok show ?thesis by (auto simp: resp_OnTraffic_def)
qed

lemma authWorker_conn_ok: "resp_authWorker v job c srv = (ActNone, c', srv') \<Longrightarrow> conn_ok c \<Longrightarrow> conn_ok c'"
  by (auto simp: resp_authWorker_def resp_authFailed_def conn_ok_def Let_def split: option.splits if_splits prod.splits)

lemma conns_ok_settle: "conns_ok w \<Longrightarrow> (act = ActNone \<Longrightarrow> conn_ok c) \<Longrightarrow> conns_ok (settle i (act, c, srv) w)"
  by (cases act) (auto simp: conns_ok_def settle_result split: if_splits)

lemma resp_step_conns_ok:
  assumes "conns_ok w" "resp_step P w e w'"
  shows "conns_ok w'"
  using assms(2)
proof (cases rule: resp_step.cases)
  case (opened now addr c srv)
  then have "conn_ok c" by (auto simp: resp_OnOpen_def Let_def install_tls_def new_conn_def conn_ok_def initialReadBuf_pos split: if_splits)
  with opened assms(1) show ?thesis by (simp add: conns_ok_def)
next
  case (hangup i c)
  with assms(1) close_conn_same(2) [of i w] show ?thesis by (auto simp: conns_ok_def split: if_splits)
next
  case (traffic i c fuel ts vs bs r)
  obtain act c' srv' where r: "r = (act, c', srv')" by (cases r)
  have "conn_ok (c\<lparr>rc_inbuf := rc_inbuf c @ bs\<rparr>)" using traffic(3) assms(1) by (simp add: conns_ok_def)
  with OnTraffic_conn_ok traffic(4) r have "act = ActNone \<Longrightarrow> conn_ok c'" by blast
  with assms(1) show ?thesis unfolding traffic(2) r by (rule conns_ok_settle)
next
  case (worker k job srv v)
  show ?thesis
  proof (cases "rw_conns w (job_conn job)")
    case None
    with worker(5) assms(1) show ?thesis by (simp add: conns_ok_def)
  next
    case (Some c)
    obtain act c' srv' where a: "resp_authWorker v job c srv = (act, c', srv')" by (metis prod_cases3)
    with assms(1) Some authWorker_conn_ok have "act = ActNone \<Longrightarrow> conn_ok c'" by (auto simp: conns_ok_def)
    with assms(1) show ?thesis unfolding worker(5) by (simp add: Some a conns_ok_settle)
  qed
next
  case (tick now completed d closed ps)
  from fold_close_same [of "w\<lparr>rw_server := (rw_server w)\<lparr>sv_handshakes := ps\<rparr>\<rparr>" closed] assms(1) tick(2) show ?thesis
    by (auto simp: conns_ok_def)
qed

lemma trace_conns_ok: "trace (resp_step P) w0 es w \<Longrightarrow> rw_conns w0 = (\<lambda>i. None) \<Longrightarrow> conns_ok w"
proof (induction rule: trace.induct)
  case (trace_more w es w1 e w2)
  then show ?case using resp_step_conns_ok by blast
qed (simp add: conns_ok_def)

text \<open>
  C15. STARTTLS cannot be used to smuggle plain bytes into the encrypted session: in every
  interleaving, when a connection goes over to TLS, all it had sent was one STARTTLS command, no byte
  received in the clear is left in any buffer, the only answer to it was OK, and neither the data, the
  files, the policy nor the identity of the connection have changed.
\<close>

theorem starttls_no_injection:
  assumes "trace (resp_step P) w0 es w" "rw_conns w0 = (\<lambda>i. None)" "resp_step P w (RTraffic i bs) w'"
    and "rw_conns w i = Some c" "\<not> rc_tls c" "rw_conns w' i = Some c'" "rc_tls c'"
  shows "\<exists>cmd. Parse (rc_inbuf c @ bs) = Inr ([cmd], length (rc_inbuf c @ bs)) \<and> EqualFold cmd ''STARTTLS'' \<and> rc_inbuf c' = [] \<and> rc_readBuf c' = [] \<and>
      rc_outbuf c' = rc_outbuf c @ respOK \<and> rc_authenticated c' = rc_authenticated c \<and> rc_session c' = rc_session c \<and>
      resp_stored (rw_server w') = resp_stored (rw_server w)"
  using assms(3)
proof (cases rule: resp_step.cases)
  case (traffic c0 fuel ts vs r)
  obtain act c1 srv1 where r: "r = (act, c1, srv1)" by (cases r)
  let ?c = "c\<lparr>rc_inbuf := rc_inbuf c @ bs\<rparr>"
  have c: "c0 = c" "act = ActNone" "c' = c1" "rw_server w' = srv1"
    using traffic(1,2) r assms(4,6) by (cases act; auto simp: settle_def close_conn_def Let_def split: if_splits)+
  have "conn_ok ?c" using trace_conns_ok [OF assms(1,2)] assms(4) by (simp add: conns_ok_def)
  with OnTraffic_conn_ok [of fuel P ts vs ?c "rw_server w" c1 srv1] traffic(3) r c assms(5,7)
  have "upgraded ?c c1 \<and> same_server (rw_server w) srv1" by simp
  with c show ?thesis by (auto simp: upgraded_def same_server_def)
qed

text \<open>
  C18. The read path returns: whatever bytes arrive on a connection that the server can reach, in
  pieces of whatever size TLS delivers, the event loop gets its answer after at most one round per
  byte; the read buffer grows as long as a command is incomplete and closes the connection at its
  ceiling.
\<close>

theorem resp_traffic_returns:
  assumes "trace (resp_step P) w0 es w" "rw_conns w0 = (\<lambda>i. None)" "rw_conns w i = Some c" "length (rc_inbuf c @ bs) < fuel"
  shows "\<exists>r. resp_OnTraffic fuel P ts vs (c\<lparr>rc_inbuf := rc_inbuf c @ bs\<rparr>) (rw_server w) = Some r"
proof -
  have "conn_ok (c\<lparr>rc_inbuf := rc_inbuf c @ bs\<rparr>)" using trace_conns_ok [OF assms(1,2)] assms(3) by (simp add: conns_ok_def)
  with tls_returns [of "c\<lparr>rc_inbuf := rc_inbuf c @ bs\<rparr>" fuel] assms(4) show ?thesis by (auto simp: resp_OnTraffic_def split: option.split)
qed

definition tls_opened :: resp_world where
  "tls_opened = do_open ''10.0.0.1'' (resp_sample True [])"

lemma tls_opened_trace: "trace (resp_step plain_prims) (resp_sample True []) [ROpen ''10.0.0.1'' 0] tls_opened"
  unfolding tls_opened_def using trace_more [OF trace_none, of "resp_step plain_prims" "resp_sample True []"] do_open_step by fastforce

lemma resp_sample_empty: "rw_conns (resp_sample tls pass) = (\<lambda>i. None)"
  by (simp add: resp_sample_def)

lemma starttls_runs: "case rw_conns tls_opened 0 of None \<Rightarrow> False | Some c \<Rightarrow> \<not> rc_tls c \<and> rc_inbuf c = [] \<and>
   (case do_traffic 0 (enc_command [''starttls'']) tls_opened of None \<Rightarrow> False
    | Some w' \<Rightarrow> (case rw_conns w' 0 of None \<Rightarrow> False | Some c' \<Rightarrow> rc_tls c'))"
  by code_simp

theorem starttls_no_injection_witness:
  "\<exists>w' c c'. rw_conns tls_opened 0 = Some c \<and> \<not> rc_tls c \<and> resp_step plain_prims tls_opened (RTraffic 0 (enc_command [''starttls''])) w' \<and>
     rw_conns w' 0 = Some c' \<and> rc_tls c' \<and> rc_inbuf c' = [] \<and> rc_readBuf c' = [] \<and> rc_outbuf c' = rc_outbuf c @ respOK"
proof -
  from starttls_runs obtain c w' c' where c: "rw_conns tls_opened 0 = Some c" "\<not> rc_tls c"
      "do_traffic 0 (enc_command [''starttls'']) tls_opened = Some w'" "rw_conns w' 0 = Some c'" "rc_tls c'"
    by (fastforce split: option.splits)
  note step = do_traffic_step [OF c(3)]
  from starttls_no_injection [OF tls_opened_trace resp_sample_empty step c(1,2,4,5)] c step show ?thesis by blast
qed

theorem resp_traffic_returns_witness:
  "\<exists>c r. rw_conns tls_opened 0 = Some c \<and>
     resp_OnTraffic (Suc (length (rc_inbuf c @ ''abc''))) plain_prims (\<lambda>k. \<lparr>record_len = 1, tls_fails = False\<rparr>) (\<lambda>j k. resp_sample_env)
       (c\<lparr>rc_inbuf := rc_inbuf c @ ''abc''\<rparr>) (rw_server tls_opened) = Some r"
proof -
  from starttls_runs obtain c where c: "rw_conns tls_opened 0 = Some c" by (fastforce split: option.splits)
  from resp_traffic_returns [OF tls_opened_trace resp_sample_empty c lessI] c show ?thesis by blast
qed

end
