(* ===== verification/Resp_Commands.thy ===== *)
theory Resp_Commands
  imports Resp_Safety
begin

text \<open>
  What a client of the Redis front end receives: every command of a pipeline is answered by one
  value it can read, a command its session may not run has no effect, and what SET stores GET
  returns until it expires.
\<close>

section \<open>Data commands return\<close>

abbreviation calm :: "front_env \<Rightarrow> int \<Rightarrow> bool" where
  "calm v t \<equiv> \<forall>i. exec_ok (exec_envs v i) \<and> op_now (exec_envs v i) = t"

lemma handlers_return:
  assumes "router_ok P s" "\<forall>i. exec_ok (vs i) \<and> op_now (vs i) = t"
  shows "\<exists>r s'. (run_handler (rs_Get P) (rs_Set P) (rs_Delete P) vs h cx s :: (shard_error reply \<times> router) go) = Returns (r, s') \<and> router_ok P s' \<and>
    (\<forall>e. r = RepErrorMsg e \<longrightarrow> line_ok e) \<and> (\<forall>n. r \<noteq> RepDenied n)"
proof -
  have v: "exec_ok (vs 0)" using assms(2) by blast
  have get: ?thesis if "h = HGet"
  proof (cases "length (Args cx) = 2")
    case True
    then obtain a k where "Args cx = [a, k]" by (auto simp: length_Suc_conv numeral_2_eq_2)
    moreover obtain s' where "(get_handler (rs_Get P) (vs 0) [a, k] s :: (shard_error reply \<times> router) go) =
        Returns (case router_view P s (op_now (vs 0)) k of None \<Rightarrow> RepNull | Some x \<Rightarrow> RepBulk x, s')" "router_ok P s'"
      using rcmd.get_handler_reply [OF assms(1) v, of a k] by blast
    ultimately show ?thesis using that by (simp add: run_handler_def split: option.split)
  qed (use that assms(1) in \<open>simp add: run_handler_def get_handler_def\<close>)
  have set: ?thesis if "h = HSet"
  proof (cases "(length (Args cx) = 3 \<or> length (Args cx) = 5) \<and> parseSetTTL (Args cx) \<noteq> None")
    case True
    then obtain ttl where "length (Args cx) = 3 \<or> length (Args cx) = 5" "parseSetTTL (Args cx) = Some ttl" by blast
    from rcmd.set_handler_reply [OF assms(1) v this, of "ctx_TTL cx"] obtain r s' where
      "set_handler (rs_Set P) (vs 0) (ctx_TTL cx) (Args cx) s = Returns (case r of None \<Rightarrow> RepOK | Some err \<Rightarrow> RepStorageErr err, s')" "router_ok P s'" by blast
    with that show ?thesis by (simp add: run_handler_def split: option.split)
  next
    case False
    with that assms(1) show ?thesis by (auto simp: run_handler_def set_handler_def)
  qed
  have del: ?thesis if "h = HDel"
  proof -
    obtain n s' where "del_keys (rs_Delete P) vs (drop 1 (Args cx)) 0 s = Returns (n, s')" "router_ok P s'"
      using rcmd.del_keys_count [OF assms] by blast
    with that assms(1) show ?thesis by (simp add: run_handler_def del_handler_def)
  qed
  show ?thesis using get set del by (cases h) blast+
qed

definition plain_reply :: "shard_error reply \<Rightarrow> bool" where
  "plain_reply r = (case r of RepErrorMsg e \<Rightarrow> line_ok e | RepDenied n \<Rightarrow> line_ok n | _ \<Rightarrow> True)"

lemma Lookup_names: "cmd_Lookup name = Some cmd \<Longrightarrow> line_ok (ToLower (cmd_name cmd))"
  by (auto simp: cmd_Lookup_def commands_def split: if_splits) code_simp+

lemma server_exec_returns:
  assumes "router_ok P (kv st)" "\<forall>i. exec_ok (vs i) \<and> op_now (vs i) = t"
  shows "\<exists>rep st'. server_exec P vs now cx st = Returns (rep, st') \<and> router_ok P (kv st') \<and> (\<forall>r. rep = Some r \<longrightarrow> plain_reply r) \<and>
    (rep = None \<longrightarrow> st' = st)"
proof (cases "Args cx")
  case Nil
  with assms(1) show ?thesis by (simp add: cmd_Execute_def)
next
  case (Cons name rest)
  show ?thesis
  proof (cases "cmd_Lookup name")
    case None
    with Cons assms(1) show ?thesis by (simp add: cmd_Execute_def)
  next
    case (Some cmd)
    obtain r s' where h: "run_handler (rs_Get P) (rs_Set P) (rs_Delete P) vs (Handler cmd) cx (kv st) = Returns (r, s')" "router_ok P s'" "plain_reply r"
      using handlers_return [OF assms, of "Handler cmd" cx] by (fastforce simp: plain_reply_def split: reply.splits)
    have deny: "kv x2 = kv st" "plain_reply x1" if "deny now cx cmd k p st = (x1, x2)" for k p x1 x2
      using that Lookup_names [OF Some] by (auto simp: deny_def plain_reply_def Let_def)
    have w: "plain_reply (RepErrorMsg (wrong_args (ToLower (cmd_name cmd))))" using Lookup_names [OF Some] by (simp add: plain_reply_def)
    show ?thesis
    proof (cases "length (Args cx) < Arity cmd")
      case True
      with Cons Some w assms(1) show ?thesis by (simp add: cmd_Execute_def)
    next
      case False
      show ?thesis
      proof (cases "case pol st of None \<Rightarrow> None | Some p \<Rightarrow> map_option (\<lambda>k. (p, k)) (denyKey cx cmd)")
        case None
        with Cons Some False h show ?thesis by (simp add: cmd_Execute_def Let_def)
      next
        case (Some pk)
        obtain p k where "pk = (p, k)" by fastforce
        moreover obtain x1 :: "shard_error reply" and x2 where d: "deny now cx cmd k p st = (x1, x2)" by fastforce
        ultimately show ?thesis using Cons \<open>cmd_Lookup name = Some cmd\<close> False Some deny [OF d] assms(1)
          by (simp add: cmd_Execute_def)
      qed
    qed
  qed
qed

section \<open>One reply per command\<close>

text \<open>
  A command that neither logs in nor ends the loop over the buffer. ROLE LIST is left out: its reply
  is not one value.
\<close>

definition ordinary :: "bytes list \<Rightarrow> bool" where
  "ordinary as \<longleftrightarrow> as = [] \<or> \<not> EqualFold (as ! 0) ''AUTH'' \<and> \<not> EqualFold (as ! 0) ''QUIT'' \<and> \<not> EqualFold (as ! 0) ''STARTTLS'' \<and>
     \<not> (EqualFold (as ! 0) ''ROLE'' \<and> 2 \<le> length as \<and> EqualFold (as ! 1) ''LIST'')"

lemma replies_bulk [simp]: "replies readable out (AppendBulk out b)" "replies readable out (AppendNullBulk out)" "replies readable out (out @ respPong)"
  by (rule repliesI [where w = "RBulk b"], simp_all add: append_reply)
    (rule repliesI [where w = RNull], simp_all add: append_reply, rule repliesI [where w = "RSimple ''PONG''"], simp_all add: append_reply)

lemma respReply_replies: "plain_reply r \<Longrightarrow> texts_ok v \<Longrightarrow> replies readable out (respReply v out r)"
  by (cases r) (auto simp: respReply_def plain_reply_def texts_ok_def)

lemma deniedReply_replies:
  assumes "deniedReply now cmd key keyless out c srv = ((out', async), c', srv')" "line_ok cmd"
  shows "replies readable out out' \<and> \<not> async \<and> c' = c \<and> sv_router srv' = sv_router srv \<and> sv_startTLS srv' = sv_startTLS srv"
  using assms by (auto simp: deniedReply_def countDenied_def Let_def)

lemma countCommand_fields [simp]: "sv_router (countCommand c srv) = sv_router srv" "sv_startTLS (countCommand c srv) = sv_startTLS srv"
  by (simp_all add: countCommand_def)

lemma local_command_replies:
  assumes "local_command v as out c srv = ((out', async), c', srv')" "texts_ok v" "as \<noteq> []" "ordinary as"
  shows "replies (list_all line_ok as) out out' \<and> \<not> async \<and> c' = c \<and> sv_router srv' = sv_router srv \<and> sv_startTLS srv' = sv_startTLS srv"
proof -
  have sub: "length as < 2 \<or> \<not> EqualFold (as ! 1) ''LIST''" if "EqualFold (as ! 0) ''ROLE''"
    using that assms(3,4) by (auto simp: ordinary_def)
  have line: "list_all line_ok as \<Longrightarrow> line_ok (as ! 0)" using assms(3) by (cases as) auto
  have deny: "deniedReply (wall_clock v) cmd [] True out c srv = ((out', async), c', srv') \<Longrightarrow> line_ok cmd \<Longrightarrow> ?thesis" for cmd
    using deniedReply_replies by blast
  have role: "replies (list_all line_ok as) out o'" if "resp_role v as out po = (o', po')" "EqualFold (as ! 0) ''ROLE''" for po o' po'
    using resp_role_replies [OF assms(2) sub [OF that(2)], of out po] that(1) by simp
  have acl: "replies (list_all line_ok as) out o'" if "resp_acl v as out po = (o', po')" for po o' po'
    using resp_acl_replies [OF assms(2), of as out po] that by simp
  have other: "\<not> EqualFold (as ! 0) ''QUIT''" "\<not> EqualFold (as ! 0) ''STARTTLS''" using assms(3,4) by (auto simp: ordinary_def)
  consider "EqualFold (as ! 0) ''PING''" | "\<not> EqualFold (as ! 0) ''PING''" "EqualFold (as ! 0) ''COMMAND''"
    | "\<not> EqualFold (as ! 0) ''PING''" "\<not> EqualFold (as ! 0) ''COMMAND''" "EqualFold (as ! 0) ''ROLE''"
    | "\<not> EqualFold (as ! 0) ''PING''" "\<not> EqualFold (as ! 0) ''COMMAND''" "\<not> EqualFold (as ! 0) ''ROLE''" "EqualFold (as ! 0) ''ACL''"
    | "\<not> EqualFold (as ! 0) ''PING''" "\<not> EqualFold (as ! 0) ''COMMAND''" "\<not> EqualFold (as ! 0) ''ROLE''" "\<not> EqualFold (as ! 0) ''ACL''" by blast
  then show ?thesis
  proof cases
    case 1
    with assms(1) show ?thesis by (auto simp: local_command_def Let_def split: if_splits)
  next
    case 2
    with assms(1,3) resp_command_replies [of as out] deny [of "''command''"] show ?thesis
      by (auto simp: local_command_def Let_def split: if_splits)
  next
    case 3
    with assms(1) role deny [of "''role''"] show ?thesis by (auto simp: local_command_def Let_def split: if_splits prod.splits)
  next
    case 4
    with assms(1) acl deny [of "''acl''"] show ?thesis by (auto simp: local_command_def Let_def split: if_splits prod.splits)
  next
    case 5
    with assms(1) other line show ?thesis by (auto simp: local_command_def Let_def)
  qed
qed

lemma audit_dispatch_fields [simp]: "sv_router (audit_dispatch as c srv) = sv_router srv" "sv_startTLS (audit_dispatch as c srv) = sv_startTLS srv"
  by (simp_all add: audit_dispatch_def)

lemma dispatch_replies:
  assumes "router_ok P (sv_router srv)" "calm v t" "texts_ok v" "ordinary as"
  shows "\<exists>out' srv'. dispatch P v as out c srv = Returns ((out', False), c, srv') \<and> replies (list_all line_ok as) out out' \<and>
    router_ok P (sv_router srv') \<and> sv_startTLS srv' = sv_startTLS srv"
proof (cases "refused as c srv")
  case True
  with assms(1,4) show ?thesis by (auto simp: refused_def dispatch_def Let_def ordinary_def)
next
  case False
  have ne: "as \<noteq> []" using False by (simp add: refused_def)
  have "router_ok P (kv (exec_state srv))" using assms(1) by simp
  from server_exec_returns [OF this assms(2)] obtain rep st where
    e: "server_exec P (exec_envs v) (wall_clock v) (resp_ctx as c) (exec_state srv) = Returns (rep, st)" "router_ok P (kv st)" "\<forall>r. rep = Some r \<longrightarrow> plain_reply r"
    by blast
  show ?thesis
  proof (cases rep)
    case None
    obtain out' async c' srv' where l: "local_command v as out c (audit_dispatch as c (after_exec srv st)) = ((out', async), c', srv')"
      by (metis prod.collapse)
    from local_command_replies [OF l assms(3) ne assms(4)] l e None show ?thesis unfolding dispatch_exec [OF False] by auto
  next
    case (Some r)
    with e assms(3) respReply_replies show ?thesis unfolding dispatch_exec [OF False] by auto
  qed
qed

definition served :: "bytes list \<Rightarrow> bool" where
  "served as \<longleftrightarrow> cmd_fits as \<and> ordinary as \<and> list_all line_ok as"

definition good_env :: "resp_env \<Rightarrow> bool" where
  "good_env v \<longleftrightarrow> env_ok (re_env v) \<and> texts_ok (re_env v) \<and> discard_ok v"

definition torn_rest :: "bytes \<Rightarrow> bool" where
  "torn_rest part \<longleftrightarrow> part = [] \<or> Parse part = Inl ErrIncomplete"

lemma next_command:
  assumes "drop n src = enc_command a @ rest" "cmd_fits a" "n \<le> length src"
  shows "n < length src" "Parse (drop n src) = Inr (a, length (enc_command a))" "drop (n + length (enc_command a)) src = rest"
    "n + length (enc_command a) \<le> length src"
proof -
  have len: "length src - n = length (enc_command a) + length rest" using arg_cong [OF assms(1), of length] by simp
  moreover have "enc_command a \<noteq> []" by (simp add: enc_command_def foldl_AppendBulk AppendArray_def)
  ultimately show "n < length src" "n + length (enc_command a) \<le> length src" using assms(3) by (auto simp: length_greater_0_conv [symmetric] simp del: length_greater_0_conv)
  show "Parse (drop n src) = Inr (a, length (enc_command a))" unfolding assms(1) by (rule Parse_enc [OF assms(2)])
  show "drop (n + length (enc_command a)) src = rest" using assms(1) by (metis add.commute append_eq_conv_conj drop_drop)
qed

lemma rest_ends: "drop n src = part \<Longrightarrow> torn_rest part \<Longrightarrow> n \<le> length src \<Longrightarrow>
    processBuffer P vs src n out c srv = Returns (stop_at (length src - length part) False False out, c, srv) \<and> \<not> hasPipelinedSTARTTLS src n"
  by (cases "n < length src") (auto simp: torn_rest_def processBuffer_ends hasPipelinedSTARTTLS.simps)

lemma pipeline_loop:
  assumes "list_all served cmds" "router_ok P (sv_router srv)" "\<forall>i. good_env (vs i)" "\<not> rc_upgradeTLS c" "\<not> rc_closeAfterReply c"
    and "drop n src = concat (map enc_command cmds) @ part" "torn_rest part" "n \<le> length src"
  shows "(\<exists>vals srv'. processBuffer P vs src n out c srv = Returns (stop_at (length src - length part) False False (out @ concat (map enc_val vals)), c, srv') \<and>
    length vals = length cmds \<and> list_all val_ok vals \<and> router_ok P (sv_router srv')) \<and> \<not> hasPipelinedSTARTTLS src n"
  using assms
proof (induction cmds arbitrary: n out srv vs)
  case Nil
  with rest_ends [of n src part P vs out c srv] show ?case by (auto intro!: exI [of _ "[]"])
next
  case (Cons a cmds)
  have a: "cmd_fits a" "ordinary a" "list_all line_ok a" "list_all served cmds" using Cons.prems(1) by (simp_all add: served_def [of a])
  have src: "drop n src = enc_command a @ concat (map enc_command cmds) @ part" using Cons.prems(6) by simp
  note nx = next_command [OF src a(1) Cons.prems(8)]
  obtain t where "calm (re_env (vs 0)) t" using Cons.prems(3) by (auto simp: good_env_def env_ok_def)
  moreover have "texts_ok (re_env (vs 0))" using Cons.prems(3) by (simp add: good_env_def)
  ultimately obtain out1 srv1 where d: "dispatch P (re_env (vs 0)) a out c srv = Returns ((out1, False), c, srv1)" "replies (list_all line_ok a) out out1"
      "router_ok P (sv_router srv1)"
    using dispatch_replies [OF Cons.prems(2) _ _ a(2)] by blast
  from d(2) a(3) obtain val where val: "out1 = out @ enc_val val" "val_ok val" by (auto simp: replies_def)
  have env: "\<forall>i. good_env (vs (Suc i))" using Cons.prems(3) by blast
  note IH = Cons.IH [OF a(4) d(3) env Cons.prems(4,5) nx(3) Cons.prems(7) nx(4), of out1]
  then obtain vals srv' where ih: "processBuffer P (\<lambda>i. vs (Suc i)) src (n + length (enc_command a)) out1 c srv1 =
      Returns (stop_at (length src - length part) False False (out1 @ concat (map enc_val vals)), c, srv')"
      "length vals = length cmds" "list_all val_ok vals" "router_ok P (sv_router srv')" by blast
  have "goes_on False c" using Cons.prems(4,5) by (simp add: goes_on_def)
  then have "processBuffer P vs src n out c srv =
      Returns (stop_at (length src - length part) False False (out @ concat (map enc_val (val # vals))), c, srv')"
    unfolding processBuffer_command [OF nx(1,2)] using d(1) ih(1) val(1) by simp
  moreover have "\<not> hasPipelinedSTARTTLS src n"
    using IH a(2) nx(1,2) by (subst hasPipelinedSTARTTLS.simps) (auto simp: ordinary_def)
  ultimately show ?case using ih(2-4) val(2) by (intro conjI exI [of _ "val # vals"] exI [of _ srv']) simp_all
qed

lemma counts_router [simp]: "same_data (sv_router srv) (sv_router (count_written n c srv))" "same_data (sv_router srv) (sv_router (count_read n c srv))"
  by (auto simp: same_data_def count_written_def count_read_def resp_on_shard_def Let_def map_update list_update_same_conv)

lemma counts_router_ok [simp]: "router_ok P (sv_router (count_written n c srv)) = router_ok P (sv_router srv)"
  "router_ok P (sv_router (count_read n c srv)) = router_ok P (sv_router srv)"
  by (rule same_data_router, simp)+

lemma flush_replies_ok:
  assumes "write_ok v" "router_ok P (sv_router srv)"
  shows "\<exists>srv'. flush_replies v out c srv = Some (c\<lparr>rc_outbuf := rc_outbuf c @ out\<rparr>, srv') \<and> router_ok P (sv_router srv')"
  using assms by (simp add: flush_replies_def)


lemma whole_buffer:
  assumes "processBuffer P vs (rc_inbuf c) 0 [] c srv = Returns (stop_at (length (rc_inbuf c)) False False out, c, srv1)" "router_ok P (sv_router srv1)"
    and "\<not> hasPipelinedSTARTTLS (rc_inbuf c) 0" "rc_inbuf c \<noteq> []" "\<not> rc_authPending c" "\<not> rc_closeAfterReply c"
    and "peek_ok (re_env (vs 0))" "write_ok (re_env (vs 0))" "discard_ok (vs 0)"
  shows "\<exists>c' srv'. resp_onTrafficPlaintext P vs c srv = Returns (ActNone, c', srv') \<and> rc_inbuf c' = [] \<and> rc_outbuf c' = rc_outbuf c @ out"
proof -
  obtain srv2 where "flush_replies (re_env (vs 0)) out c srv1 = Some (c\<lparr>rc_outbuf := rc_outbuf c @ out\<rparr>, srv2)"
    using flush_replies_ok [OF assms(8,2)] by blast
  with assms show ?thesis by (simp add: resp_onTrafficPlaintext_def Let_def)
qed

section \<open>What was set is read back\<close>

lemma no_upgrade_ahead:
  assumes "list_all (\<lambda>as. cmd_fits as \<and> length as \<noteq> 1) cmds" "drop n src = concat (map enc_command cmds)" "n \<le> length src"
  shows "\<not> hasPipelinedSTARTTLS src n"
  using assms
proof (induction cmds arbitrary: n)
  case Nil
  with rest_ends [of n src "[]"] show ?case by (simp add: torn_rest_def)
next
  case (Cons a cmds)
  then have "drop n src = enc_command a @ concat (map enc_command cmds)" by simp
  note nx = next_command [OF this _ Cons.prems(3)]
  from Cons have "\<not> hasPipelinedSTARTTLS src (n + length (enc_command a))" using nx by simp
  with nx Cons.prems(1) show ?case by (subst hasPipelinedSTARTTLS.simps) simp
qed

lemma dispatch_data:
  assumes "rc_authenticated c" "sv_policy srv = None" "\<not> EqualFold (as ! 0) ''AUTH''" "as \<noteq> []"
    and "server_exec P (exec_envs v) (wall_clock v) (resp_ctx as c) (exec_state srv) = Returns (Some r, st)"
  shows "dispatch P v as out c srv = Returns ((respReply v out r, False), c, after_exec srv st) \<and> sv_policy (after_exec srv st) = None"
  using assms dispatch_exec [of as c srv P v out] cmd_Execute_pol [OF assms(5)] by (simp add: refused_def)

text \<open>
  C17. What a Redis client stores it reads back: the bytes of a SET with EX followed by those of a GET
  of the same key, in one piece, are answered by two values, and if the first is OK the second is the
  value as long as the seconds have not passed and nil afterwards, for every number of seconds whose
  nanoseconds fit in 64 bits and for keys and values with any bytes.
\<close>

theorem resp_set_then_get:
  assumes "router_ok P (sv_router srv)" "sv_policy srv = None" "rc_authenticated c" "\<not> rc_authPending c" "\<not> rc_upgradeTLS c" "\<not> rc_closeAfterReply c"
    and "\<forall>i. good_env (vs i)" "Atoi n = Some secs" "0 < secs" "secs * second < 2 ^ 63"
    and "op_now (exec_envs (re_env (vs 0)) 0) \<le> op_now (exec_envs (re_env (vs 1)) 0)"
    and "cmd_fits [''SET'', k, x, ''EX'', n]" "cmd_fits [''GET'', k]" "rc_inbuf c = enc_command [''SET'', k, x, ''EX'', n] @ enc_command [''GET'', k]"
  shows "\<exists>first reply c' srv'. resp_onTrafficPlaintext P vs c srv = Returns (ActNone, c', srv') \<and> rc_inbuf c' = [] \<and>
      rc_outbuf c' = rc_outbuf c @ enc_val first @ enc_val reply \<and> (first = RSimple ''OK'' \<or> (\<exists>e. first = RError e)) \<and>
      (first = RSimple ''OK'' \<longrightarrow> reply = (if op_now (exec_envs (re_env (vs 1)) 0) \<le> op_now (exec_envs (re_env (vs 0)) 0) + secs * second then RBulk x else RNull))"
proof -
  let ?set = "[''SET'', k, x, ''EX'', n]" and ?get = "[''GET'', k]" and ?v0 = "re_env (vs 0)" and ?v1 = "re_env (vs 1)"
  let ?src = "rc_inbuf c" and ?n = "length (enc_command [''SET'', k, x, ''EX'', n])" and ?t0 = "op_now (exec_envs (re_env (vs 0)) 0)" and ?t1 = "op_now (exec_envs (re_env (vs 1)) 0)"
  have env: "exec_ok (exec_envs ?v0 0)" "exec_ok (exec_envs ?v1 0)" "peek_ok ?v0" "write_ok ?v0" "discard_ok (vs 0)"
    using assms(7) by (auto simp: good_env_def env_ok_def)
  have ttl: "int64 (secs * second) = secs * second" "0 < secs * second" using assms(9,10) by (auto simp: second_def)
  then have nz: "int64 (secs * second) \<noteq> 0" by linarith
  have ctx: "Args (resp_ctx as c) = as" for as by (simp add: resp_ctx_def)
  have free: "\<forall>cmd. cmd_Lookup nm = Some cmd \<longrightarrow> permitted (resp_ctx as c) cmd st" if "pol st = None" for nm as and st :: server_state
    using that by (simp add: permitted_def)
  have pre: "router_ok P (kv (exec_state srv))" "pol (exec_state srv) = None" using assms(1,2) by simp_all
  obtain r st where s: "server_exec P (exec_envs ?v0) (wall_clock ?v0) (resp_ctx ?set c) (exec_state srv) =
      Returns (Some (case r of None \<Rightarrow> RepOK | Some err \<Rightarrow> RepStorageErr err), st)" "router_ok P (kv st)"
      "\<And>t. r = None \<Longrightarrow> ?t0 \<le> t \<Longrightarrow> router_view P (kv st) t k = (if past t (deadline ?t0 (int64 (secs * second))) then None else Some x)"
    by (rule server_set_EX [where vs = "exec_envs ?v0" and now = "wall_clock ?v0" and k = k and x = x, OF pre(1) env(1) ctx assms(8,9) nz free [OF pre(2)]]) (rule that)
  let ?s1 = "after_exec srv st" and ?first = "case r of None \<Rightarrow> RSimple ''OK'' | Some err \<Rightarrow> RError (''ERR '' @ store_text (re_env (vs 0)) err)"
  have d1: "dispatch P ?v0 ?set [] c srv = Returns ((enc_val ?first, False), c, ?s1)" "sv_policy ?s1 = None"
    using dispatch_data [OF assms(3,2) _ _ s(1), of "[]"] by (auto simp: EqualFold_def upper_byte_def respReply_def append_reply split: option.split)
  obtain st2 where g: "server_exec P (exec_envs ?v1) (wall_clock ?v1) (resp_ctx ?get c) (exec_state ?s1) =
      Returns (Some (case router_view P (kv st) ?t1 k of None \<Rightarrow> RepNull | Some y \<Rightarrow> RepBulk y), st2)" "router_ok P (kv st2)"
    using server_get [where vs = "exec_envs ?v1" and now = "wall_clock ?v1", OF _ env(2) ctx free, of P "exec_state ?s1" k] s(2) d1(2) by auto
  let ?reply = "case router_view P (kv st) ?t1 k of None \<Rightarrow> RNull | Some y \<Rightarrow> RBulk y" and ?s2 = "after_exec ?s1 st2"
  have d2: "dispatch P ?v1 ?get (enc_val ?first) c ?s1 = Returns ((enc_val ?first @ enc_val ?reply, False), c, ?s2)"
    using dispatch_data [OF assms(3) d1(2) _ _ g(1), of "enc_val ?first"] by (auto simp: EqualFold_def upper_byte_def respReply_def append_reply split: option.split)
  have src: "drop 0 ?src = enc_command ?set @ enc_command ?get" "drop ?n ?src = enc_command ?get @ []" using assms(14) by simp_all
  note n1 = next_command [OF src(1) assms(12)] and n2 = next_command [OF src(2) assms(13)]
  have go: "goes_on False c" using assms(5,6) by (simp add: goes_on_def)
  have len: "?n + length (enc_command ?get) = length ?src" using assms(14) by simp
  have "processBuffer P vs ?src 0 [] c srv = Returns (stop_at (length ?src) False False (enc_val ?first @ enc_val ?reply), c, ?s2)"
    using processBuffer_command [OF n1(1,2), of P vs "[]" c srv] processBuffer_command [OF n2(1,2), of P "\<lambda>i. vs (Suc i)" "enc_val ?first" c ?s1] d1(1) d2 go n1(4) len
    by (simp add: processBuffer_ends)
  moreover have "\<not> hasPipelinedSTARTTLS ?src 0"
    using no_upgrade_ahead [of "[?set, ?get]" 0 ?src] assms(12-14) by simp
  moreover have "?src \<noteq> []" using n1(1) by auto
  moreover have "router_ok P (sv_router ?s2)" using g(2) by simp
  ultimately obtain c' srv' where "resp_onTrafficPlaintext P vs c srv = Returns (ActNone, c', srv')" "rc_inbuf c' = []"
      "rc_outbuf c' = rc_outbuf c @ enc_val ?first @ enc_val ?reply"
    using whole_buffer [of P vs c srv] env(3-5) assms(4,6) by blast
  moreover have "?first = RSimple ''OK'' \<or> (\<exists>e. ?first = RError e)" by (cases r) simp_all
  moreover have "?reply = (if ?t1 \<le> ?t0 + secs * second then RBulk x else RNull)" if "?first = RSimple ''OK''"
  proof -
    have "r = None" using that by (cases r) simp_all
    from s(3) [OF this assms(11)] have v: "router_view P (kv st) ?t1 k = (if ?t1 \<le> ?t0 + secs * second then Some x else None)"
      unfolding ttl(1) using ttl(2) by (simp add: past_def deadline_def)
    show ?thesis unfolding v by simp
  qed
  ultimately show ?thesis by blast
qed

section \<open>Concrete pipelines\<close>

definition resp_sample_server :: "router \<Rightarrow> resp_server" where
  "resp_sample_server r = (case resp_NewServer Some r False [] False None False quiet_log of Returns s \<Rightarrow> s)"

definition resp_sample_conn :: "bytes \<Rightarrow> resp_conn" where
  "resp_sample_conn buf = (new_conn 0 0 ''10.0.0.1'' (resp_sample_server two_shards))\<lparr>rc_inbuf := buf\<rparr>"

lemma resp_sample_server_simps [simp]: "sv_router (resp_sample_server r) = r" "sv_policy (resp_sample_server r) = None" "sv_requirePassHash (resp_sample_server r) = []"
  by (simp_all add: resp_sample_server_def resp_NewServer_def Let_def)

lemma resp_sample_conn_simps [simp]: "rc_inbuf (resp_sample_conn buf) = buf" "rc_authenticated (resp_sample_conn buf)" "\<not> rc_authPending (resp_sample_conn buf)"
  "\<not> rc_upgradeTLS (resp_sample_conn buf)" "\<not> rc_closeAfterReply (resp_sample_conn buf)"
  by (simp_all add: resp_sample_conn_def new_conn_def connectionAuth_def)

lemma resp_sample_env_good: "good_env resp_sample_env"
  using sample_env_ok by (simp add: good_env_def resp_sample_env_def texts_ok_def sample_env_def)

definition sample_cmds :: "bytes list list" where
  "sample_cmds = [[''SET'', ''k'', ''v''], [''nonsense''], [''COMMAND'', ''COUNT''], [''GET'', ''k'']]"


theorem resp_set_then_get_witness:
  "\<exists>first reply c' srv'. resp_onTrafficPlaintext plain_prims (\<lambda>i. resp_sample_env)
      (resp_sample_conn (enc_command [''SET'', ''k'', ''v'', ''EX'', ''10''] @ enc_command [''GET'', ''k''])) (resp_sample_server two_shards) = Returns (ActNone, c', srv') \<and>
      rc_inbuf c' = [] \<and>
      rc_outbuf c' = rc_outbuf (resp_sample_conn (enc_command [''SET'', ''k'', ''v'', ''EX'', ''10''] @ enc_command [''GET'', ''k''])) @ enc_val first @ enc_val reply \<and>
      (first = RSimple ''OK'' \<or> (\<exists>e. first = RError e)) \<and>
      (first = RSimple ''OK'' \<longrightarrow> reply = (if op_now (exec_envs (re_env resp_sample_env) 0) \<le> op_now (exec_envs (re_env resp_sample_env) 0) + 10 * second
        then RBulk ''v'' else RNull))"
proof -
  have "Atoi ''10'' = Some 10" by code_simp
  then show ?thesis
    by (intro resp_set_then_get [where vs = "\<lambda>i. resp_sample_env"])
      (simp_all add: two_shards_ok resp_sample_env_good cmd_fits_def maxBulkLen_def second_def)
qed

end
