(* ===== verification/Spec2Isabelle.thy ===== *)
theory Spec2Isabelle
  imports Binary_Server Resp_Commands
begin

text \<open>
  Tellstone is an in-memory key-value database in Go: values with expiration times in sharded,
  optionally encrypted engines, a write-ahead log and snapshots per shard, role-based access control,
  and two network front ends, a binary protocol and the Redis protocol. This library models the
  program and proves what its parts promise. Every definition is a function or a step relation read
  off the source named at the top of its theory (paths below are under \<^verbatim>\<open>src\<close>); strings and byte slices are character lists, machine
  integers keep their width, a panic of the code is the value \<open>Panics\<close>, and every clock reading, random
  nonce, outcome of an I/O call and scheduling choice is an argument, so that a theorem covers all of them.

  \<^bold>\<open>How the parts interact.\<close> A front end parses commands from the bytes of a connection, checks who is
  asking and runs the command layer. The command layer checks permissions with the policy store,
  records the command in the audit log and calls the store contract. The router picks a shard by a
  hash of the key, the shard writes the log first and the engine second, and the engine seals values
  with the data key that the envelope of the shard holds under the key of the operator.

  \<^bold>\<open>Shared.\<close> \<open>Tellstone_Prelude\<close>: times and durations, panics, decimal numbers, reachability (\<open>reach\<close> and
  the locale \<open>step_system\<close>). \<open>Store_Interface\<close>: the contract \<open>kv_store\<close> of a map with expirations, with the
  lemmas its clients use. \<open>Stream_Codec\<close>: the contract \<open>stream_codec\<close> of self-delimiting records and what
  it gives for streams. \<open>Login_Interface\<close>: runs of a labelled step relation and the contract
  \<open>login_system\<close> behind the authentication of both front ends. \<open>Frontend\<close>: what the front ends share.

  \<^bold>\<open>Storage.\<close> \<open>Chronometer\<close> (\<^verbatim>\<open>internal/storage/chronometer.go\<close>): the wheel of expiring keys; it fires on
  time and loses or invents no key. \<open>Storage_Engine\<close> (\<^verbatim>\<open>internal/storage/engine.go\<close>): Get, Set, Delete and the
  expiration; it refines the timed map, its byte accounting is exact, it never panics. \<open>Crypto_Engine\<close>
  and \<open>Envelope\<close> (\<^verbatim>\<open>internal/crypto\<close>): sealing and the rotation of keys; no fault of a rotation loses a key.

  \<^bold>\<open>Persistence.\<close> \<open>Wal_Record\<close>, \<open>Wal\<close>, \<open>Snapshot\<close> (\<^verbatim>\<open>internal/persistence\<close>): the record formats, append and
  replay, both snapshot writers and the reader. \<open>Wal_Recovery\<close>: after a crash at any byte of an append
  exactly the acknowledged records are restored, no nonce is used twice over restarts, and the cases
  in which the code does lose or resurrect data. \<open>Shard\<close> (\<^verbatim>\<open>internal/shard\<close>, \<^verbatim>\<open>internal/router\<close>): shard and router;
  the router refines the timed map and the state of a shard survives a crash.

  \<^bold>\<open>Access control and commands.\<close> \<open>Rbac_Role\<close>, \<open>Rbac_Policy\<close> (\<^verbatim>\<open>internal/rbac\<close>): rules and their meaning, the
  policy store, its administration, the ACL LOG. \<open>Audit_Log\<close> (\<^verbatim>\<open>internal/audit\<close>): the filter and the sticky
  error. \<open>Command_Layer\<close> (\<^verbatim>\<open>internal/command\<close>) and \<open>Server_Commands\<close>: the gate and GET, SET, DEL over any store,
  then on the sharded one; a key outside the permissions of a session is never reached.

  \<^bold>\<open>Binary front end.\<close> \<open>Binary_Protocol\<close>, \<open>Admin_Codec\<close>, \<open>Binary_Handler\<close>, \<open>Binary_Server\<close> (\<^verbatim>\<open>internal/network\<close>,
  \<^verbatim>\<open>networkHandler\<close> of \<^verbatim>\<open>server/server.go\<close>): frames and payloads round-trip, decoding stays in bounds, every
  pipelined request is answered, no data without credentials, what SET stores GET returns, and a
  frame larger than the TLS read buffer makes the read loop run forever.

  \<^bold>\<open>Redis front end.\<close> \<open>Resp_Protocol\<close>, \<open>Resp_Admin\<close>, \<open>Resp_Handshake\<close>, \<open>Resp_Server\<close> (\<^verbatim>\<open>internal/resp\<close>): the parser
  and the reply encoders, COMMAND, ROLE and ACL, the handshake deadline, connections, dispatch and
  read paths. \<open>Resp_Safety\<close>: no data without credentials, no plain bytes behind STARTTLS, the read path
  returns. \<open>Resp_Commands\<close>: one readable reply per command, what SET stores GET returns. A stalled
  handshake is closed at the first tick after its deadline; the reply to ROLE LIST is not one value.

  This theory holds the properties that run from the command gate through router, shard, log and
  encryption to the engine.

  \<^bold>\<open>Parameters.\<close> The AEAD, SHA-256, xxhash, bcrypt, base64, YAML, the token provider and the rendering of
  times and error texts are arguments; what the code relies on are named hypotheses such as
  \<open>aead_laws\<close>, and each has a concrete instance in the witnesses (\<open>plain_prims\<close>, \<open>sample_env\<close>). Of TLS only
  the contract of \<^verbatim>\<open>Conn.Read\<close> is used: \<open>tls_Read\<close>.

  \<^bold>\<open>Bounds and fuel.\<close> Loops over buffers and records are total functions with a termination proof. Only
  the two TLS read loops take fuel, because one of them need not end: for the Redis front end one
  unit more than the bytes at hand is enough (\<open>resp_traffic_returns\<close>), for the binary front end no
  fuel is enough on a large frame (\<open>tls_large_frame_hangs\<close>). Runs of servers are of any length.

  \<^bold>\<open>Not modelled.\<close> Lock striping, object pools and goroutine scheduling below the atomicity the locks
  give. \<^verbatim>\<open>server/server.go\<close> apart from the request handler (wiring, signals and the ticker that calls
  snapshots), configuration files and flags, metrics, logs and traces. The JSON encoding, rotation,
  encryption and replay of audit files. The TLS stack, a fork of the Go standard library, and the
  discovery and signature checks of tokens, which are calls to other servers. The two client packages,
  which are socket I/O around the modelled codecs, and the query parser of \<^verbatim>\<open>internal/protocol\<close>, which no
  part of the server calls.
\<close>

section \<open>Commands on the sharded store\<close>

text \<open>
  C27. A value set with \<^verbatim>\<open>SET k v EX n\<close> and acknowledged is what
  \<^verbatim>\<open>GET k\<close> answers up to \<open>n\<close> seconds later, and after that the key is
  gone: through the command gate, the router, the shard, its log and its encrypted engine, for
  every number of seconds whose nanoseconds fit in 64 bits.
\<close>

theorem set_ex_then_get:
  assumes "router_ok P (kv st)" "exec_ok (vs 0)" "exec_ok (us 0)" "op_now (vs 0) \<le> op_now (us 0)"
    and "Args c = [''SET'', k, x, ''EX'', n]" "Args d = [''GET'', k]" "Atoi n = Some secs" "0 < secs" "secs * second < 2 ^ 63"
    and "\<forall>cmd. cmd_Lookup ''SET'' = Some cmd \<longrightarrow> permitted c cmd st" "\<forall>cmd. cmd_Lookup ''GET'' = Some cmd \<longrightarrow> permitted d cmd st"
  shows "\<exists>r st'. server_exec P vs now1 c st = Returns (Some r, st') \<and> (r = RepOK \<or> (\<exists>err. r = RepStorageErr err)) \<and>
      (r = RepOK \<longrightarrow> (\<exists>st''. server_exec P us now2 d st' =
         Returns (Some (if op_now (us 0) \<le> op_now (vs 0) + secs * second then RepBulk x else RepNull), st'')))"
proof -
  have ttl: "int64 (secs * second) = secs * second" "0 < secs * second" using assms(8,9) by (auto simp: second_def)
  then have "int64 (secs * second) \<noteq> 0" by linarith
  then obtain r st' where s: "server_exec P vs now1 c st = Returns (Some (case r of None \<Rightarrow> RepOK | Some err \<Rightarrow> RepStorageErr err), st')"
      "router_ok P (kv st')" "pol st' = None \<longleftrightarrow> pol st = None"
      "\<And>t. r = None \<Longrightarrow> op_now (vs 0) \<le> t \<Longrightarrow> router_view P (kv st') t k =
         (if past t (deadline (op_now (vs 0)) (int64 (secs * second))) then None else Some x)"
    using server_set_EX [where vs = vs and now = now1, OF assms(1,2,5,7,8) _ assms(10)] by metis
  have "\<forall>cmd. cmd_Lookup ''GET'' = Some cmd \<longrightarrow> permitted d cmd st'" using assms(11) s(3) by (simp add: permitted_def)
  from server_get [where vs = us and now = now2, OF s(2) assms(3,6) this] obtain st'' where
    g: "server_exec P us now2 d st' =
      Returns (Some (case router_view P (kv st') (op_now (us 0)) k of None \<Rightarrow> RepNull | Some y \<Rightarrow> RepBulk y), st'')" by blast
  have "r = None \<Longrightarrow> router_view P (kv st') (op_now (us 0)) k = (if op_now (us 0) \<le> op_now (vs 0) + secs * second then Some x else None)"
    using s(4) assms(4) ttl by (simp add: deadline_def)
  with s(1) g show ?thesis by (cases r) auto
qed


text \<open>
  An expiration beyond 64 bits of nanoseconds is accepted and dropped: for seconds between
  \<open>2^63 div 10^9\<close> and \<open>2^64 div 10^9\<close> the product wraps to a negative duration, and
  an acknowledged \<^verbatim>\<open>SET k v EX n\<close> leaves a key that never expires.
\<close>

theorem set_ex_overflow_never_expires:
  assumes "router_ok P (kv st)" "exec_ok (vs 0)" "Args c = [''SET'', k, x, ''EX'', n]" "Atoi n = Some secs"
    and "2 ^ 63 \<le> secs * second" "secs * second < 2 ^ 64" "\<forall>cmd. cmd_Lookup ''SET'' = Some cmd \<longrightarrow> permitted c cmd st"
  shows "\<exists>r st'. server_exec P vs now c st = Returns (Some r, st') \<and> (r = RepOK \<or> (\<exists>err. r = RepStorageErr err)) \<and>
      (r = RepOK \<longrightarrow> (\<forall>t\<ge>op_now (vs 0). router_view P (kv st') t k = Some x))"
proof -
  have pos: "0 < secs" using assms(5) by (auto simp: second_def)
  have neg: "int64 (secs * second) < 0" using assms(5,6) by (simp add: int64_wraps)
  then have "int64 (secs * second) \<noteq> 0" by simp
  then obtain r st' where s: "server_exec P vs now c st = Returns (Some (case r of None \<Rightarrow> RepOK | Some err \<Rightarrow> RepStorageErr err), st')"
      "\<And>t. r = None \<Longrightarrow> op_now (vs 0) \<le> t \<Longrightarrow> router_view P (kv st') t k =
         (if past t (deadline (op_now (vs 0)) (int64 (secs * second))) then None else Some x)"
    using server_set_EX [where vs = vs and now = now, OF assms(1-4) pos _ assms(7)] by metis
  with neg show ?thesis by (cases r) (auto simp: deadline_def)
qed

definition open_server :: server_state where
  "open_server = \<lparr>kv = two_shards, pol = None, aud = None\<rparr>"

lemma open_server_simps [simp]: "router_ok plain_prims (kv open_server)" "permitted c cmd open_server"
  using two_shards_ok by (simp_all add: open_server_def permitted_def)

definition plain_ctx :: "bytes list \<Rightarrow> ctx" where
  "plain_ctx as = \<lparr>Args = as, ctx_TTL = 0, Session = None, Remote = ''r'', Protocol = ''resp''\<rparr>"

lemma plain_ctx_Args [simp]: "Args (plain_ctx as) = as"
  by (simp add: plain_ctx_def)

theorem set_ex_then_get_witness:
  "\<exists>r st'. server_exec plain_prims (\<lambda>i. exec_at 0) 0 (plain_ctx [''SET'', ''k'', ''v'', ''EX'', ''10'']) open_server = Returns (Some r, st') \<and>
     (r = RepOK \<longrightarrow> (\<exists>st''. server_exec plain_prims (\<lambda>i. exec_at (11 * second)) 0 (plain_ctx [''GET'', ''k'']) st' = Returns (Some RepNull, st'')))"
proof -
  have "Atoi ''10'' = Some 10" by code_simp
  from set_ex_then_get [of plain_prims open_server "\<lambda>i. exec_at 0" "\<lambda>i. exec_at (11 * second)"
      "plain_ctx [''SET'', ''k'', ''v'', ''EX'', ''10'']" "''k''" "''v''" "''10''" "plain_ctx [''GET'', ''k'']" 10 0 0] this
  show ?thesis by (simp add: second_def) blast
qed


theorem set_ex_overflow_never_expires_witness:
  "\<exists>r st'. server_exec plain_prims (\<lambda>i. exec_at 0) 0 (plain_ctx [''SET'', ''k'', ''v'', ''EX'', ''9300000000'']) open_server = Returns (Some r, st') \<and>
     (r = RepOK \<longrightarrow> router_view plain_prims (kv st') (10 ^ 30) ''k'' = Some ''v'')"
proof -
  have "Atoi ''9300000000'' = Some 9300000000" by (simp add: Atoi_def Let_def digits_val_def digit_val_def is_digit_def)
  moreover have "exec_ok (exec_at 0)" "2 ^ 63 \<le> 9300000000 * second" "9300000000 * second < 2 ^ 64" by (simp_all add: second_def)
  moreover have "op_now (exec_at 0) \<le> 10 ^ 30" by simp
  ultimately show ?thesis
    using set_ex_overflow_never_expires [where vs = "\<lambda>i. exec_at 0" and now = 0, OF open_server_simps(1) _ plain_ctx_Args]
      open_server_simps(2) by meson
qed

end
